(* ===== verification/Prelude.thy ===== *)
theory Prelude
  imports Main "HOL-Library.Word" "HOL-Library.Monad_Syntax"
begin

text \<open>
  Vocabulary shared by every theory of the development: the machine integers of the C code,
  its status codes, blocks of memory, and generic facts about lists.

  \<^item> Unsigned 64-bit and 32-bit integers are words, so that arithmetic wraps as in C.
  \<^item> A C string is the list of its characters up to the terminating NUL; a block of memory
    is the list of all its bytes, NULs included.
  \<^item> An operation that may touch memory outside its block, dereference a null pointer or
    fail an \<open>assert\<close> has an option result, and \<open>None\<close> is that crash. Theorems about such
    an operation state that it returns \<open>Some\<close>.
\<close>

named_theorems mem_simps \<open>evaluation of reads and writes of memory blocks\<close>

section \<open>Machine integers and status codes\<close>

type_synonym u64 = "64 word"
type_synonym u32 = "32 word"

definition DM_OVERQUOTA :: int where
  "DM_OVERQUOTA = -2"

definition DM_EQUERY :: int where
  "DM_EQUERY = -1"

definition DM_SUCCESS :: int where
  "DM_SUCCESS = 0"

definition DM_EGENERAL :: int where
  "DM_EGENERAL = 1"

lemmas dm_codes = DM_OVERQUOTA_def DM_EQUERY_def DM_SUCCESS_def DM_EGENERAL_def

text \<open>The answer to an SQL query: \<open>None\<close> is an SQL exception.\<close>

type_synonym 'r sql = "'r option"

section \<open>Memory blocks\<close>

abbreviation nul :: char where
  "nul \<equiv> CHR 0x00"

text \<open>The C string that starts at the beginning of a block.\<close>

definition c_str :: "char list \<Rightarrow> string" where
  "c_str blk = takeWhile (\<lambda>c. c \<noteq> nul) blk"

text \<open>\<open>memcpy\<close> and \<open>memmove\<close> into a block: \<open>None\<close> when the target range leaves the block.\<close>

definition mem_write :: "char list \<Rightarrow> nat \<Rightarrow> char list \<Rightarrow> char list option" where
  "mem_write blk pos s =
     (if pos + length s \<le> length blk
      then Some (take pos blk @ s @ drop (pos + length s) blk) else None)"

text \<open>A read of \<open>n\<close> bytes at an offset.\<close>

definition mem_read :: "char list \<Rightarrow> nat \<Rightarrow> nat \<Rightarrow> char list option" where
  "mem_read blk pos n =
     (if pos + n \<le> length blk then Some (take n (drop pos blk)) else None)"

lemma mem_write_Some [mem_simps]:
  "pos + length s \<le> length blk \<Longrightarrow>
     mem_write blk pos s = Some (take pos blk @ s @ drop (pos + length s) blk)"
  by (simp add: mem_write_def)

lemma mem_read_Some [mem_simps]:
  "pos + n \<le> length blk \<Longrightarrow> mem_read blk pos n = Some (take n (drop pos blk))"
  by (simp add: mem_read_def)

lemma mem_write_length: "mem_write blk pos s = Some blk' \<Longrightarrow> length blk' = length blk"
  by (auto simp: mem_write_def split: if_splits)

lemma mem_write_None_iff: "mem_write blk pos s = None \<longleftrightarrow> length blk < pos + length s"
  by (auto simp: mem_write_def)

lemma mem_write_prefix:
  "mem_write blk pos s = Some blk' \<Longrightarrow> take (pos + length s) blk' = take pos blk @ s"
  by (cases "length blk \<le> pos") (auto simp: mem_write_def min_def split: if_splits)

section \<open>Lists\<close>

lemma takeWhile_neq_append_elem [simp]:
  "x \<notin> set xs \<Longrightarrow> takeWhile (\<lambda>c. c \<noteq> x) (xs @ x # ys) = xs"
  by (induction xs) auto

lemma takeWhile_neq_all [simp]:
  "x \<notin> set xs \<Longrightarrow> takeWhile (\<lambda>c. c \<noteq> x) xs = xs"
  by (induction xs) auto

lemma c_str_append_nul [simp]: "nul \<notin> set s \<Longrightarrow> c_str (s @ nul # t) = s"
  by (simp add: c_str_def)

lemma c_str_id [simp]: "nul \<notin> set s \<Longrightarrow> c_str s = s"
  by (simp add: c_str_def)

lemma nul_notin_c_str [simp]: "nul \<notin> set (c_str blk)"
  by (auto simp: c_str_def dest: set_takeWhileD)

lemma length_takeWhile_less_iff:
  "length (takeWhile P xs) < length xs \<longleftrightarrow> (\<exists>x \<in> set xs. \<not> P x)"
  by (induction xs) auto

lemma dropWhile_eq_Nil_iff: "dropWhile P xs = [] \<longleftrightarrow> (\<forall>x \<in> set xs. P x)"
  by (induction xs) auto

lemma sum_list_map_filter_split:
  "sum_list (map f (filter P xs)) + sum_list (map f (filter (\<lambda>x. \<not> P x) xs))
     = sum_list (map f xs)" for f :: "'a \<Rightarrow> 'b :: comm_monoid_add"
  by (induction xs) (simp_all add: ac_simps)

lemma drop_eq_Cons_iff:
  "drop t xs = x # r \<longleftrightarrow> t < length xs \<and> xs ! t = x \<and> drop (Suc t) xs = r"
  by (cases "t < length xs") (auto simp: Cons_nth_drop_Suc [symmetric])

lemma of_nat_less_u64: "a < b \<Longrightarrow> b < 2 ^ 64 \<Longrightarrow> (of_nat a :: u64) < of_nat b"
  by (simp add: word_less_nat_alt unat_of_nat)

lemma of_nat_u64_inject: "a < 2 ^ 64 \<Longrightarrow> b < 2 ^ 64 \<Longrightarrow> (of_nat a :: u64) = of_nat b \<longleftrightarrow> a = b"
  by (metis linorder_neqE_nat of_nat_less_u64 order_less_irrefl)

end
