(* ===== verification/CString.thy ===== *)
theory CString
  imports Prelude
begin

text \<open>
  The functions of the C library that the code applies to strings, on the list of characters
  before the terminating NUL. A pointer into a string is the suffix it points at, or its
  offset where the code subtracts pointers. Character classes and case folding are those of
  the C locale, in which the daemons run their parsers.
\<close>

section \<open>Characters\<close>

definition code :: "char \<Rightarrow> nat" where
  "code c = of_char c"

definition isdigit :: "char \<Rightarrow> bool" where
  "isdigit c \<longleftrightarrow> 48 \<le> code c \<and> code c \<le> 57"

definition isspace :: "char \<Rightarrow> bool" where
  "isspace c \<longleftrightarrow> 9 \<le> code c \<and> code c \<le> 13 \<or> code c = 32"

definition tolower :: "char \<Rightarrow> char" where
  "tolower c = (if 65 \<le> code c \<and> code c \<le> 90 then char_of (code c + 32) else c)"

lemmas ctype_defs = code_def isdigit_def isspace_def tolower_def

lemma code_less_256 [simp]: "code c < 256"
proof -
  have "(of_char c :: nat) \<in> {0..<256}"
    using range_nat_of_char by blast
  then show ?thesis
    by (simp add: code_def)
qed

lemma code_char_of [simp]: "n < 256 \<Longrightarrow> code (char_of n) = n"
  by (simp add: code_def of_char_of)

lemma code_eq_iff [simp]: "code c = code d \<longleftrightarrow> c = d"
  by (simp add: code_def)

lemma tolower_idem [simp]: "tolower (tolower c) = tolower c"
  by (auto simp: tolower_def)

lemma isdigit_nul [simp]: "\<not> isdigit nul"
  by (simp add: ctype_defs)

section \<open>Comparison and search\<close>

text \<open>\<open>strcasecmp (a, b) == 0\<close> and \<open>strncasecmp (a, b, n) == 0\<close>.\<close>

definition strcaseeq :: "string \<Rightarrow> string \<Rightarrow> bool" where
  "strcaseeq a b \<longleftrightarrow> map tolower a = map tolower b"

definition strncaseeq :: "nat \<Rightarrow> string \<Rightarrow> string \<Rightarrow> bool" where
  "strncaseeq n a b \<longleftrightarrow> map tolower (take n a) = map tolower (take n b)"

text \<open>\<open>strncmp (a, b, n) == 0\<close>.\<close>

definition strneq :: "nat \<Rightarrow> string \<Rightarrow> string \<Rightarrow> bool" where
  "strneq n a b \<longleftrightarrow> take n a = take n b"

text \<open>\<open>strcmp\<close>: negative, zero or positive by the first differing unsigned byte.\<close>

fun strcmp :: "string \<Rightarrow> string \<Rightarrow> int" where
  "strcmp [] [] = 0"
| "strcmp [] (b # bs) = -1"
| "strcmp (a # as) [] = 1"
| "strcmp (a # as) (b # bs) =
     (if code a < code b then -1 else if code b < code a then 1 else strcmp as bs)"

text \<open>
  \<open>strchr\<close> and \<open>strrchr\<close> for a character other than NUL: the offset of its first and last
  occurrence. \<open>strspn\<close>: the length of the longest prefix over a set of characters.
\<close>

definition strchr :: "string \<Rightarrow> char \<Rightarrow> nat option" where
  "strchr s c = (if c \<in> set s then Some (length (takeWhile (\<lambda>d. d \<noteq> c) s)) else None)"

definition strrchr :: "string \<Rightarrow> char \<Rightarrow> nat option" where
  "strrchr s c = map_option (\<lambda>i. length s - Suc i) (strchr (rev s) c)"

definition strspn :: "string \<Rightarrow> string \<Rightarrow> nat" where
  "strspn s accept = length (takeWhile (\<lambda>c. c \<in> set accept) s)"

text \<open>\<open>strstr\<close>: the offset of the first occurrence of a substring.\<close>

fun strstr :: "string \<Rightarrow> string \<Rightarrow> nat option" where
  "strstr [] needle = (if needle = [] then Some 0 else None)"
| "strstr (c # cs) needle =
     (if take (length needle) (c # cs) = needle then Some 0
      else map_option Suc (strstr cs needle))"

lemma strcaseeq_refl [simp]: "strcaseeq a a"
  by (simp add: strcaseeq_def)

lemma strcaseeq_sym: "strcaseeq a b \<longleftrightarrow> strcaseeq b a"
  by (auto simp: strcaseeq_def)

lemma strcaseeq_trans: "strcaseeq a b \<Longrightarrow> strcaseeq b c \<Longrightarrow> strcaseeq a c"
  by (simp add: strcaseeq_def)

lemma strcmp_eq_0_iff [simp]: "strcmp a b = 0 \<longleftrightarrow> a = b"
  by (induction a b rule: strcmp.induct)
     (auto simp: not_less dest: order.antisym)

lemma strcmp_sym: "strcmp a b < 0 \<longleftrightarrow> 0 < strcmp b a"
  by (induction a b rule: strcmp.induct) auto

lemma strcmp_trans: "strcmp a b < 0 \<Longrightarrow> strcmp b c < 0 \<Longrightarrow> strcmp a c < 0"
proof (induction a b arbitrary: c rule: strcmp.induct)
  case (2 b bs)
  then show ?case by (cases c) auto
next
  case (4 a as b bs)
  show ?case
  proof (cases c)
    case Nil
    with "4.prems" show ?thesis by simp
  next
    case c: (Cons d ds)
    from "4.prems"(1) have ab: "code a < code b \<or> code a = code b \<and> strcmp as bs < 0"
      by (simp split: if_splits)
    from "4.prems"(2) c have bd: "code b < code d \<or> code b = code d \<and> strcmp bs ds < 0"
      by (simp split: if_splits)
    show ?thesis
    proof (cases "code a = code b \<and> code b = code d")
      case True
      with ab bd "4.IH" [of ds] c show ?thesis by simp
    next
      case False
      with ab bd have "code a < code d" by linarith
      with c show ?thesis by simp
    qed
  qed
qed auto

lemma strchr_Some_iff:
  "strchr s c = Some i \<longleftrightarrow> i < length s \<and> s ! i = c \<and> c \<notin> set (take i s)"
proof (induction s arbitrary: i)
  case Nil
  then show ?case by (simp add: strchr_def)
next
  case (Cons d s)
  show ?case
  proof (cases "d = c")
    case True
    then show ?thesis by (cases i) (auto simp: strchr_def)
  next
    case False
    then have "strchr (d # s) c = map_option Suc (strchr s c)"
      by (simp add: strchr_def)
    with False Cons show ?thesis by (cases i) (auto simp: strchr_def)
  qed
qed

lemma strchr_None_iff [simp]: "strchr s c = None \<longleftrightarrow> c \<notin> set s"
  by (simp add: strchr_def)

lemma strchr_less: "strchr s c = Some i \<Longrightarrow> i < length s"
  by (simp add: strchr_Some_iff)

lemma strrchr_None_iff [simp]: "strrchr s c = None \<longleftrightarrow> c \<notin> set s"
  by (simp add: strrchr_def)

lemma strrchr_Some_iff:
  "strrchr s c = Some i \<longleftrightarrow> i < length s \<and> s ! i = c \<and> c \<notin> set (drop (Suc i) s)"
proof -
  have "(\<exists>j. strchr (rev s) c = Some j \<and> i = length s - Suc j) \<longleftrightarrow>
        i < length s \<and> strchr (rev s) c = Some (length s - Suc i)"
  proof
    assume "\<exists>j. strchr (rev s) c = Some j \<and> i = length s - Suc j"
    then obtain j where j: "strchr (rev s) c = Some j" "i = length s - Suc j" by blast
    moreover from j have "j < length s" by (auto dest: strchr_less)
    ultimately show "i < length s \<and> strchr (rev s) c = Some (length s - Suc i)" by simp
  next
    assume "i < length s \<and> strchr (rev s) c = Some (length s - Suc i)"
    then show "\<exists>j. strchr (rev s) c = Some j \<and> i = length s - Suc j"
      by (intro exI [of _ "length s - Suc i"]) simp
  qed
  moreover have "strrchr s c = Some i \<longleftrightarrow> (\<exists>j. strchr (rev s) c = Some j \<and> i = length s - Suc j)"
    by (auto simp: strrchr_def)
  moreover have "length s - Suc i < length s \<and> length s - (length s - Suc i) = Suc i"
    if "i < length s" using that by simp
  ultimately show ?thesis
    by (cases "i < length s") (simp_all add: strchr_Some_iff rev_nth take_rev)
qed

lemma strstr_Some_decomp:
  "strstr s n = Some i \<Longrightarrow> i + length n \<le> length s \<and> take (length n) (drop i s) = n"
proof (induction s n arbitrary: i rule: strstr.induct)
  case (1 needle)
  then show ?case by (auto split: if_splits)
next
  case (2 c cs needle)
  show ?case
  proof (cases "take (length needle) (c # cs) = needle")
    case True
    then have "length (take (length needle) (c # cs)) = length needle" by simp
    then have "length needle \<le> length (c # cs)" by (simp add: min_def split: if_splits)
    with True "2.prems" show ?thesis by simp
  next
    case False
    with "2.prems" obtain j where "strstr cs needle = Some j" "i = Suc j" by auto
    with "2.IH" [OF False, of j] show ?thesis by simp
  qed
qed

section \<open>Numbers\<close>

fun dec_value :: "nat \<Rightarrow> string \<Rightarrow> nat" where
  "dec_value acc [] = acc"
| "dec_value acc (c # cs) = dec_value (10 * acc + (code c - 48)) cs"

text \<open>
  The common part of \<open>strtol\<close>, \<open>strtoll\<close> and \<open>strtoull\<close> in base 10: white space, an optional
  sign, and as many digits as there are. The result is the sign, the digits and the rest.
\<close>

definition strto_scan :: "string \<Rightarrow> bool \<times> string \<times> string" where
  "strto_scan s =
     (let t = dropWhile isspace s;
          neg = (t \<noteq> [] \<and> hd t = CHR ''-'');
          u = (if t \<noteq> [] \<and> (hd t = CHR ''-'' \<or> hd t = CHR ''+'') then tl t else t)
      in (neg, takeWhile isdigit u, dropWhile isdigit u))"

text \<open>
  \<open>strtoll (s, \<dots>, 10)\<close>: the value, whether \<open>errno\<close> was set to \<open>ERANGE\<close>, and the end pointer.
  Without digits the value is 0 and the end pointer is \<open>s\<close>.
\<close>

definition strtoll :: "string \<Rightarrow> int \<times> bool \<times> string" where
  "strtoll s =
     (case strto_scan s of (neg, ds, rest) \<Rightarrow>
        if ds = [] then (0, False, s)
        else let v = (if neg then - int (dec_value 0 ds) else int (dec_value 0 ds))
             in if v < - (2 ^ 63) then (- (2 ^ 63), True, rest)
                else if 2 ^ 63 - 1 < v then (2 ^ 63 - 1, True, rest)
                else (v, False, rest))"

text \<open>\<open>strtoull (s, \<dots>, 10)\<close>: a negative number is negated modulo \<open>2 ^ 64\<close>.\<close>

definition strtoull :: "string \<Rightarrow> u64 \<times> string" where
  "strtoull s =
     (case strto_scan s of (neg, ds, rest) \<Rightarrow>
        if ds = [] then (0, s)
        else if 2 ^ 64 \<le> dec_value 0 ds then (- 1, rest)
        else ((if neg then - of_nat (dec_value 0 ds) else of_nat (dec_value 0 ds)), rest))"

text \<open>\<open>printf ("%" PRIu64)\<close>.\<close>

fun show_nat :: "nat \<Rightarrow> string" where
  "show_nat n =
     (if n < 10 then [char_of (n + 48)]
      else show_nat (n div 10) @ [char_of (n mod 10 + 48)])"

declare show_nat.simps [simp del]

definition show_u64 :: "u64 \<Rightarrow> string" where
  "show_u64 n = show_nat (unat n)"

lemma dec_value_append: "dec_value acc (s @ [c]) = 10 * dec_value acc s + (code c - 48)"
  by (induction acc s rule: dec_value.induct) auto

lemma show_nat_digits: "\<forall>c \<in> set (show_nat n). isdigit c"
proof (induction n rule: show_nat.induct)
  case (1 n)
  then show ?case
    by (subst show_nat.simps) (auto simp: isdigit_def)
qed

lemma show_nat_nonempty [simp]: "show_nat n \<noteq> []"
  by (subst show_nat.simps) simp

lemma dec_value_show_nat [simp]: "dec_value 0 (show_nat n) = n"
proof (induction n rule: show_nat.induct)
  case (1 n)
  then show ?case
    by (subst show_nat.simps) (auto simp: dec_value_append)
qed

lemma isdigit_not_space [simp]: "isdigit c \<Longrightarrow> \<not> isspace c"
  by (auto simp: ctype_defs)

lemma strto_scan_digits:
  assumes "ds \<noteq> []" "\<forall>c \<in> set ds. isdigit c" "rest = [] \<or> \<not> isdigit (hd rest)"
  shows "strto_scan (ds @ rest) = (False, ds, rest)"
proof -
  obtain d ds' where ds: "ds = d # ds'" using assms(1) by (cases ds) auto
  with assms(2) have d: "isdigit d" by simp
  then have sign: "d \<noteq> CHR ''-''" "d \<noteq> CHR ''+''" by (auto simp: ctype_defs)
  have tw: "takeWhile isdigit (ds @ rest) = ds" "dropWhile isdigit (ds @ rest) = rest"
    using assms(2,3) by (cases rest; auto)+
  show ?thesis
    using d sign tw by (simp add: strto_scan_def ds Let_def)
qed

lemma strtoll_show_u64:
  assumes "unat n < 2 ^ 63" "rest = [] \<or> \<not> isdigit (hd rest)"
  shows "strtoll (show_u64 n @ rest) = (int (unat n), False, rest)"
proof -
  have "int (unat n) < int (2 ^ 63)" using assms(1) by (simp only: of_nat_less_iff)
  moreover have "\<not> uint n < - 9223372036854775808"
    using uint_nonnegative [of n] by linarith
  ultimately show ?thesis
    using strto_scan_digits [OF show_nat_nonempty show_nat_digits assms(2), of "unat n"]
    by (simp add: strtoll_def show_u64_def Let_def)
qed

lemma strtoull_show_u64:
  assumes "rest = [] \<or> \<not> isdigit (hd rest)"
  shows "strtoull (show_u64 n @ rest) = (n, rest)"
proof -
  have "unat n < 2 ^ 64" using unsigned_less [of n, where 'a = nat] by simp
  then show ?thesis
    using strto_scan_digits [OF show_nat_nonempty show_nat_digits assms, of "unat n"]
    by (simp add: strtoull_def show_u64_def)
qed

section \<open>Splitting and joining\<close>

text \<open>
  \<open>g_strsplit (s, d, 0)\<close> for a delimiter of one character: all fields between occurrences,
  empty ones included, and no field at all for the empty string.
\<close>

fun split_on :: "char \<Rightarrow> string \<Rightarrow> string list" where
  "split_on d [] = [[]]"
| "split_on d (c # cs) =
     (if c = d then [] # split_on d cs
      else (case split_on d cs of [] \<Rightarrow> [[c]] | f # fs \<Rightarrow> (c # f) # fs))"

definition g_strsplit :: "char \<Rightarrow> string \<Rightarrow> string list" where
  "g_strsplit d s = (if s = [] then [] else split_on d s)"

fun join_with :: "string \<Rightarrow> string list \<Rightarrow> string" where
  "join_with sep [] = []"
| "join_with sep [s] = s"
| "join_with sep (s # t # ts) = s @ sep @ join_with sep (t # ts)"

lemma split_on_nonempty [simp]: "split_on d s \<noteq> []"
  by (induction s) (auto split: list.splits)

lemma split_on_notin: "f \<in> set (split_on d s) \<Longrightarrow> d \<notin> set f"
proof (induction s arbitrary: f)
  case (Cons c cs)
  then show ?case by (cases "split_on d cs") (auto split: if_splits)
qed simp

lemma join_split_on: "join_with [d] (split_on d s) = s"
proof (induction s)
  case (Cons c cs)
  then show ?case
    by (cases "split_on d cs"; cases "tl (split_on d cs)") auto
qed simp

lemma split_on_no_delim: "d \<notin> set s \<Longrightarrow> split_on d s = [s]"
  by (induction s) auto

lemma split_on_append: "d \<notin> set s \<Longrightarrow> split_on d (s @ d # t) = s # split_on d t"
  by (induction s) auto

lemma split_on_join:
  "fs \<noteq> [] \<Longrightarrow> \<forall>f \<in> set fs. d \<notin> set f \<Longrightarrow> split_on d (join_with [d] fs) = fs"
  by (induction "[d]" fs rule: join_with.induct) (auto simp: split_on_no_delim split_on_append)

end
