(* ===== verification/PString.thy ===== *)
theory PString
  imports CString
begin

text \<open>
  The growable strings of \<open>src/src/dm_string.c\<close> (\<open>String_T\<close>), at the level of their memory
  block. The state is the struct: the block \<open>str\<close>, its capacity \<open>len\<close> (the block has
  \<open>len + 1\<close> bytes) and the number of bytes in use. Every operation is shown to stay inside
  its block, to keep the struct well formed, and to act on the contents as the corresponding
  list operation does. \<open>size_t\<close> quantities are natural numbers: a block of \<open>2 ^ 64\<close> bytes
  cannot be allocated.
\<close>

section \<open>The struct and its allocator\<close>

record pstring =
  p_str :: "char list"
  p_len :: nat
  p_used :: nat

definition SIZE :: "pstring \<Rightarrow> nat" where
  "SIZE S = p_len S + 1"

text \<open>
  \<open>mempool_pop\<close> returns a block of zeroes. \<open>mempool_resize\<close> keeps the common prefix; the
  bytes of the grown part are indeterminate, given here by \<open>junk\<close>.
\<close>

definition mempool_pop :: "nat \<Rightarrow> char list" where
  "mempool_pop n = replicate n nul"

definition mempool_resize :: "(nat \<Rightarrow> char) \<Rightarrow> char list \<Rightarrow> nat \<Rightarrow> nat \<Rightarrow> char list" where
  "mempool_resize junk blk oldsize newsize = take newsize blk @ map junk [oldsize..<newsize]"

definition zero_block :: "char list \<Rightarrow> nat \<Rightarrow> char list option" where
  "zero_block blk n = mem_write blk 0 (replicate n nul)"

section \<open>Operations\<close>

definition STRLEN :: nat where
  "STRLEN = 255"

text \<open>\<open>vsnprintf (blk + pos, size, \<dots>)\<close>, given the complete formatted output.\<close>

definition vsnprintf :: "char list \<Rightarrow> nat \<Rightarrow> nat \<Rightarrow> string \<Rightarrow> char list option" where
  "vsnprintf blk pos sz out =
     (if sz = 0 then Some blk else mem_write blk pos (take (sz - 1) out @ [nul]))"

partial_function (option) append :: "(nat \<Rightarrow> char) \<Rightarrow> pstring \<Rightarrow> string \<Rightarrow> pstring option" where
  "append junk S out =
     do {
       blk \<leftarrow> vsnprintf (p_str S) (p_used S) (p_len S - p_used S) out;
       if p_used S + length out < p_len S
       then Some (S\<lparr>p_str := blk, p_used := p_used S + length out\<rparr>)
       else append junk
              (S\<lparr>p_len := p_len S + STRLEN + length out,
                 p_str := mempool_resize junk blk (SIZE S)
                            (p_len S + STRLEN + length out + 1)\<rparr>) out
     }"

definition p_string_new :: "string \<Rightarrow> pstring option" where
  "p_string_new s =
     do {
       blk \<leftarrow> mem_write (mempool_pop (length s + 1)) 0 s;
       Some \<lparr>p_str = blk, p_len = length s, p_used = length s\<rparr>
     }"

definition p_string_assign :: "(nat \<Rightarrow> char) \<Rightarrow> pstring \<Rightarrow> string \<Rightarrow> pstring option" where
  "p_string_assign junk S s =
     do {
       blk \<leftarrow> zero_block (p_str S) (SIZE S);
       let oldsize = SIZE S;
       let S1 = (if oldsize < length s + 1
                 then S\<lparr>p_used := 0, p_len := length s,
                        p_str := mempool_resize junk blk oldsize (length s + 1)\<rparr>
                 else S\<lparr>p_used := 0, p_str := blk\<rparr>);
       blk1 \<leftarrow> zero_block (p_str S1) (SIZE S1);
       blk2 \<leftarrow> mem_write blk1 0 s;
       Some (S1\<lparr>p_str := blk2, p_used := length s\<rparr>)
     }"

definition p_string_printf :: "(nat \<Rightarrow> char) \<Rightarrow> pstring \<Rightarrow> string \<Rightarrow> pstring option" where
  "p_string_printf junk S out =
     do {
       blk \<leftarrow> zero_block (p_str S) (SIZE S);
       append junk (S\<lparr>p_str := blk, p_used := 0\<rparr>) out
     }"

definition p_string_append_printf :: "(nat \<Rightarrow> char) \<Rightarrow> pstring \<Rightarrow> string \<Rightarrow> pstring option" where
  "p_string_append_printf junk S out = append junk S out"

definition p_string_append_vprintf :: "(nat \<Rightarrow> char) \<Rightarrow> pstring \<Rightarrow> string \<Rightarrow> pstring option" where
  "p_string_append_vprintf junk S out = append junk S out"

text \<open>The bytes \<open>s[0..l-1]\<close> of the caller's buffer are the argument \<open>s\<close>.\<close>

definition p_string_append_len :: "(nat \<Rightarrow> char) \<Rightarrow> pstring \<Rightarrow> char list \<Rightarrow> pstring option" where
  "p_string_append_len junk S s =
     (let l = length s;
          S1 = (if p_len S < p_used S + l
                then S\<lparr>p_len := p_len S + l,
                       p_str := mempool_resize junk (p_str S) (SIZE S) (p_len S + l + 1)\<rparr>
                else S)
      in do {
           blk \<leftarrow> mem_write (p_str S1) (p_used S1) s;
           blk1 \<leftarrow> mem_write blk (p_used S1 + l) [nul];
           Some (S1\<lparr>p_str := blk1, p_used := p_used S1 + l\<rparr>)
         })"

definition p_string_len :: "pstring \<Rightarrow> nat" where
  "p_string_len S = p_used S"

definition p_string_str :: "pstring \<Rightarrow> string" where
  "p_string_str S = c_str (p_str S)"

definition p_string_erase :: "pstring \<Rightarrow> nat \<Rightarrow> int \<Rightarrow> pstring option" where
  "p_string_erase S pos len =
     (if p_used S < pos then None
      else if len < 0
      then do {
             blk \<leftarrow> mem_write (p_str S) (p_used S - (p_used S - pos)) [nul];
             Some (S\<lparr>p_str := blk, p_used := p_used S - (p_used S - pos)\<rparr>)
           }
      else if p_used S < pos + nat len then None
      else do {
             blk \<leftarrow> (if pos + nat len < p_used S
                     then do {
                            moved \<leftarrow> mem_read (p_str S) (pos + nat len) (p_used S - (pos + nat len));
                            mem_write (p_str S) pos moved
                          }
                     else Some (p_str S));
             blk1 \<leftarrow> mem_write blk (p_used S - nat len) [nul];
             Some (S\<lparr>p_str := blk1, p_used := p_used S - nat len\<rparr>)
           })"

definition p_string_truncate :: "pstring \<Rightarrow> nat \<Rightarrow> pstring option" where
  "p_string_truncate S l =
     (if p_used S \<le> l then Some S
      else do {
             blk \<leftarrow> mem_write (p_str S) l [nul];
             Some (S\<lparr>p_str := blk, p_used := l\<rparr>)
           })"

text \<open>
  The in-place loop of \<open>p_string_unescape\<close>: \<open>h\<close> and \<open>t\<close> are the offsets of \<open>head\<close> and \<open>this\<close>.
  A read past the block is a crash.
\<close>

function unescape_loop ::
  "char list \<Rightarrow> nat \<Rightarrow> nat \<Rightarrow> bool \<Rightarrow> nat \<Rightarrow> (char list \<times> nat) option" where
  "unescape_loop blk h t found_escape used =
     (if length blk \<le> t then None
      else if blk ! t = nul then Some (blk[h := nul], used)
      else if length blk \<le> t + 1 then None
      else if \<not> found_escape \<and> blk ! (t + 1) \<noteq> nul \<and> blk ! t = CHR 0x5C
              \<and> (blk ! (t + 1) = CHR 0x22 \<or> blk ! (t + 1) = CHR 0x5C)
      then unescape_loop blk h (t + 1) True (used - 1)
      else unescape_loop (blk[h := blk ! t]) (h + 1) (t + 1) False used)"
  by pat_completeness auto
termination
  by (relation "measure (\<lambda>(blk, h, t, f, u). length blk - t)") auto

declare unescape_loop.simps [simp del]

definition p_string_unescape :: "pstring \<Rightarrow> pstring option" where
  "p_string_unescape S =
     map_option (\<lambda>(blk, used). S\<lparr>p_str := blk, p_used := used\<rparr>)
       (unescape_loop (p_str S) 0 0 False (p_used S))"

text \<open>\<open>p_string_free\<close>: the struct is released; the block is handed out unless freed too.\<close>

definition p_string_free :: "pstring \<Rightarrow> bool \<Rightarrow> string option" where
  "p_string_free S free_block = (if free_block then None else Some (p_string_str S))"

definition trim_seps :: string where
  "trim_seps = [CHR 0x09, CHR 0x0A, CHR 0x0B, CHR 0x0C, CHR 0x0D, CHR '' '']"

definition p_ltrim :: "string \<Rightarrow> string option \<Rightarrow> string" where
  "p_ltrim str seps =
     (let sp = (case seps of None \<Rightarrow> trim_seps | Some x \<Rightarrow> x);
          totrim = strspn str sp
      in if 0 < totrim
         then (if totrim = length str then [] else drop totrim str)
         else str)"

text \<open>The loop of \<open>p_rtrim\<close> runs from the last character down; \<open>n\<close> is \<open>i + 1\<close>.\<close>

fun rtrim_loop :: "string \<Rightarrow> string \<Rightarrow> nat \<Rightarrow> string" where
  "rtrim_loop str sp 0 = []"
| "rtrim_loop str sp (Suc i) =
     (if str ! i \<in> set sp then rtrim_loop str sp i else take (Suc i) str)"

definition p_rtrim :: "string \<Rightarrow> string option \<Rightarrow> string" where
  "p_rtrim str seps =
     rtrim_loop str (case seps of None \<Rightarrow> trim_seps | Some x \<Rightarrow> x) (length str)"

definition p_trim :: "string \<Rightarrow> string option \<Rightarrow> string" where
  "p_trim str seps = p_ltrim (p_rtrim str seps) seps"

section \<open>Well-formed strings and their contents\<close>

definition pstring_ok :: "pstring \<Rightarrow> bool" where
  "pstring_ok S \<longleftrightarrow>
     length (p_str S) = p_len S + 1 \<and> p_used S \<le> p_len S \<and> p_str S ! p_used S = nul"

definition contents :: "pstring \<Rightarrow> char list" where
  "contents S = take (p_used S) (p_str S)"

lemma length_contents [simp]: "pstring_ok S \<Longrightarrow> length (contents S) = p_used S"
  by (simp add: pstring_ok_def contents_def)

lemma mempool_resize_length:
  "oldsize = length blk \<Longrightarrow> oldsize \<le> newsize \<Longrightarrow>
     length (mempool_resize junk blk oldsize newsize) = newsize"
  by (simp add: mempool_resize_def)

lemma take_mempool_resize:
  "n \<le> length blk \<Longrightarrow> length blk \<le> newsize \<Longrightarrow>
     take n (mempool_resize junk blk oldsize newsize) = take n blk"
  by (simp add: mempool_resize_def)

lemma p_string_str_contents:
  assumes "pstring_ok S" "nul \<notin> set (contents S)"
  shows "p_string_str S = contents S"
proof -
  have "p_str S = contents S @ nul # drop (Suc (p_used S)) (p_str S)"
    using assms(1) id_take_nth_drop [of "p_used S" "p_str S"]
    by (simp add: pstring_ok_def contents_def)
  then show ?thesis
    using assms(2) by (metis p_string_str_def c_str_append_nul)
qed

text \<open>A struct whose block is a given prefix followed by NUL.\<close>

lemma pstring_okI:
  assumes "length blk = len + 1" "take (n + 1) blk = s @ [nul]" "length s = n" "n \<le> len"
  shows "pstring_ok \<lparr>p_str = blk, p_len = len, p_used = n\<rparr>"
    and "contents \<lparr>p_str = blk, p_len = len, p_used = n\<rparr> = s"
proof -
  have "blk ! n = take (n + 1) blk ! n" by simp
  also have "\<dots> = nul" using assms(2,3) by (simp add: nth_append)
  finally show "pstring_ok \<lparr>p_str = blk, p_len = len, p_used = n\<rparr>"
    using assms(1,4) by (simp add: pstring_ok_def)
  have "take n blk = take n (take (n + 1) blk)" by simp
  then show "contents \<lparr>p_str = blk, p_len = len, p_used = n\<rparr> = s"
    using assms(2,3) by (simp add: contents_def del: take_take)
qed

lemma pstring_ok_updI:
  assumes "length blk = p_len S + 1" "take (n + 1) blk = s @ [nul]" "length s = n" "n \<le> p_len S"
  shows "pstring_ok (S\<lparr>p_str := blk, p_used := n\<rparr>) \<and> contents (S\<lparr>p_str := blk, p_used := n\<rparr>) = s"
  using pstring_okI [OF assms] by (simp add: pstring_ok_def contents_def)

section \<open>Correctness of the operations\<close>

lemma p_string_new_correct:
  "\<exists>S. p_string_new s = Some S \<and> pstring_ok S \<and> contents S = s"
proof -
  let ?S = "\<lparr>p_str = s @ [nul], p_len = length s, p_used = length s\<rparr>"
  have "p_string_new s = Some ?S"
    by (simp add: p_string_new_def mempool_pop_def mem_write_Some del: replicate_Suc) simp
  moreover have "pstring_ok ?S" "contents ?S = s"
    by (simp_all add: pstring_ok_def contents_def)
  ultimately show ?thesis by blast
qed

lemma vsnprintf_fits:
  assumes "length out < sz" "pos + sz \<le> length blk"
  shows "\<exists>blk'. vsnprintf blk pos sz out = Some blk' \<and> length blk' = length blk \<and>
           take (pos + length out + 1) blk' = take pos blk @ out @ [nul]"
  using assms by (auto simp: vsnprintf_def mem_write_def min_def)

lemma vsnprintf_keeps_prefix:
  assumes "pos + sz \<le> length blk"
  shows "\<exists>blk'. vsnprintf blk pos sz out = Some blk' \<and> length blk' = length blk \<and>
           take pos blk' = take pos blk"
  using assms by (auto simp: vsnprintf_def mem_write_def min_def)

lemma append_fits:
  assumes "pstring_ok S" "p_used S + length out < p_len S"
  shows "\<exists>S'. append junk S out = Some S' \<and> pstring_ok S' \<and> contents S' = contents S @ out"
proof -
  obtain blk where blk: "vsnprintf (p_str S) (p_used S) (p_len S - p_used S) out = Some blk"
      "length blk = p_len S + 1"
      "take (p_used S + length out + 1) blk = take (p_used S) (p_str S) @ out @ [nul]"
    using vsnprintf_fits [of out "p_len S - p_used S" "p_used S" "p_str S"] assms
    by (auto simp: pstring_ok_def less_diff_conv add.commute)
  have "append junk S out = Some (S\<lparr>p_str := blk, p_used := p_used S + length out\<rparr>)"
    using blk assms(2) by (subst append.simps) simp
  moreover have "pstring_ok (S\<lparr>p_str := blk, p_used := p_used S + length out\<rparr>) \<and>
      contents (S\<lparr>p_str := blk, p_used := p_used S + length out\<rparr>) = contents S @ out"
    using blk(2,3) assms
    by (intro pstring_ok_updI) (auto simp: contents_def pstring_ok_def)
  ultimately show ?thesis by blast
qed

lemma append_correct:
  assumes "pstring_ok S"
  shows "\<exists>S'. append junk S out = Some S' \<and> pstring_ok S' \<and> contents S' = contents S @ out"
proof (cases "p_used S + length out < p_len S")
  case True
  with assms show ?thesis by (rule append_fits)
next
  case False
  obtain blk where blk: "vsnprintf (p_str S) (p_used S) (p_len S - p_used S) out = Some blk"
      "length blk = p_len S + 1" "take (p_used S) blk = take (p_used S) (p_str S)"
    using vsnprintf_keeps_prefix [of "p_used S" "p_len S - p_used S" "p_str S"] assms
    by (auto simp: pstring_ok_def)
  define newlen where "newlen = p_len S + STRLEN + length out"
  define blk1 where "blk1 = mempool_resize junk blk (SIZE S) (newlen + 1)"
  let ?S = "S\<lparr>p_len := newlen, p_str := blk1\<rparr>"
  have len1: "length blk1 = newlen + 1"
    unfolding blk1_def using blk(2)
    by (intro mempool_resize_length) (simp_all add: SIZE_def newlen_def)
  have pre1: "take (p_used S) blk1 = take (p_used S) (p_str S)"
    unfolding blk1_def using blk(2,3) assms
    by (subst take_mempool_resize) (auto simp: newlen_def pstring_ok_def)
  have room: "p_used S + length out < newlen"
    using assms by (simp add: newlen_def STRLEN_def pstring_ok_def)
  obtain blk2 where blk2: "vsnprintf blk1 (p_used S) (newlen - p_used S) out = Some blk2"
      "length blk2 = newlen + 1"
      "take (p_used S + length out + 1) blk2 = take (p_used S) blk1 @ out @ [nul]"
    using vsnprintf_fits [of out "newlen - p_used S" "p_used S" blk1] room len1
    by (auto simp: less_diff_conv add.commute)
  have "append junk S out = append junk ?S out"
    using blk(1) False by (subst append.simps) (simp add: newlen_def blk1_def ac_simps)
  also have "\<dots> = Some (?S\<lparr>p_str := blk2, p_used := p_used S + length out\<rparr>)"
    using blk2(1) room by (subst append.simps) simp
  finally have "append junk S out = \<dots>" .
  moreover have "pstring_ok (?S\<lparr>p_str := blk2, p_used := p_used S + length out\<rparr>) \<and>
      contents (?S\<lparr>p_str := blk2, p_used := p_used S + length out\<rparr>) = contents S @ out"
    using blk2(2,3) pre1 room assms
    by (intro pstring_ok_updI) (auto simp: contents_def pstring_ok_def)
  ultimately show ?thesis by blast
qed

lemma zero_block_SIZE:
  "length (p_str S) = p_len S + 1 \<Longrightarrow> zero_block (p_str S) (SIZE S) = Some (replicate (SIZE S) nul)"
  by (simp add: zero_block_def mem_write_Some SIZE_def)

lemma p_string_assign_correct:
  assumes "pstring_ok S"
  shows "\<exists>S'. p_string_assign junk S s = Some S' \<and> pstring_ok S' \<and> contents S' = s"
proof -
  define S1 where "S1 = (if SIZE S < length s + 1
     then S\<lparr>p_used := 0, p_len := length s,
            p_str := mempool_resize junk (replicate (SIZE S) nul) (SIZE S) (length s + 1)\<rparr>
     else S\<lparr>p_used := 0, p_str := replicate (SIZE S) nul\<rparr>)"
  have len: "length (p_str S) = p_len S + 1"
    using assms by (simp add: pstring_ok_def)
  have len1: "length (p_str S1) = p_len S1 + 1" and room: "length s \<le> p_len S1"
    by (auto simp: S1_def SIZE_def mempool_resize_length)
  let ?blk = "s @ nul # replicate (p_len S1 - length s) nul"
  have "mem_write (replicate (SIZE S1) nul) 0 s = Some ?blk"
    using room by (simp add: mem_write_Some SIZE_def Suc_diff_le del: replicate_Suc) simp
  then have "p_string_assign junk S s = Some (S1\<lparr>p_str := ?blk, p_used := length s\<rparr>)"
    unfolding p_string_assign_def zero_block_SIZE [OF len] bind.bind_lunit Let_def
      S1_def [symmetric] zero_block_SIZE [OF len1]
    by simp
  moreover have "pstring_ok (S1\<lparr>p_str := ?blk, p_used := length s\<rparr>) \<and>
      contents (S1\<lparr>p_str := ?blk, p_used := length s\<rparr>) = s"
    using room by (intro pstring_ok_updI) (auto simp: SIZE_def)
  ultimately show ?thesis by blast
qed

lemma p_string_printf_correct:
  assumes "pstring_ok S"
  shows "\<exists>S'. p_string_printf junk S out = Some S' \<and> pstring_ok S' \<and> contents S' = out"
proof -
  let ?S = "S\<lparr>p_str := replicate (SIZE S) nul, p_used := 0\<rparr>"
  have ok: "pstring_ok ?S" "contents ?S = []"
    by (simp_all add: pstring_ok_def contents_def SIZE_def)
  have "p_string_printf junk S out = append junk ?S out"
    using assms by (simp add: p_string_printf_def zero_block_SIZE pstring_ok_def)
  with append_correct [OF ok(1), of junk out] ok(2) show ?thesis by simp
qed

lemma p_string_append_len_correct:
  assumes "pstring_ok S"
  shows "\<exists>S'. p_string_append_len junk S s = Some S' \<and> pstring_ok S' \<and> contents S' = contents S @ s"
proof -
  define S1 where "S1 = (if p_len S < p_used S + length s
     then S\<lparr>p_len := p_len S + length s,
            p_str := mempool_resize junk (p_str S) (SIZE S) (p_len S + length s + 1)\<rparr>
     else S)"
  have len1: "length (p_str S1) = p_len S1 + 1"
    using assms by (simp add: S1_def SIZE_def mempool_resize_length pstring_ok_def)
  have used1: "p_used S1 = p_used S" by (simp add: S1_def)
  have room: "p_used S + length s \<le> p_len S1"
    using assms by (auto simp: S1_def pstring_ok_def)
  have pre1: "take (p_used S) (p_str S1) = contents S"
    using assms by (simp add: S1_def contents_def take_mempool_resize pstring_ok_def)
  let ?blk = "take (p_used S) (p_str S1) @ s @ drop (p_used S + length s) (p_str S1)"
  let ?blk1 = "take (p_used S + length s) ?blk @ [nul] @ drop (p_used S + length s + 1) ?blk"
  have "p_string_append_len junk S s = Some (S1\<lparr>p_str := ?blk1, p_used := p_used S + length s\<rparr>)"
    using room len1 used1
    by (simp add: p_string_append_len_def Let_def S1_def [symmetric] mem_write_Some)
  moreover have "pstring_ok (S1\<lparr>p_str := ?blk1, p_used := p_used S + length s\<rparr>) \<and>
      contents (S1\<lparr>p_str := ?blk1, p_used := p_used S + length s\<rparr>) = contents S @ s"
    using room len1 pre1 assms
    by (intro pstring_ok_updI) (auto simp: min_def)
  ultimately show ?thesis by blast
qed

lemma p_string_truncate_correct:
  assumes "pstring_ok S"
  shows "\<exists>S'. p_string_truncate S l = Some S' \<and> pstring_ok S' \<and> contents S' = take l (contents S)"
proof (cases "p_used S \<le> l")
  case True
  with assms show ?thesis by (simp add: p_string_truncate_def)
next
  case False
  let ?blk = "take l (p_str S) @ [nul] @ drop (Suc l) (p_str S)"
  have "p_string_truncate S l = Some (S\<lparr>p_str := ?blk, p_used := l\<rparr>)"
    using False assms by (simp add: p_string_truncate_def mem_write_Some pstring_ok_def)
  moreover have "pstring_ok (S\<lparr>p_str := ?blk, p_used := l\<rparr>) \<and>
      contents (S\<lparr>p_str := ?blk, p_used := l\<rparr>) = take l (contents S)"
    using False assms
    by (intro pstring_ok_updI) (auto simp: contents_def pstring_ok_def min_def)
  ultimately show ?thesis by blast
qed

lemma p_string_erase_correct:
  assumes "pstring_ok S" "pos \<le> p_used S" "0 \<le> len" "pos + nat len \<le> p_used S"
  shows "\<exists>S'. p_string_erase S pos len = Some S' \<and> pstring_ok S' \<and>
           contents S' = take pos (contents S) @ drop (pos + nat len) (contents S)"
proof -
  define k where "k = nat len"
  define moved where "moved = take (p_used S - (pos + k)) (drop (pos + k) (p_str S))"
  define blk where "blk = take pos (p_str S) @ moved @ drop (pos + length moved) (p_str S)"
  let ?blk1 = "take (p_used S - k) blk @ [nul] @ drop (p_used S - k + 1) blk"
  have sz: "length (p_str S) = p_len S + 1" "p_used S \<le> p_len S" "pos + k \<le> p_used S"
    using assms by (simp_all add: pstring_ok_def k_def)
  have lm: "length moved = p_used S - (pos + k)"
    using sz by (simp add: moved_def)
  have lb: "length blk = p_len S + 1"
    using sz lm by (simp add: blk_def)
  have w: "mem_write (p_str S) pos moved = Some blk"
      "mem_write blk (p_used S - k) [nul] = Some ?blk1"
    using sz lm lb by (simp_all add: mem_write_Some) (simp add: blk_def)
  have "p_string_erase S pos len = Some (S\<lparr>p_str := ?blk1, p_used := p_used S - k\<rparr>)"
  proof (cases "pos + k < p_used S")
    case True
    then show ?thesis
      using assms(2-4) sz w
      by (simp add: p_string_erase_def k_def [symmetric] mem_read_Some moved_def [symmetric])
  next
    case False
    then have "blk = p_str S" using sz by (simp add: blk_def moved_def)
    then show ?thesis
      using False assms(2-4) sz w(2)
      by (simp add: p_string_erase_def k_def [symmetric])
  qed
  moreover have "pstring_ok (S\<lparr>p_str := ?blk1, p_used := p_used S - k\<rparr>) \<and>
      contents (S\<lparr>p_str := ?blk1, p_used := p_used S - k\<rparr>) =
        take pos (contents S) @ drop (pos + k) (contents S)"
  proof (intro pstring_ok_updI)
    have "length (take pos (p_str S) @ moved) = p_used S - k"
      using sz lm by simp
    then have "take (p_used S - k) blk = take pos (p_str S) @ moved"
      by (metis append_assoc append_eq_conv_conj blk_def)
    also have "\<dots> = take pos (contents S) @ drop (pos + k) (contents S)"
      using sz(3) by (simp add: moved_def contents_def drop_take min_absorb1)
    finally have "take (p_used S - k) blk = \<dots>" .
    moreover have "take (p_used S - k + 1) ?blk1 = take (p_used S - k) blk @ [nul]"
      using sz lb by simp
    ultimately show "take (p_used S - k + 1) ?blk1 =
        (take pos (contents S) @ drop (pos + k) (contents S)) @ [nul]"
      by (simp only:)
  qed (use sz lb assms(1) in auto)
  ultimately show ?thesis unfolding k_def by blast
qed

lemma p_string_erase_negative:
  assumes "pstring_ok S" "pos \<le> p_used S" "len < 0"
  shows "p_string_erase S pos len = p_string_erase S pos (int (p_used S - pos))"
  using assms by (simp add: p_string_erase_def del: of_nat_diff)

lemma p_string_erase_asserts:
  "p_used S < pos \<or> (0 \<le> len \<and> p_used S < pos + nat len) \<Longrightarrow> p_string_erase S pos len = None"
  by (auto simp: p_string_erase_def)

section \<open>Unescaping\<close>

text \<open>
  What \<open>p_string_unescape\<close> computes: a backslash in front of a double quote or a backslash is
  dropped, every other character is kept.
\<close>

fun unescape :: "string \<Rightarrow> string" where
  "unescape [] = []"
| "unescape [c] = [c]"
| "unescape (c # d # s) =
     (if c = CHR 0x5C \<and> (d = CHR 0x22 \<or> d = CHR 0x5C) then d # unescape s
      else c # unescape (d # s))"

lemma unescape_keep:
  "\<not> (c = CHR 0x5C \<and> (d = CHR 0x22 \<or> d = CHR 0x5C)) \<Longrightarrow>
     unescape (c # d # s) = c # unescape (d # s)"
  by auto

lemma length_unescape: "length (unescape s) \<le> length s"
  by (induction s rule: unescape.induct) auto

lemma set_unescape: "set (unescape s) \<subseteq> set s"
  by (induction s rule: unescape.induct) auto

lemma unescape_loop_end:
  "drop t blk = nul # rest \<Longrightarrow> unescape_loop blk h t f used = Some (blk[h := nul], used)"
  by (subst unescape_loop.simps) (auto simp: drop_eq_Cons_iff)

lemma unescape_loop_copy:
  assumes "drop t blk = c # d # rest" "c \<noteq> nul"
    and "f \<or> c \<noteq> CHR 0x5C \<or> (d \<noteq> CHR 0x22 \<and> d \<noteq> CHR 0x5C)"
  shows "unescape_loop blk h t f used = unescape_loop (blk[h := c]) (h + 1) (t + 1) False used"
  using assms by (subst unescape_loop.simps) (auto simp: drop_eq_Cons_iff)

lemma unescape_loop_escape:
  assumes "drop t blk = CHR 0x5C # d # rest" "d = CHR 0x22 \<or> d = CHR 0x5C"
  shows "unescape_loop blk h t False used = unescape_loop blk h (t + 1) True (used - 1)"
  using assms by (subst unescape_loop.simps) (auto simp: drop_eq_Cons_iff)

lemma take_Suc_update:
  "h < length blk \<Longrightarrow> take (Suc h) (blk[h := c]) = take h blk @ [c]"
  by (simp add: take_Suc_conv_app_nth)

lemma unescape_loop_correct:
  assumes "drop t blk = s @ nul # rest" "nul \<notin> set s" "h \<le> t" "length s \<le> used"
  shows "\<exists>blk'. unescape_loop blk h t False used =
                Some (blk', used - (length s - length (unescape s))) \<and>
           length blk' = length blk \<and>
           take (h + length (unescape s) + 1) blk' = take h blk @ unescape s @ [nul]"
  using assms
proof (induction s arbitrary: blk h t used rule: unescape.induct)
  case 1
  then show ?case
    by (auto simp: unescape_loop_end take_Suc_update drop_eq_Cons_iff)
next
  case (2 c)
  have h: "h < length blk" "drop (t + 1) (blk[h := c]) = nul # rest"
    using 2 by (auto simp: drop_eq_Cons_iff drop_update_cancel)
  then have "unescape_loop blk h t False used = Some ((blk[h := c])[h + 1 := nul], used)"
    using 2 by (simp add: unescape_loop_copy unescape_loop_end)
  moreover have "h + 1 < length blk"
    using h 2(3) by (auto simp: drop_eq_Cons_iff)
  ultimately show ?case
    using h take_Suc_update [of "Suc h" "blk[h := c]" nul] by (auto simp: take_Suc_update)
next
  case (3 c d s)
  show ?case
  proof (cases "c = CHR 0x5C \<and> (d = CHR 0x22 \<or> d = CHR 0x5C)")
    case True
    obtain e r where e: "s @ nul # rest = e # r" by (cases s) auto
    have "unescape_loop blk h t False used = unescape_loop blk h (t + 1) True (used - 1)"
      using 3(3) True by (intro unescape_loop_escape) auto
    also have "\<dots> = unescape_loop (blk[h := d]) (h + 1) (t + 2) False (used - 1)"
      using 3(3,4) e by (subst unescape_loop_copy [of _ _ d e r]) (auto simp: drop_eq_Cons_iff)
    finally have step: "unescape_loop blk h t False used = \<dots>" .
    have "drop (t + 2) (blk[h := d]) = s @ nul # rest"
      using 3(3,5) by (auto simp: drop_eq_Cons_iff drop_update_cancel)
    moreover have "length s \<le> used - 1" using 3(6) by simp
    moreover note 3(1) [OF True, of "t + 2" "blk[h := d]" "h + 1" "used - 1"]
    ultimately
    obtain blk' where "unescape_loop (blk[h := d]) (h + 1) (t + 2) False (used - 1) =
          Some (blk', used - 1 - (length s - length (unescape s)))"
        "length blk' = length blk"
        "take (h + 1 + length (unescape s) + 1) blk' =
           take (h + 1) (blk[h := d]) @ unescape s @ [nul]"
      using 3(4,5) by auto
    moreover have "h < length blk" using 3(3,5) by (auto simp: drop_eq_Cons_iff)
    moreover have "used - 1 - (length s - length (unescape s)) =
        used - (length (c # d # s) - length (unescape (c # d # s)))"
      using True length_unescape [of s] by simp
    ultimately show ?thesis
      using True step by (simp add: take_Suc_update)
  next
    case False
    have step: "unescape_loop blk h t False used =
        unescape_loop (blk[h := c]) (h + 1) (t + 1) False used"
      using 3(3,4) False by (intro unescape_loop_copy [of _ _ _ d "s @ nul # rest"]) auto
    have "drop (t + 1) (blk[h := c]) = (d # s) @ nul # rest"
      using 3(3,5) by (auto simp: drop_eq_Cons_iff drop_update_cancel)
    with 3(2) [OF False, of "t + 1" "blk[h := c]" "h + 1" used] 3(4-6)
    obtain blk' where "unescape_loop (blk[h := c]) (h + 1) (t + 1) False used =
          Some (blk', used - (length (d # s) - length (unescape (d # s))))"
        "length blk' = length blk"
        "take (h + 1 + length (unescape (d # s)) + 1) blk' =
           take (h + 1) (blk[h := c]) @ unescape (d # s) @ [nul]"
      by auto
    moreover have "h < length blk" using 3(3,5) by (auto simp: drop_eq_Cons_iff)
    ultimately show ?thesis
      using step unescape_keep [OF False] by (simp add: take_Suc_update del: unescape.simps)
  qed
qed

lemma p_string_unescape_correct:
  assumes "pstring_ok S" "nul \<notin> set (contents S)"
  shows "\<exists>S'. p_string_unescape S = Some S' \<and> pstring_ok S' \<and> contents S' = unescape (contents S)"
proof -
  have blk: "p_str S = contents S @ nul # drop (Suc (p_used S)) (p_str S)"
    using assms(1) id_take_nth_drop [of "p_used S" "p_str S"]
    by (simp add: pstring_ok_def contents_def)
  let ?n = "length (unescape (contents S))"
  have le: "?n \<le> p_used S"
    using length_unescape [of "contents S"] assms(1) by simp
  obtain blk' where *: "unescape_loop (p_str S) 0 0 False (p_used S) =
        Some (blk', p_used S - (length (contents S) - ?n))"
      "length blk' = length (p_str S)" "take (?n + 1) blk' = unescape (contents S) @ [nul]"
    using unescape_loop_correct [of 0 "p_str S" "contents S" "drop (Suc (p_used S)) (p_str S)" 0 "p_used S"]
      blk assms by auto
  have "p_used S - (length (contents S) - ?n) = ?n"
    using le assms(1) by simp
  then have "p_string_unescape S = Some (S\<lparr>p_str := blk', p_used := ?n\<rparr>)"
    using *(1) by (simp add: p_string_unescape_def)
  moreover have "pstring_ok (S\<lparr>p_str := blk', p_used := ?n\<rparr>) \<and>
      contents (S\<lparr>p_str := blk', p_used := ?n\<rparr>) = unescape (contents S)"
    using *(2,3) le assms(1) by (intro pstring_ok_updI) (auto simp: pstring_ok_def)
  ultimately show ?thesis by blast
qed

section \<open>Trimming\<close>

lemma p_ltrim_eq: "p_ltrim s seps = dropWhile (\<lambda>c. c \<in> set (case seps of None \<Rightarrow> trim_seps | Some x \<Rightarrow> x)) s"
  by (auto simp: p_ltrim_def strspn_def Let_def dropWhile_eq_drop)

lemma rtrim_loop_eq:
  "n \<le> length s \<Longrightarrow> rtrim_loop s sp n = rev (dropWhile (\<lambda>c. c \<in> set sp) (rev (take n s)))"
  by (induction n) (simp_all add: take_Suc_conv_app_nth)

lemma p_rtrim_eq:
  "p_rtrim s seps = rev (dropWhile (\<lambda>c. c \<in> set (case seps of None \<Rightarrow> trim_seps | Some x \<Rightarrow> x)) (rev s))"
  by (simp add: p_rtrim_def rtrim_loop_eq)

section \<open>String buffers as an interface\<close>

text \<open>
  What the clients of a growable string rely on. \<open>append_all\<close> is the loop of a client that
  appends one piece after the other.
\<close>

fun append_all :: "('s \<Rightarrow> 'p \<Rightarrow> 's option) \<Rightarrow> 's \<Rightarrow> 'p list \<Rightarrow> 's option" where
  "append_all app S [] = Some S"
| "append_all app S (x # xs) = do { S' \<leftarrow> app S x; append_all app S' xs }"

locale string_buffer =
  fixes invar :: "'s \<Rightarrow> bool"
    and content :: "'s \<Rightarrow> string"
    and create :: "string \<Rightarrow> 's option"
    and app :: "'s \<Rightarrow> string \<Rightarrow> 's option"
    and trunc :: "'s \<Rightarrow> nat \<Rightarrow> 's option"
  assumes create_law: "\<exists>S. create s = Some S \<and> invar S \<and> content S = s"
    and app_law: "invar S \<Longrightarrow> \<exists>S'. app S s = Some S' \<and> invar S' \<and> content S' = content S @ s"
    and trunc_law: "invar S \<Longrightarrow> \<exists>S'. trunc S n = Some S' \<and> invar S' \<and> content S' = take n (content S)"
begin

lemma append_all_law:
  "invar S \<Longrightarrow>
     \<exists>S'. append_all app S ss = Some S' \<and> invar S' \<and> content S' = content S @ concat ss"
proof (induction ss arbitrary: S)
  case Nil
  then show ?case by simp
next
  case (Cons s ss)
  obtain S1 where S1: "app S s = Some S1" "invar S1" "content S1 = content S @ s"
    using app_law [OF Cons.prems] by blast
  with Cons.IH [OF S1(2)] show ?case by auto
qed

lemma build_law:
  "\<exists>S S'. create s = Some S \<and> append_all app S ss = Some S' \<and> invar S' \<and>
     content S' = s @ concat ss"
  using create_law [of s] append_all_law by fastforce

lemma append_then_truncate:
  assumes "invar S"
  shows "\<exists>S' S''. app S s = Some S' \<and> trunc S' (length (content S)) = Some S'' \<and>
           invar S'' \<and> content S'' = content S"
proof -
  obtain S' where S': "app S s = Some S'" "invar S'" "content S' = content S @ s"
    using app_law [OF assms] by blast
  with trunc_law [OF S'(2), of "length (content S)"] show ?thesis by auto
qed

end

interpretation pbuf: string_buffer pstring_ok contents p_string_new
    "p_string_append_len junk" p_string_truncate for junk
  by unfold_locales
    (rule p_string_new_correct, erule p_string_append_len_correct, erule p_string_truncate_correct)

interpretation pfmt: string_buffer pstring_ok contents p_string_new
    "p_string_append_printf junk" p_string_truncate for junk
  by unfold_locales
    (rule p_string_new_correct, unfold p_string_append_printf_def, erule append_correct,
      erule p_string_truncate_correct)

section \<open>Properties\<close>

text \<open>
  C6: every operation of \<open>dm_string.c\<close> that changes a string, applied to a well-formed one,
  stays inside the block (the result is never \<open>None\<close>; in particular the grow-and-retry loop of
  \<open>append\<close> ends), leaves the string well formed and NUL-terminated, and changes its contents
  the way the list operation of the same name does.
\<close>

theorem p_string_operations_refine_lists:
  assumes "pstring_ok S" "nul \<notin> set (contents S)"
    and "pos \<le> p_used S" "0 \<le> len" "pos + nat len \<le> p_used S"
  shows "(\<exists>S'. p_string_assign junk S s = Some S' \<and> pstring_ok S' \<and> contents S' = s) \<and>
         (\<exists>S'. p_string_printf junk S s = Some S' \<and> pstring_ok S' \<and> contents S' = s) \<and>
         (\<exists>S'. p_string_append_printf junk S s = Some S' \<and> pstring_ok S' \<and> contents S' = contents S @ s) \<and>
         (\<exists>S'. p_string_append_vprintf junk S s = Some S' \<and> pstring_ok S' \<and> contents S' = contents S @ s) \<and>
         (\<exists>S'. p_string_append_len junk S s = Some S' \<and> pstring_ok S' \<and> contents S' = contents S @ s) \<and>
         (\<exists>S'. p_string_truncate S n = Some S' \<and> pstring_ok S' \<and> contents S' = take n (contents S)) \<and>
         (\<exists>S'. p_string_erase S pos len = Some S' \<and> pstring_ok S' \<and>
           contents S' = take pos (contents S) @ drop (pos + nat len) (contents S)) \<and>
         (\<exists>S'. p_string_unescape S = Some S' \<and> pstring_ok S' \<and> contents S' = unescape (contents S))"
  using assms
  by (intro conjI)
    (simp_all add: p_string_assign_correct p_string_printf_correct p_string_append_printf_def
      p_string_append_vprintf_def append_correct p_string_append_len_correct
      p_string_truncate_correct p_string_erase_correct p_string_unescape_correct)

theorem p_string_operations_refine_lists_witness:
  "pstring_ok \<lparr>p_str = [CHR ''a'', CHR 0x5C, CHR 0x22, nul], p_len = 3, p_used = 3\<rparr> \<and>
   (\<exists>S'. p_string_append_len (\<lambda>_. CHR ''z'')
           \<lparr>p_str = [CHR ''a'', CHR 0x5C, CHR 0x22, nul], p_len = 3, p_used = 3\<rparr> ''xy'' = Some S' \<and>
         pstring_ok S' \<and> contents S' = [CHR ''a'', CHR 0x5C, CHR 0x22, CHR ''x'', CHR ''y'']) \<and>
   (\<exists>S'. p_string_unescape
           \<lparr>p_str = [CHR ''a'', CHR 0x5C, CHR 0x22, nul], p_len = 3, p_used = 3\<rparr> = Some S' \<and>
         pstring_ok S' \<and> contents S' = [CHR ''a'', CHR 0x22])"
  using p_string_operations_refine_lists
    [of "\<lparr>p_str = [CHR ''a'', CHR 0x5C, CHR 0x22, nul], p_len = 3, p_used = 3\<rparr>" 1 1
      "\<lambda>_. CHR ''z''" "''xy''" 2]
  by (simp add: pstring_ok_def contents_def)

end
