(* ===== verification/PList.thy ===== *)
theory PList
  imports CString
begin

text \<open>
  The lists of \<open>src/src/dm_list.c\<close>. \<open>List_T\<close> is a doubly linked list in a store of nodes; the
  operations follow the pointers and a read through a null or dangling pointer is \<open>None\<close>.
  They are shown to refine the operations on the sequence of the nodes' data. The second half
  models the \<open>GList\<close> helpers of the same file on lists of their data.
\<close>

section \<open>Nodes and operations\<close>

type_synonym addr = nat

record 'a node =
  prev :: "addr option"
  nxt :: "addr option"
  data :: "'a option"

type_synonym 'a store = "addr \<Rightarrow> 'a node option"

text \<open>
  The pool returns a zeroed node at an address that is not in use; the address is an argument.
\<close>

definition alloc_list :: "'a store \<Rightarrow> addr \<Rightarrow> 'a store" where
  "alloc_list h new = h(new \<mapsto> \<lparr>prev = None, nxt = None, data = None\<rparr>)"

definition p_list_new :: "'a store \<Rightarrow> addr \<Rightarrow> 'a store \<times> addr" where
  "p_list_new h new = (alloc_list h new, new)"

definition ISEMPTY :: "'a node \<Rightarrow> bool" where
  "ISEMPTY l \<longleftrightarrow> nxt l = None \<and> prev l = None \<and> data l = None"

partial_function (option) p_list_last :: "'a store \<Rightarrow> addr \<Rightarrow> addr option" where
  "p_list_last h L =
     do {
       n \<leftarrow> h L;
       (case nxt n of None \<Rightarrow> Some L | Some l \<Rightarrow> p_list_last h l)
     }"

partial_function (option) p_list_first :: "'a store \<Rightarrow> addr \<Rightarrow> addr option" where
  "p_list_first h L =
     do {
       n \<leftarrow> h L;
       (case prev n of None \<Rightarrow> Some L | Some l \<Rightarrow> p_list_first h l)
     }"

definition upd_node :: "'a store \<Rightarrow> addr \<Rightarrow> ('a node \<Rightarrow> 'a node) \<Rightarrow> 'a store option" where
  "upd_node h a f = map_option (\<lambda>n. h(a \<mapsto> f n)) (h a)"

definition p_list_append :: "'a store \<Rightarrow> addr \<Rightarrow> addr \<Rightarrow> 'a option \<Rightarrow> ('a store \<times> addr) option" where
  "p_list_append h new L d =
     do {
       n \<leftarrow> h L;
       if ISEMPTY n
       then do { h1 \<leftarrow> upd_node h L (\<lambda>n. n\<lparr>data := d\<rparr>); Some (h1, L) }
       else do {
              l \<leftarrow> p_list_last h L;
              h1 \<leftarrow> upd_node (alloc_list h new) new (\<lambda>n. n\<lparr>data := d, prev := Some l\<rparr>);
              h2 \<leftarrow> upd_node h1 l (\<lambda>n. n\<lparr>nxt := Some new\<rparr>);
              Some (h2, new)
            }
     }"

definition p_list_prepend :: "'a store \<Rightarrow> addr \<Rightarrow> addr \<Rightarrow> 'a option \<Rightarrow> ('a store \<times> addr) option" where
  "p_list_prepend h new L d =
     do {
       n \<leftarrow> h L;
       if ISEMPTY n
       then do { h1 \<leftarrow> upd_node h L (\<lambda>n. n\<lparr>data := d\<rparr>); Some (h1, L) }
       else do {
              l \<leftarrow> p_list_first h L;
              h1 \<leftarrow> upd_node (alloc_list h new) new (\<lambda>n. n\<lparr>data := d, nxt := Some l\<rparr>);
              h2 \<leftarrow> upd_node h1 l (\<lambda>n. n\<lparr>prev := Some new\<rparr>);
              Some (h2, new)
            }
     }"

definition p_list_previous :: "'a store \<Rightarrow> addr \<Rightarrow> addr option option" where
  "p_list_previous h L = map_option prev (h L)"

definition p_list_next :: "'a store \<Rightarrow> addr \<Rightarrow> addr option option" where
  "p_list_next h L = map_option nxt (h L)"

definition p_list_data :: "'a store \<Rightarrow> addr \<Rightarrow> 'a option option" where
  "p_list_data h L = map_option data (h L)"

partial_function (option) length_loop :: "'a store \<Rightarrow> addr option \<Rightarrow> nat \<Rightarrow> nat option" where
  "length_loop h L len =
     (case L of
        None \<Rightarrow> Some len
      | Some l \<Rightarrow> do { n \<leftarrow> h l; length_loop h (nxt n) (len + 1) })"

definition p_list_length :: "'a store \<Rightarrow> addr \<Rightarrow> nat option" where
  "p_list_length h L = do { n \<leftarrow> h L; if ISEMPTY n then Some 0 else length_loop h (Some L) 0 }"

partial_function (option) free_loop :: "'a store \<Rightarrow> addr option \<Rightarrow> 'a store option" where
  "free_loop h L =
     (case L of
        None \<Rightarrow> Some h
      | Some l \<Rightarrow> do { n \<leftarrow> h l; free_loop (h(l := None)) (nxt n) })"

definition p_list_free :: "'a store \<Rightarrow> addr \<Rightarrow> 'a store option" where
  "p_list_free h L = do { n \<leftarrow> h L; free_loop h (Some L) }"

text \<open>The links of \<open>E\<close> are read again after each assignment, as in the source.\<close>

definition p_list_remove ::
  "'a store \<Rightarrow> addr \<Rightarrow> addr option \<Rightarrow> ('a store \<times> addr option) option" where
  "p_list_remove h L E =
     (case E of
        None \<Rightarrow> Some (h, Some L)
      | Some e \<Rightarrow>
          do {
            f \<leftarrow> p_list_first h L;
            n \<leftarrow> h e;
            h1 \<leftarrow> (case prev n of None \<Rightarrow> Some h | Some p \<Rightarrow> upd_node h p (\<lambda>m. m\<lparr>nxt := nxt n\<rparr>));
            n1 \<leftarrow> h1 e;
            h2 \<leftarrow> (case nxt n1 of None \<Rightarrow> Some h1 | Some q \<Rightarrow> upd_node h1 q (\<lambda>m. m\<lparr>prev := prev n1\<rparr>));
            n2 \<leftarrow> h2 e;
            let r = (if f = e then nxt n2 else Some f);
            h3 \<leftarrow> upd_node h2 e (\<lambda>m. m\<lparr>nxt := None, prev := None\<rparr>);
            Some (h3, r)
          })"

section \<open>Lists in the store\<close>

definition hd_or :: "addr list \<Rightarrow> addr option \<Rightarrow> addr option" where
  "hd_or as q = (case as of [] \<Rightarrow> q | a # _ \<Rightarrow> Some a)"

definition last_or :: "addr list \<Rightarrow> addr option \<Rightarrow> addr option" where
  "last_or as p = (if as = [] then p else Some (last as))"

lemma hd_or_simps [simp]: "hd_or [] q = q" "hd_or (a # as) q = Some a"
  by (simp_all add: hd_or_def)

lemma hd_or_append [simp]: "hd_or (as @ bs) q = hd_or as (hd_or bs q)"
  by (cases as) simp_all

lemma last_or_simps [simp]: "last_or [] p = p" "last_or (a # as) p = last_or as (Some a)"
    "last_or (as @ [a]) p = Some a"
  by (simp_all add: last_or_def)

text \<open>
  \<open>dseg h p as xs q\<close>: the nodes \<open>as\<close> hold the data \<open>xs\<close> and are linked to each other, to \<open>p\<close>
  before the first and to \<open>q\<close> after the last.
\<close>

fun dseg :: "'a store \<Rightarrow> addr option \<Rightarrow> addr list \<Rightarrow> 'a option list \<Rightarrow> addr option \<Rightarrow> bool" where
  "dseg h p [] [] q = True"
| "dseg h p (a # as) (x # xs) q \<longleftrightarrow>
     h a = Some \<lparr>prev = p, nxt = hd_or as q, data = x\<rparr> \<and> dseg h (Some a) as xs q"
| "dseg h p _ _ q = False"

definition dll :: "'a store \<Rightarrow> addr list \<Rightarrow> 'a option list \<Rightarrow> bool" where
  "dll h as xs \<longleftrightarrow> as \<noteq> [] \<and> distinct as \<and> dseg h None as xs None"

lemma dseg_length: "dseg h p as xs q \<Longrightarrow> length as = length xs"
  by (induction h p as xs q rule: dseg.induct) auto

lemma dseg_dom: "dseg h p as xs q \<Longrightarrow> set as \<subseteq> dom h"
  by (induction h p as xs q rule: dseg.induct) auto

lemma dseg_append:
  "length as = length xs \<Longrightarrow>
     dseg h p (as @ bs) (xs @ ys) q \<longleftrightarrow> dseg h p as xs (hd_or bs q) \<and> dseg h (last_or as p) bs ys q"
  by (induction as xs arbitrary: p rule: list_induct2) auto

lemma dseg_frame: "(\<And>a. a \<in> set as \<Longrightarrow> h' a = h a) \<Longrightarrow> dseg h' p as xs q = dseg h p as xs q"
  by (induction h p as xs q rule: dseg.induct) auto

lemma dseg_upd [simp]: "a \<notin> set as \<Longrightarrow> dseg (h(a := v)) p as xs q = dseg h p as xs q"
  by (rule dseg_frame) auto

text \<open>A node of a list, with the segments on its two sides.\<close>

lemma dll_split:
  assumes "dll h as xs" "L \<in> set as"
  obtains bs cs ys z zs where "as = bs @ L # cs" "xs = ys @ z # zs"
    "length bs = length ys" "length cs = length zs"
    "dseg h None bs ys (Some L)" "dseg h (Some L) cs zs None"
    "h L = Some \<lparr>prev = last_or bs None, nxt = hd_or cs None, data = z\<rparr>"
    "L \<notin> set bs" "L \<notin> set cs" "set bs \<inter> set cs = {}" "distinct bs" "distinct cs"
proof -
  obtain bs cs where as: "as = bs @ L # cs" using assms(2) by (meson split_list)
  have "length xs = length bs + Suc (length cs)"
    using assms(1) dseg_length as by (fastforce simp: dll_def)
  moreover define ys z zs where
    "ys = take (length bs) xs" and "z = xs ! length bs" and "zs = drop (Suc (length bs)) xs"
  ultimately have xs: "xs = ys @ z # zs" "length bs = length ys" "length cs = length zs"
    using id_take_nth_drop [of "length bs" xs] by simp_all
  have "dseg h None bs ys (Some L)" "dseg h (Some L) cs zs None"
    "h L = Some \<lparr>prev = last_or bs None, nxt = hd_or cs None, data = z\<rparr>"
    using assms(1) unfolding dll_def as xs(1) by (simp_all add: dseg_append xs)
  then show ?thesis
    using that [OF as xs] assms(1) as by (simp add: dll_def)
qed

lemma dll_dom: "dll h as xs \<Longrightarrow> a \<in> set as \<Longrightarrow> \<exists>n. h a = Some n"
  using dseg_dom by (metis dll_def domD subsetD)

lemma dll_fresh: "dll h as xs \<Longrightarrow> h a = None \<Longrightarrow> a \<notin> set as"
  using dll_dom by fastforce

section \<open>The loops reach the ends\<close>

lemma p_list_last_seg:
  "dseg h p (a # as) xs None \<Longrightarrow> p_list_last h a = Some (last (a # as))"
proof (induction as arbitrary: p a xs)
  case Nil
  then show ?case by (cases xs) (auto simp: p_list_last.simps [of _ a])
next
  case (Cons b as)
  then show ?case by (cases xs) (auto simp: p_list_last.simps [of _ a])
qed

lemma p_list_first_seg:
  "dseg h None (as @ [a]) xs q \<Longrightarrow> p_list_first h a = Some (hd (as @ [a]))"
proof (induction as arbitrary: a xs q rule: rev_induct)
  case Nil
  then show ?case by (cases xs) (auto simp: p_list_first.simps [of _ a])
next
  case (snoc b as)
  have len: "length xs = length as + 2" using snoc.prems dseg_length by fastforce
  then obtain zs z where z: "xs = zs @ [z]" "length zs = Suc (length as)"
    by (auto simp: length_Suc_conv_rev)
  then obtain ys y where xs: "xs = ys @ [y] @ [z]" "length ys = length as"
    by (auto simp: length_Suc_conv_rev)
  have "dseg h None (as @ [b]) (ys @ [y]) (Some a)" "h a = Some \<lparr>prev = Some b, nxt = q, data = z\<rparr>"
    using snoc.prems xs dseg_append [of "as @ [b]" "ys @ [y]" h None "[a]" "[z]" q] by simp_all
  with snoc.IH show ?case
    by (subst p_list_first.simps) (auto simp: hd_append)
qed

lemma p_list_last_dll:
  assumes "dll h as xs" "L \<in> set as"
  shows "p_list_last h L = Some (last as)"
proof -
  obtain bs cs ys z zs where *: "as = bs @ L # cs" "length cs = length zs"
      "dseg h (Some L) cs zs None" "h L = Some \<lparr>prev = last_or bs None, nxt = hd_or cs None, data = z\<rparr>"
    by (rule dll_split [OF assms]) blast
  then have "dseg h (last_or bs None) (L # cs) (z # zs) None" by simp
  then show ?thesis using p_list_last_seg *(1) by fastforce
qed

lemma p_list_first_dll:
  assumes "dll h as xs" "L \<in> set as"
  shows "p_list_first h L = Some (hd as)"
proof -
  obtain bs cs ys z zs where *: "as = bs @ L # cs" "length bs = length ys"
      "dseg h None bs ys (Some L)" "h L = Some \<lparr>prev = last_or bs None, nxt = hd_or cs None, data = z\<rparr>"
    by (rule dll_split [OF assms]) blast
  then have "dseg h None (bs @ [L]) (ys @ [z]) (hd_or cs None)" by (simp add: dseg_append)
  then show ?thesis using p_list_first_seg *(1) by (cases bs) fastforce+
qed

lemma length_loop_seg:
  "dseg h p as xs None \<Longrightarrow> length_loop h (hd_or as None) n = Some (n + length xs)"
proof (induction as arbitrary: p xs n)
  case Nil
  then show ?case by (cases xs) (simp_all add: length_loop.simps)
next
  case (Cons a as)
  then show ?case by (cases xs) (auto simp: length_loop.simps [of _ "Some a"])
qed

text \<open>The only node that counts as an empty list: unlinked and without data.\<close>

lemma ISEMPTY_dll:
  assumes "dll h as xs" "h L = Some n" "L \<in> set as"
  shows "ISEMPTY n \<longleftrightarrow> xs = [None]"
proof -
  obtain bs cs ys z zs where *: "as = bs @ L # cs" "xs = ys @ z # zs"
      "length bs = length ys" "length cs = length zs"
      "h L = Some \<lparr>prev = last_or bs None, nxt = hd_or cs None, data = z\<rparr>"
    by (rule dll_split [OF assms(1,3)]) blast
  show ?thesis
    using * assms(2) by (cases bs; cases cs; cases ys; cases zs) (auto simp: ISEMPTY_def last_or_def)
qed

section \<open>Appending and prepending\<close>

lemma p_list_append_empty:
  assumes "dll h [L] [None]"
  shows "\<exists>h'. p_list_append h new L d = Some (h', L) \<and> dll h' [L] [d] \<and> (\<forall>a. a \<noteq> L \<longrightarrow> h' a = h a)"
  using assms by (auto simp: p_list_append_def dll_def ISEMPTY_def upd_node_def)

lemma p_list_prepend_empty:
  assumes "dll h [L] [None]"
  shows "\<exists>h'. p_list_prepend h new L d = Some (h', L) \<and> dll h' [L] [d] \<and> (\<forall>a. a \<noteq> L \<longrightarrow> h' a = h a)"
  using assms by (auto simp: p_list_prepend_def dll_def ISEMPTY_def upd_node_def)

lemma p_list_append_dll:
  assumes "dll h as xs" "L \<in> set as" "h new = None" "xs \<noteq> [None]"
  shows "\<exists>h'. p_list_append h new L d = Some (h', new) \<and> dll h' (as @ [new]) (xs @ [d]) \<and>
           (\<forall>a. a \<notin> set as \<union> {new} \<longrightarrow> h' a = h a)"
proof -
  obtain n where n: "h L = Some n" "\<not> ISEMPTY n"
    using dll_dom [OF assms(1,2)] ISEMPTY_dll [OF assms(1) _ assms(2)] assms(4) by auto
  obtain bs l where as: "as = bs @ [l]" using assms(1) by (metis dll_def rev_exhaust)
  have fresh: "new \<notin> set as"
    using dll_fresh [OF assms(1,3)] .
  have "length xs = Suc (length bs)"
    using assms(1) dseg_length [of h None as xs None] by (simp add: dll_def as)
  then obtain ys z where l: "xs = ys @ [z]" "length bs = length ys"
    by (auto simp: length_Suc_conv_rev)
  have seg: "dseg h None bs ys (Some l)" "l \<notin> set bs"
      "h l = Some \<lparr>prev = last_or bs None, nxt = None, data = z\<rparr>"
    using assms(1) by (simp_all add: dll_def as l dseg_append)
  let ?h = "h(new \<mapsto> \<lparr>prev = Some l, nxt = None, data = d\<rparr>,
              l \<mapsto> \<lparr>prev = last_or bs None, nxt = Some new, data = z\<rparr>)"
  have "p_list_append h new L d = Some (?h, new)"
    using n l seg fresh p_list_last_dll [OF assms(1,2)]
    by (simp add: p_list_append_def upd_node_def alloc_list_def as)
  moreover have "dll ?h (as @ [new]) (xs @ [d])"
    using assms(1) l seg fresh by (simp add: dll_def as dseg_append)
  ultimately show ?thesis using as by auto
qed

lemma p_list_prepend_dll:
  assumes "dll h as xs" "L \<in> set as" "h new = None" "xs \<noteq> [None]"
  shows "\<exists>h'. p_list_prepend h new L d = Some (h', new) \<and> dll h' (new # as) (d # xs) \<and>
           (\<forall>a. a \<notin> set as \<union> {new} \<longrightarrow> h' a = h a)"
proof -
  obtain n where n: "h L = Some n" "\<not> ISEMPTY n"
    using dll_dom [OF assms(1,2)] ISEMPTY_dll [OF assms(1) _ assms(2)] assms(4) by auto
  obtain l cs where as: "as = l # cs" using assms(1) by (metis dll_def list.exhaust)
  have fresh: "new \<notin> set as"
    using dll_fresh [OF assms(1,3)] .
  obtain z zs where xs: "xs = z # zs" using assms(1) as by (cases xs) (auto simp: dll_def)
  let ?h = "h(new \<mapsto> \<lparr>prev = None, nxt = Some l, data = d\<rparr>,
              l \<mapsto> \<lparr>prev = Some new, nxt = hd_or cs None, data = z\<rparr>)"
  have "p_list_prepend h new L d = Some (?h, new)"
    using n assms(1) xs fresh p_list_first_dll [OF assms(1,2)]
    by (simp add: p_list_prepend_def upd_node_def alloc_list_def as dll_def)
  moreover have "dll ?h (new # as) (d # xs)"
    using assms(1) fresh by (simp add: dll_def as xs)
  ultimately show ?thesis using as by auto
qed

section \<open>Removing a node\<close>

text \<open>Relinking the end of a segment on the left of the node, or its start on the right.\<close>

lemma relink_left:
  assumes "dseg h None bs ys q" "distinct bs"
  shows "\<exists>h1. (case last_or bs None of None \<Rightarrow> Some h
                | Some b \<Rightarrow> upd_node h b (\<lambda>m. m\<lparr>nxt := q'\<rparr>)) = Some h1 \<and>
           dseg h1 None bs ys q' \<and> (\<forall>a. a \<notin> set bs \<longrightarrow> h1 a = h a)"
proof (cases bs rule: rev_cases)
  case Nil
  then show ?thesis using assms by (cases ys) auto
next
  case (snoc bs' b)
  have "length ys = Suc (length bs')"
    using dseg_length [OF assms(1)] snoc by simp
  then obtain ys' y where ys: "ys = ys' @ [y]" "length bs' = length ys'"
    by (auto simp: length_Suc_conv_rev)
  then have "h b = Some \<lparr>prev = last_or bs' None, nxt = q, data = y\<rparr>" "dseg h None bs' ys' (Some b)"
    using assms(1) snoc by (simp_all add: dseg_append)
  then show ?thesis
    using snoc ys assms(2) by (auto simp: upd_node_def dseg_append)
qed

lemma relink_right:
  assumes "dseg h p cs zs None" "distinct cs"
  shows "\<exists>h1. (case hd_or cs None of None \<Rightarrow> Some h
                | Some c \<Rightarrow> upd_node h c (\<lambda>m. m\<lparr>prev := p'\<rparr>)) = Some h1 \<and>
           dseg h1 p' cs zs None \<and> (\<forall>a. a \<notin> set cs \<longrightarrow> h1 a = h a)"
  using assms by (cases cs; cases zs) (auto simp: upd_node_def)

lemma p_list_remove_dll:
  assumes "dll h (bs @ e # cs) (ys @ z # zs)" "length bs = length ys" "L \<in> set (bs @ e # cs)"
  shows "\<exists>h'. p_list_remove h L (Some e) = Some (h', hd_or (bs @ cs) None) \<and>
           dseg h' None (bs @ cs) (ys @ zs) None \<and>
           h' e = Some \<lparr>prev = None, nxt = None, data = z\<rparr> \<and>
           (\<forall>a. a \<notin> set (bs @ e # cs) \<longrightarrow> h' a = h a)"
proof -
  have seg: "dseg h None bs ys (Some e)" "dseg h (Some e) cs zs None"
      "h e = Some \<lparr>prev = last_or bs None, nxt = hd_or cs None, data = z\<rparr>"
    and d: "distinct bs" "distinct cs" "e \<notin> set bs" "e \<notin> set cs" "set bs \<inter> set cs = {}"
    using assms(1,2) by (auto simp: dll_def dseg_append)
  have first: "p_list_first h L = Some (hd (bs @ e # cs))"
    by (rule p_list_first_dll [OF assms(1,3)])
  obtain h1 where h1: "(case last_or bs None of None \<Rightarrow> Some h
        | Some b \<Rightarrow> upd_node h b (\<lambda>m. m\<lparr>nxt := hd_or cs None\<rparr>)) = Some h1"
      "dseg h1 None bs ys (hd_or cs None)" "\<forall>a. a \<notin> set bs \<longrightarrow> h1 a = h a"
    using relink_left [OF seg(1) d(1)] by blast
  have e1: "h1 e = h e" using h1(3) d(3) by blast
  have seg1: "dseg h1 (Some e) cs zs None"
    using seg(2) h1(3) d(5) by (subst dseg_frame [of cs h1 h]) auto
  obtain h2 where h2: "(case hd_or cs None of None \<Rightarrow> Some h1
        | Some c \<Rightarrow> upd_node h1 c (\<lambda>m. m\<lparr>prev := last_or bs None\<rparr>)) = Some h2"
      "dseg h2 (last_or bs None) cs zs None" "\<forall>a. a \<notin> set cs \<longrightarrow> h2 a = h1 a"
    using relink_right [OF seg1 d(2)] by blast
  have e2: "h2 e = h e" using h2(3) d(4) e1 by simp
  have left: "dseg h2 None bs ys (hd_or cs None)"
    using h1(2) h2(3) d(5) by (subst dseg_frame [of bs h2 h1]) auto
  let ?h = "h2(e \<mapsto> \<lparr>prev = None, nxt = None, data = z\<rparr>)"
  have "p_list_remove h L (Some e) =
      Some (?h, if hd (bs @ e # cs) = e then hd_or cs None else Some (hd (bs @ e # cs)))"
    using first seg(3) h1(1) h2(1) e1 e2 by (simp add: p_list_remove_def upd_node_def cong: option.case_cong)
  moreover have "(if hd (bs @ e # cs) = e then hd_or cs None else Some (hd (bs @ e # cs))) =
      hd_or (bs @ cs) None"
    using d(3) by (cases bs) auto
  moreover have "dseg ?h None (bs @ cs) (ys @ zs) None"
    using left h2(2) d(3,4) assms(2) by (simp add: dseg_append)
  ultimately show ?thesis
    using h1(3) h2(3) by auto
qed

section \<open>Length and release\<close>

lemma p_list_length_dll:
  assumes "dll h (bs @ L # cs) (ys @ z # zs)" "length bs = length ys"
  shows "p_list_length h L =
           Some (if ys @ z # zs = [None] then 0 else length (z # zs))"
proof -
  have seg: "dseg h (last_or bs None) (L # cs) (z # zs) None"
    using assms by (simp add: dll_def dseg_append)
  then obtain n where n: "h L = Some n" by auto
  with ISEMPTY_dll [OF assms(1) n] length_loop_seg [OF seg, of 0] show ?thesis
    by (simp add: p_list_length_def)
qed

lemma free_loop_seg:
  "dseg h p as xs None \<Longrightarrow> distinct as \<Longrightarrow>
     free_loop h (hd_or as None) = Some (\<lambda>a. if a \<in> set as then None else h a)"
proof (induction as arbitrary: h p xs)
  case Nil
  then show ?case by (simp add: free_loop.simps)
next
  case (Cons a as)
  then obtain x xs' where xs: "xs = x # xs'" by (cases xs) auto
  have "dseg h (Some a) as xs' None" "a \<notin> set as" "distinct as"
    using Cons.prems by (simp_all add: xs)
  then have "dseg (h(a := None)) (Some a) as xs' None" "distinct as"
    by (simp_all only: dseg_upd not_False_eq_True)
  then have "free_loop (h(a := None)) (hd_or as None) =
      Some (\<lambda>b. if b \<in> set as then None else (h(a := None)) b)"
    by (rule Cons.IH)
  moreover have "(\<lambda>b. if b \<in> set as then None else (h(a := None)) b) =
      (\<lambda>b. if b \<in> set (a # as) then None else h b)"
    by (auto simp: fun_eq_iff)
  ultimately show ?case
    using Cons.prems by (simp add: free_loop.simps [of _ "Some a"] xs)
qed

lemma p_list_free_dll:
  assumes "dll h as xs"
  shows "p_list_free h (hd as) = Some (\<lambda>a. if a \<in> set as then None else h a)"
proof -
  have "hd_or as None = Some (hd as)" "hd as \<in> set as"
    using assms by (cases as; simp add: dll_def)+
  moreover from this obtain n where "h (hd as) = Some n" using dll_dom [OF assms] by blast
  ultimately show ?thesis
    using free_loop_seg [of h None as xs] assms by (simp add: p_list_free_def dll_def)
qed

section \<open>Properties\<close>

text \<open>
  C7: the operations of \<open>List_T\<close> on a non-empty list in the store, called with any of its nodes.
  Appending and prepending (with an unused node from the pool) extend the sequence at its end
  and its front, removing \<open>e\<close> unlinks that node alone and returns the head of what remains,
  and the length counts the nodes from the given one on. All loops end, no dangling pointer
  is followed, and no node outside the list changes.
\<close>

theorem p_list_operations_refine_lists:
  assumes "dll h (bs @ e # cs) (ys @ z # zs)" "length bs = length ys"
    and "L \<in> set (bs @ e # cs)" "h new = None" "ys @ z # zs \<noteq> [None]"
  shows "(\<exists>h'. p_list_append h new L d = Some (h', new) \<and>
            dll h' ((bs @ e # cs) @ [new]) ((ys @ z # zs) @ [d]) \<and>
            (\<forall>a. a \<notin> set (bs @ e # cs) \<union> {new} \<longrightarrow> h' a = h a)) \<and>
         (\<exists>h'. p_list_prepend h new L d = Some (h', new) \<and>
            dll h' (new # bs @ e # cs) (d # ys @ z # zs) \<and>
            (\<forall>a. a \<notin> set (bs @ e # cs) \<union> {new} \<longrightarrow> h' a = h a)) \<and>
         (\<exists>h'. p_list_remove h L (Some e) = Some (h', hd_or (bs @ cs) None) \<and>
            dseg h' None (bs @ cs) (ys @ zs) None \<and>
            h' e = Some \<lparr>prev = None, nxt = None, data = z\<rparr> \<and>
            (\<forall>a. a \<notin> set (bs @ e # cs) \<longrightarrow> h' a = h a)) \<and>
         p_list_length h e = Some (length (z # zs)) \<and>
         p_list_first h L = Some (hd (bs @ e # cs)) \<and> p_list_last h L = Some (last (bs @ e # cs))"
  using p_list_append_dll [OF assms(1,3,4,5), of d] p_list_prepend_dll [OF assms(1,3,4,5), of d]
    p_list_remove_dll [OF assms(1,2,3)] p_list_length_dll [OF assms(1,2)] assms(5)
    p_list_first_dll [OF assms(1,3)] p_list_last_dll [OF assms(1,3)]
  by (intro conjI) auto

theorem p_list_operations_refine_lists_witness:
  "dll [1 \<mapsto> \<lparr>prev = None, nxt = Some 2, data = Some ''a''\<rparr>,
        2 \<mapsto> \<lparr>prev = Some 1, nxt = None, data = Some ''b''\<rparr>] [1, 2] [Some ''a'', Some ''b''] \<and>
   (\<exists>h'. p_list_remove [1 \<mapsto> \<lparr>prev = None, nxt = Some 2, data = Some ''a''\<rparr>,
                          2 \<mapsto> \<lparr>prev = Some 1, nxt = None, data = Some ''b''\<rparr>] 2 (Some 1) =
           Some (h', Some 2) \<and> dseg h' None [2] [Some ''b''] None)"
  using p_list_operations_refine_lists
    [of "[1 \<mapsto> \<lparr>prev = None, nxt = Some 2, data = Some ''a''\<rparr>,
          2 \<mapsto> \<lparr>prev = Some 1, nxt = None, data = Some ''b''\<rparr>]"
      "[]" 1 "[2]" "[]" "Some ''a''" "[Some ''b'']" 2 3 None]
  by (fastforce simp: dll_def)

end
