(* ===== verification/GLists.thy ===== *)
theory GLists
  imports CString
begin

text \<open>
  The \<open>GList\<close> helpers of \<open>src/src/dm_list.c\<close>, on lists of the elements' data: slices for SQL
  \<open>IN\<close> clauses, duplicate removal, joining, and the merge that applies a STORE of keywords.
\<close>

section \<open>Operations\<close>

text \<open>
  The inner loop of the slice functions: at most \<open>n\<close> more elements are appended, each after a
  comma. The two variants differ in the conversion \<open>fmt\<close> of an element.
\<close>

fun slice_loop :: "('a \<Rightarrow> string) \<Rightarrow> nat \<Rightarrow> string \<Rightarrow> 'a list \<Rightarrow> string \<times> 'a list" where
  "slice_loop fmt 0 sl xs = (sl, xs)"
| "slice_loop fmt (Suc n) sl [] = (sl, [])"
| "slice_loop fmt (Suc n) sl (x # xs) = slice_loop fmt n (sl @ '','' @ fmt x) xs"

lemma slice_loop_rest: "length (snd (slice_loop fmt n s xs)) \<le> length xs"
  by (induction fmt n s xs rule: slice_loop.induct) auto

function slices_loop :: "('a \<Rightarrow> string) \<Rightarrow> nat \<Rightarrow> 'a list \<Rightarrow> string list" where
  "slices_loop fmt limit [] = []"
| "slices_loop fmt limit (x # xs) =
     fst (slice_loop fmt (limit - 1) (fmt x) xs) #
       slices_loop fmt limit (snd (slice_loop fmt (limit - 1) (fmt x) xs))"
  by pat_completeness auto
termination
  by (relation "measure (\<lambda>(f, l, xs). length xs)") (auto simp: le_imp_less_Suc slice_loop_rest)

definition g_list_slices :: "string list \<Rightarrow> nat \<Rightarrow> string list" where
  "g_list_slices xs limit = slices_loop (\<lambda>s. s) limit xs"

definition g_list_slices_u64 :: "u64 list \<Rightarrow> nat \<Rightarrow> string list" where
  "g_list_slices_u64 xs limit = slices_loop show_u64 limit xs"

text \<open>\<open>NULL\<close> data is \<open>None\<close>; \<open>lastdata\<close> is the first argument.\<close>

fun dedup_loop :: "('a \<Rightarrow> 'a \<Rightarrow> int) \<Rightarrow> 'a option \<Rightarrow> 'a option list \<Rightarrow> 'a option list" where
  "dedup_loop cmp lastdata [] = []"
| "dedup_loop cmp lastdata (d # ds) =
     (case (lastdata, d) of
        (Some l, Some x) \<Rightarrow>
          if cmp l x = 0 then dedup_loop cmp lastdata ds else d # dedup_loop cmp d ds
      | _ \<Rightarrow> d # dedup_loop cmp d ds)"

definition g_list_dedup :: "'a option list \<Rightarrow> ('a \<Rightarrow> 'a \<Rightarrow> int) \<Rightarrow> 'a option list" where
  "g_list_dedup xs cmp = dedup_loop cmp None xs"

fun join_loop :: "('a \<Rightarrow> string) \<Rightarrow> string \<Rightarrow> string \<Rightarrow> 'a list \<Rightarrow> string" where
  "join_loop fmt sep acc [] = acc"
| "join_loop fmt sep acc (x # xs) = join_loop fmt sep (acc @ sep @ fmt x) xs"

definition g_list_join :: "string list \<Rightarrow> string option \<Rightarrow> string" where
  "g_list_join xs sep =
     (case xs of [] \<Rightarrow> [] | x # r \<Rightarrow> join_loop (\<lambda>s. s) (case sep of None \<Rightarrow> [] | Some s \<Rightarrow> s) x r)"

definition g_list_join_u64 :: "u64 list \<Rightarrow> string option \<Rightarrow> string" where
  "g_list_join_u64 xs sep =
     (case xs of [] \<Rightarrow> [] | x # r \<Rightarrow>
        join_loop show_u64 (case sep of None \<Rightarrow> [] | Some s \<Rightarrow> s) (show_u64 x) r)"

definition g_list_append_printf :: "string list \<Rightarrow> string \<Rightarrow> string list" where
  "g_list_append_printf xs formatted = xs @ [formatted]"

datatype imapfa = IMAPFA_NONE | IMAPFA_REPLACE | IMAPFA_ADD | IMAPFA_REMOVE

text \<open>\<open>g_list_find_custom\<close> calls the comparison with the list element first.\<close>

definition found_custom :: "('a \<Rightarrow> 'a \<Rightarrow> int) \<Rightarrow> 'a \<Rightarrow> 'a list \<Rightarrow> bool" where
  "found_custom func t xs \<longleftrightarrow> (\<exists>x \<in> set xs. func x t = 0)"

fun remove_custom :: "('a \<Rightarrow> 'a \<Rightarrow> int) \<Rightarrow> 'a \<Rightarrow> 'a list \<Rightarrow> 'a list" where
  "remove_custom func t [] = []"
| "remove_custom func t (x # xs) = (if func x t = 0 then xs else x # remove_custom func t xs)"

definition merge_add :: "('a \<Rightarrow> 'a \<Rightarrow> int) \<Rightarrow> 'a \<Rightarrow> 'a list \<Rightarrow> 'a list" where
  "merge_add func t a = (if \<not> found_custom func t a then a @ [t] else a)"

definition g_list_merge :: "'a list \<Rightarrow> 'a list \<Rightarrow> imapfa \<Rightarrow> ('a \<Rightarrow> 'a \<Rightarrow> int) \<Rightarrow> 'a list" where
  "g_list_merge a b condition func =
     (case condition of
        IMAPFA_ADD \<Rightarrow> fold (merge_add func) b a
      | IMAPFA_REMOVE \<Rightarrow> fold (remove_custom func) b a
      | IMAPFA_REPLACE \<Rightarrow> fold (\<lambda>t acc. acc @ [t]) b []
      | IMAPFA_NONE \<Rightarrow> a)"

section \<open>Slices\<close>

text \<open>Consecutive pieces of at most \<open>n\<close> elements.\<close>

fun chunks :: "nat \<Rightarrow> 'a list \<Rightarrow> 'a list list" where
  "chunks n [] = []"
| "chunks n (x # xs) = (x # take (n - 1) xs) # chunks n (drop (n - 1) xs)"

lemma concat_chunks [simp]: "concat (chunks n xs) = xs"
  by (induction n xs rule: chunks.induct) auto

lemma chunks_length: "c \<in> set (chunks n xs) \<Longrightarrow> c \<noteq> [] \<and> length c \<le> max 1 n"
  by (induction n xs rule: chunks.induct) auto

lemma join_with_Cons: "xs \<noteq> [] \<Longrightarrow> join_with sep (x # xs) = x @ sep @ join_with sep xs"
  by (cases xs) auto

lemma join_with_snoc: "xs \<noteq> [] \<Longrightarrow> join_with sep (xs @ [x]) = join_with sep xs @ sep @ x"
  by (induction sep xs rule: join_with.induct) (auto simp: join_with_Cons)

lemma slice_loop_eq:
  "ys \<noteq> [] \<Longrightarrow>
     slice_loop fmt n (join_with '','' ys) xs =
       (join_with '','' (ys @ map fmt (take n xs)), drop n xs)"
proof (induction n arbitrary: ys xs)
  case (Suc n)
  then show ?case
    using Suc.IH [of "ys @ [fmt (hd xs)]" "tl xs"] by (cases xs) (auto simp: join_with_snoc)
qed simp

lemma slices_loop_eq: "slices_loop fmt limit xs = map (\<lambda>c. join_with '','' (map fmt c)) (chunks limit xs)"
proof (induction limit xs rule: chunks.induct)
  case (2 n x xs)
  have "slice_loop fmt (n - 1) (fmt x) xs =
      (join_with '','' (fmt x # map fmt (take (n - 1) xs)), drop (n - 1) xs)"
    using slice_loop_eq [of "[fmt x]" fmt "n - 1" xs] by simp
  with 2 show ?case by simp
qed simp

lemma join_loop_eq:
  "xs \<noteq> [] \<Longrightarrow> join_loop fmt sep (join_with sep xs) ys = join_with sep (xs @ map fmt ys)"
  by (induction ys arbitrary: xs) (auto simp flip: join_with_snoc)

lemma g_list_join_eq: "g_list_join xs (Some sep) = join_with sep xs"
  using join_loop_eq [of "[hd xs]" "\<lambda>s. s" sep "tl xs"] by (cases xs) (auto simp: g_list_join_def)

lemma g_list_join_u64_eq: "g_list_join_u64 xs (Some sep) = join_with sep (map show_u64 xs)"
  using join_loop_eq [of "[show_u64 (hd xs)]" show_u64 sep "tl xs"]
  by (cases xs) (auto simp: g_list_join_u64_def)

lemma comma_notin_show_u64: "CHR '','' \<notin> set (show_u64 n)"
proof -
  have "\<not> isdigit CHR '',''" by (simp add: ctype_defs)
  then show ?thesis using show_nat_digits by (auto simp: show_u64_def)
qed

section \<open>Duplicates and merging\<close>

lemma dedup_loop_remdups_adj:
  assumes "\<And>a b. cmp a b = 0 \<longleftrightarrow> a = b"
  shows "dedup_loop cmp (Some l) (map Some xs) = map Some (tl (remdups_adj (l # xs)))"
  by (induction xs arbitrary: l) (auto simp: assms remdups_adj_Cons split: list.splits)

lemma g_list_dedup_remdups_adj:
  assumes "\<And>a b. cmp a b = 0 \<longleftrightarrow> a = b"
  shows "g_list_dedup (map Some xs) cmp = map Some (remdups_adj xs)"
proof (cases xs)
  case (Cons x r)
  then show ?thesis
    using dedup_loop_remdups_adj [OF assms, of x r] hd_remdups_adj [of "x # r"]
    by (cases "remdups_adj (x # r)") (auto simp: g_list_dedup_def)
qed (simp add: g_list_dedup_def)

lemma fold_snoc: "fold (\<lambda>t acc. acc @ [t]) b a = a @ b"
  by (induction b arbitrary: a) auto

text \<open>Adding keeps what is there and represents every key of \<open>b\<close> once.\<close>

lemma fold_merge_add:
  assumes "\<And>a b. func a b = 0 \<longleftrightarrow> f a = f b"
  shows "\<exists>new. fold (merge_add func) b a = a @ new \<and> f ` set (a @ new) = f ` set a \<union> f ` set b \<and>
           (distinct (map f a) \<longrightarrow> distinct (map f (a @ new)))"
proof (induction b arbitrary: a)
  case (Cons t b)
  have found: "found_custom func t a \<longleftrightarrow> f t \<in> f ` set a"
    unfolding found_custom_def assms by (metis image_iff)
  show ?case
  proof (cases "found_custom func t a")
    case True
    then show ?thesis using Cons.IH [of a] found by (auto simp: merge_add_def)
  next
    case False
    obtain new where new: "fold (merge_add func) b (a @ [t]) = (a @ [t]) @ new"
        "f ` set ((a @ [t]) @ new) = f ` set (a @ [t]) \<union> f ` set b"
        "distinct (map f (a @ [t])) \<longrightarrow> distinct (map f ((a @ [t]) @ new))"
      using Cons.IH [of "a @ [t]"] by blast
    have "fold (merge_add func) (t # b) a = a @ (t # new)"
      using new(1) False by (simp add: merge_add_def)
    moreover have "f ` set (a @ t # new) = f ` set a \<union> f ` set (t # b)"
      using new(2) by auto
    moreover have "distinct (map f a) \<longrightarrow> distinct (map f (a @ t # new))"
      using new(3) False found by auto
    ultimately show ?thesis by blast
  qed
qed auto

lemma remove_custom_eq:
  assumes "\<And>a b. func a b = 0 \<longleftrightarrow> f a = f b" "distinct (map f a)"
  shows "remove_custom func t a = filter (\<lambda>x. f x \<noteq> f t) a"
  using assms(2)
proof (induction a)
  case (Cons x a)
  have "filter (\<lambda>y. f y \<noteq> f x) a = a"
    using Cons.prems by (intro filter_True ballI notI) (metis distinct.simps(2) imageI list.map(2) list.set_map)
  then show ?case
    using Cons by (cases "f x = f t") (simp_all add: assms(1))
qed simp

lemma fold_remove_custom:
  assumes "\<And>a b. func a b = 0 \<longleftrightarrow> f a = f b" "distinct (map f a)"
  shows "fold (remove_custom func) b a = filter (\<lambda>x. f x \<notin> f ` set b) a"
  using assms(2)
proof (induction b arbitrary: a)
  case (Cons t b)
  have "distinct (map f (filter (\<lambda>x. f x \<noteq> f t) a))"
    using Cons.prems by (simp add: distinct_map_filter)
  with Cons show ?case
    by (simp add: remove_custom_eq [of func f, OF assms(1)] conj_commute)
qed simp

section \<open>Properties\<close>

text \<open>
  The slices of a list of ids are the ids in order, separated by commas, in non-empty
  pieces of at most the limit (a limit of zero counts as one): parsing the slices gives back
  the list, so no id is lost, duplicated or merged with its neighbour.
\<close>

lemma g_list_slices_u64_partition:
  "concat (map (split_on CHR '','') (g_list_slices_u64 xs limit)) = map show_u64 xs \<and>
   list_all (\<lambda>s. length (split_on CHR '','' s) \<le> max 1 limit) (g_list_slices_u64 xs limit)"
proof -
  have split: "split_on CHR '','' (join_with '','' (map show_u64 c)) = map show_u64 c"
    if "c \<in> set (chunks limit xs)" for c
    using chunks_length [OF that] comma_notin_show_u64 by (intro split_on_join) auto
  have "map (split_on CHR '','') (g_list_slices_u64 xs limit) = map (map show_u64) (chunks limit xs)"
    by (simp add: g_list_slices_u64_def slices_loop_eq split)
  moreover have "list_all (\<lambda>s. length (split_on CHR '','' s) \<le> max 1 limit) (g_list_slices_u64 xs limit)"
    using chunks_length [of _ limit xs]
    by (auto simp: g_list_slices_u64_def slices_loop_eq split list_all_iff)
  ultimately show ?thesis by (simp flip: map_concat)
qed

text \<open>
  \<open>g_list_merge\<close> under a comparison that identifies the keys with the same image under
  \<open>f\<close> (case folding, for the keywords of a STORE). ADD keeps the list and appends a key for
  every new class; REMOVE of a list without repeated classes drops exactly the classes in
  \<open>b\<close>; REPLACE yields \<open>b\<close>. None of them introduces a repeated class.
\<close>

lemma g_list_merge_actions:
  assumes "\<And>x y. func x y = 0 \<longleftrightarrow> f x = f y" "distinct (map f a)"
  shows "(\<exists>new. g_list_merge a b IMAPFA_ADD func = a @ new \<and>
            f ` set (a @ new) = f ` set a \<union> f ` set b \<and> distinct (map f (a @ new))) \<and>
         g_list_merge a b IMAPFA_REMOVE func = filter (\<lambda>x. f x \<notin> f ` set b) a \<and>
         distinct (map f (g_list_merge a b IMAPFA_REMOVE func)) \<and>
         g_list_merge a b IMAPFA_REPLACE func = b"
  using fold_merge_add [of func f b a, OF assms(1)] fold_remove_custom [of func f a b, OF assms] assms(2)
  by (auto simp: g_list_merge_def fold_snoc distinct_map_filter)

lemma g_list_merge_actions_witness:
  "distinct (map id [1::int, 2]) \<and>
   g_list_merge [1, 2] [2, 3] IMAPFA_REMOVE (\<lambda>x y. x - y) = filter (\<lambda>x. id x \<notin> id ` set [2, 3]) [1, 2::int]"
  using g_list_merge_actions [of "\<lambda>x y. x - y" "id :: int \<Rightarrow> int" "[1, 2]" "[2, 3]"] by simp

end
