(* ===== verification/GTree.thy ===== *)
theory GTree
  imports CString
begin

text \<open>
  Balanced trees (\<open>GTree\<close>) as the sources use them: finite maps kept in the order of a
  comparison function. A tree is the list of its nodes in traversal order; the comparison
  function is an argument of every operation, as it is a field of the tree in GLib. A stored
  value is never a null pointer, so \<open>g_tree_lookup\<close> returns \<open>None\<close> exactly for an absent key.
  The theory also holds the comparison functions and the tree helpers of \<open>src/src/dm_misc.c\<close>,
  among them the boolean merge \<open>g_tree_merge\<close> on which SEARCH and message sets rest.
\<close>

section \<open>Trees\<close>

type_synonym ('k, 'v) gtree = "('k \<times> 'v) list"

fun g_tree_lookup :: "('k \<Rightarrow> 'k \<Rightarrow> int) \<Rightarrow> ('k, 'v) gtree \<Rightarrow> 'k \<Rightarrow> 'v option" where
  "g_tree_lookup cmp [] k = None"
| "g_tree_lookup cmp ((k', v) # t) k =
     (if cmp k k' = 0 then Some v
      else if cmp k k' < 0 then None
      else g_tree_lookup cmp t k)"

fun g_tree_lookup_extended :: "('k \<Rightarrow> 'k \<Rightarrow> int) \<Rightarrow> ('k, 'v) gtree \<Rightarrow> 'k \<Rightarrow> ('k \<times> 'v) option" where
  "g_tree_lookup_extended cmp [] k = None"
| "g_tree_lookup_extended cmp ((k', v) # t) k =
     (if cmp k k' = 0 then Some (k', v)
      else if cmp k k' < 0 then None
      else g_tree_lookup_extended cmp t k)"

text \<open>An existing node keeps its key and gets the new value.\<close>

fun g_tree_insert :: "('k \<Rightarrow> 'k \<Rightarrow> int) \<Rightarrow> ('k, 'v) gtree \<Rightarrow> 'k \<Rightarrow> 'v \<Rightarrow> ('k, 'v) gtree" where
  "g_tree_insert cmp [] k v = [(k, v)]"
| "g_tree_insert cmp ((k', v') # t) k v =
     (if cmp k k' = 0 then (k', v) # t
      else if cmp k k' < 0 then (k, v) # (k', v') # t
      else (k', v') # g_tree_insert cmp t k v)"

text \<open>\<open>g_tree_remove\<close> and \<open>g_tree_steal\<close>, which differ in who frees the node's data.\<close>

fun g_tree_remove :: "('k \<Rightarrow> 'k \<Rightarrow> int) \<Rightarrow> ('k, 'v) gtree \<Rightarrow> 'k \<Rightarrow> ('k, 'v) gtree" where
  "g_tree_remove cmp [] k = []"
| "g_tree_remove cmp ((k', v) # t) k =
     (if cmp k k' = 0 then t
      else if cmp k k' < 0 then (k', v) # t
      else (k', v) # g_tree_remove cmp t k)"

text \<open>The traversal stops when the function returns true.\<close>

fun g_tree_foreach :: "('k, 'v) gtree \<Rightarrow> ('k \<Rightarrow> 'v \<Rightarrow> 's \<Rightarrow> bool \<times> 's) \<Rightarrow> 's \<Rightarrow> 's" where
  "g_tree_foreach [] f s = s"
| "g_tree_foreach ((k, v) # t) f s =
     (let (stop, s') = f k v s in if stop then s' else g_tree_foreach t f s')"

definition g_tree_nnodes :: "('k, 'v) gtree \<Rightarrow> nat" where
  "g_tree_nnodes t = length t"

definition tree_sorted :: "('k \<Rightarrow> 'k \<Rightarrow> int) \<Rightarrow> ('k, 'v) gtree \<Rightarrow> bool" where
  "tree_sorted cmp t \<longleftrightarrow> sorted_wrt (\<lambda>x y. cmp (fst x) (fst y) < 0) t"

section \<open>Comparison functions and helpers of \<open>dm_misc.c\<close>\<close>

definition ucmp :: "u64 \<Rightarrow> u64 \<Rightarrow> int" where
  "ucmp x y = (if y < x then 1 else if x = y then 0 else - 1)"

definition ucmpdata :: "u64 \<Rightarrow> u64 \<Rightarrow> int" where
  "ucmpdata a b = ucmp a b"

definition dm_strcmpdata :: "string \<Rightarrow> string \<Rightarrow> int" where
  "dm_strcmpdata a b = strcmp a b"

definition traverse_tree_keys :: "'k \<Rightarrow> 'v \<Rightarrow> 'k list \<Rightarrow> bool \<times> 'k list" where
  "traverse_tree_keys k v l = (False, k # l)"

definition traverse_tree_values :: "'k \<Rightarrow> 'v \<Rightarrow> 'v list \<Rightarrow> bool \<times> 'v list" where
  "traverse_tree_values k v l = (False, v # l)"

definition g_tree_keys :: "('k, 'v) gtree \<Rightarrow> 'k list" where
  "g_tree_keys t = rev (g_tree_foreach t traverse_tree_keys [])"

definition g_tree_values :: "('k, 'v) gtree \<Rightarrow> 'v list" where
  "g_tree_values t = rev (g_tree_foreach t traverse_tree_values [])"

text \<open>The search key types, of which \<open>g_tree_merge\<close> distinguishes the last three.\<close>

datatype ist =
  IST_SET | IST_UIDSET | IST_FLAG | IST_KEYWORD | IST_UNKEYWORD | IST_SORT | IST_HDR
| IST_HDRDATE_BEFORE | IST_HDRDATE_ON | IST_HDRDATE_SINCE | IST_IDATE | IST_DATA_BODY
| IST_DATA_TEXT | IST_SIZE_LARGER | IST_SIZE_SMALLER | IST_SUBSEARCH_AND | IST_SUBSEARCH_OR
| IST_SUBSEARCH_NOT

definition traverse_tree_merger ::
  "('k \<Rightarrow> 'k \<Rightarrow> int) \<Rightarrow> ('k, 'w) gtree \<Rightarrow> ist \<Rightarrow> 'k \<Rightarrow> 'v \<Rightarrow> 'k list \<Rightarrow> bool \<times> 'k list" where
  "traverse_tree_merger cmp tree condition key v l =
     (if condition = IST_SUBSEARCH_NOT then (False, l)
      else if g_tree_lookup cmp tree key = None then (False, key # l)
      else (False, l))"

text \<open>One key of \<open>b\<close> moved into \<open>a\<close>: \<open>lookup_extended\<close>, \<open>steal\<close>, \<open>insert\<close>.\<close>

definition move_key ::
  "('k \<Rightarrow> 'k \<Rightarrow> int) \<Rightarrow> 'k \<Rightarrow> ('k, 'v) gtree \<times> ('k, 'v) gtree \<Rightarrow> ('k, 'v) gtree \<times> ('k, 'v) gtree"
  where
  "move_key cmp k ab =
     (case ab of (a, b) \<Rightarrow>
        (case g_tree_lookup_extended cmp b k of
           None \<Rightarrow> (a, b)
         | Some (key, v) \<Rightarrow> (g_tree_insert cmp a key v, g_tree_remove cmp b k)))"

definition not_key ::
  "('k \<Rightarrow> 'k \<Rightarrow> int) \<Rightarrow> 'k \<Rightarrow> ('k, 'v) gtree \<times> ('k, 'v) gtree \<Rightarrow> ('k, 'v) gtree \<times> ('k, 'v) gtree"
  where
  "not_key cmp k ab =
     (case ab of (a, b) \<Rightarrow>
        if g_tree_lookup cmp a k \<noteq> None then (g_tree_remove cmp a k, b)
        else move_key cmp k (a, b))"

text \<open>The merge returns its status with the two trees.\<close>

definition g_tree_merge ::
  "('k \<Rightarrow> 'k \<Rightarrow> int) \<Rightarrow> ('k, 'v) gtree \<Rightarrow> ('k, 'v) gtree \<Rightarrow> ist \<Rightarrow>
     int \<times> ('k, 'v) gtree \<times> ('k, 'v) gtree" where
  "g_tree_merge cmp a b condition =
     (case condition of
        IST_SUBSEARCH_AND \<Rightarrow>
          (if \<not> 0 < g_tree_nnodes a then (0, a, b)
           else let keys = g_tree_foreach a (traverse_tree_merger cmp b IST_SUBSEARCH_AND) [];
                    klen = length keys
                in if klen = 0 then (0, a, b)
                   else let keys = (if 1 < klen then rev keys else keys)
                        in (0, fold (\<lambda>k t. g_tree_remove cmp t k) keys a, b))
      | IST_SUBSEARCH_OR \<Rightarrow>
          (if \<not> 0 < g_tree_nnodes b then (0, a, b)
           else let keys = g_tree_foreach b (traverse_tree_merger cmp a IST_SUBSEARCH_OR) [];
                    klen = length keys
                in if klen = 0 then (0, a, b)
                   else let keys = (if 1 < klen then rev keys else keys)
                        in (0, fold (move_key cmp) keys (a, b)))
      | IST_SUBSEARCH_NOT \<Rightarrow>
          (if \<not> 0 < g_tree_nnodes b then (0, a, b)
           else (0, fold (not_key cmp) (g_tree_keys b) (a, b)))
      | _ \<Rightarrow> (0, a, b))"

text \<open>
  \<open>g_tree_copy_String\<close> inserts every node of \<open>b\<close> into \<open>a\<close>; the copied values are strings.
\<close>

definition traverse_tree_copy_String ::
  "('k \<Rightarrow> 'k \<Rightarrow> int) \<Rightarrow> ('k, string) gtree \<Rightarrow> 'k \<Rightarrow> string \<Rightarrow> ('k, string) gtree \<Rightarrow>
     bool \<times> ('k, string) gtree" where
  "traverse_tree_copy_String cmp source key v destination =
     (case g_tree_lookup cmp source key of
        None \<Rightarrow> (True, destination)
      | Some src \<Rightarrow> (False, g_tree_insert cmp destination key src))"

definition g_tree_copy_String ::
  "('k \<Rightarrow> 'k \<Rightarrow> int) \<Rightarrow> ('k, string) gtree \<Rightarrow> ('k, string) gtree \<Rightarrow> int \<times> ('k, string) gtree" where
  "g_tree_copy_String cmp a b = (0, g_tree_foreach b (traverse_tree_copy_String cmp b) a)"

lemma tree_sorted_map: "tree_sorted cmp t \<longleftrightarrow> sorted_wrt (\<lambda>a b. cmp a b < 0) (map fst t)"
  by (simp add: tree_sorted_def sorted_wrt_map)

lemma tree_sorted_keys: "map fst t = map fst u \<Longrightarrow> tree_sorted cmp t = tree_sorted cmp u"
  by (simp add: tree_sorted_map)

section \<open>Traversals\<close>

lemma foreach_no_stop:
  assumes "\<And>k v s. f k v s = (False, g k v s)"
  shows "g_tree_foreach t f s = fold (\<lambda>(k, v). g k v) t s"
  by (induction t arbitrary: s) (auto simp: assms split: prod.splits)

lemma g_tree_keys_eq [simp]: "g_tree_keys t = map fst t"
proof -
  have "fold (\<lambda>(k, v). (#) k) t l = rev (map fst t) @ l" for l
    by (induction t arbitrary: l) auto
  then show ?thesis
    by (simp add: g_tree_keys_def
        foreach_no_stop [of traverse_tree_keys "\<lambda>k v l. k # l"] traverse_tree_keys_def)
qed

lemma g_tree_values_eq [simp]: "g_tree_values t = map snd t"
proof -
  have "fold (\<lambda>(k, v). (#) v) t l = rev (map snd t) @ l" for l
    by (induction t arbitrary: l) auto
  then show ?thesis
    by (simp add: g_tree_values_def
        foreach_no_stop [of traverse_tree_values "\<lambda>k v l. v # l"] traverse_tree_values_def)
qed

lemma foreach_merger:
  assumes "cond \<noteq> IST_SUBSEARCH_NOT"
  shows "g_tree_foreach t (traverse_tree_merger cmp other cond) [] =
           rev (filter (\<lambda>k. g_tree_lookup cmp other k = None) (map fst t))"
proof -
  let ?g = "\<lambda>k v l. if g_tree_lookup cmp other k = None then k # l else l"
  have "g_tree_foreach t (traverse_tree_merger cmp other cond) l = fold (\<lambda>(k, v). ?g k v) t l" for l
    using assms by (intro foreach_no_stop) (simp add: traverse_tree_merger_def)
  moreover have "fold (\<lambda>(k, v). ?g k v) t l =
      rev (filter (\<lambda>k. g_tree_lookup cmp other k = None) (map fst t)) @ l" for l
    by (induction t arbitrary: l) auto
  ultimately show ?thesis by simp
qed

section \<open>Comparison functions that order their keys\<close>

locale key_order =
  fixes cmp :: "'k \<Rightarrow> 'k \<Rightarrow> int"
  assumes cmp_eq: "cmp a b = 0 \<longleftrightarrow> a = b"
    and cmp_swap: "0 < cmp a b \<longleftrightarrow> cmp b a < 0"
    and cmp_trans: "cmp a b < 0 \<Longrightarrow> cmp b c < 0 \<Longrightarrow> cmp a c < 0"
begin

lemma cmp_self [simp]: "cmp a a = 0"
  by (simp add: cmp_eq)

lemma cmp_not_less: "\<not> cmp a b < 0 \<Longrightarrow> a \<noteq> b \<Longrightarrow> cmp b a < 0"
  using cmp_eq [of a b] cmp_swap [of a b] by linarith

lemma sorted_tl_notin:
  assumes "tree_sorted cmp ((k', v) # t)" "cmp k k' < 0 \<or> k = k'"
  shows "k \<notin> fst ` set t"
proof
  assume "k \<in> fst ` set t"
  then have "cmp k' k < 0"
    using assms(1) by (auto simp: tree_sorted_def)
  with assms(2) show False
    using cmp_trans [of k k' k] cmp_trans [of k' k k'] by auto
qed

lemma sorted_tl_None:
  "tree_sorted cmp ((k', v) # t) \<Longrightarrow> cmp k k' < 0 \<or> k = k' \<Longrightarrow> map_of t k = None"
  using sorted_tl_notin by (simp add: map_of_eq_None_iff)

lemma lookup_map_of:
  "tree_sorted cmp t \<Longrightarrow> g_tree_lookup cmp t k = map_of t k"
proof (induction t)
  case (Cons x t)
  then show ?case
    using sorted_tl_None [of "fst x" "snd x" t k]
    by (cases x) (auto simp: cmp_eq tree_sorted_def)
qed simp

lemma lookup_extended_map_of:
  "tree_sorted cmp t \<Longrightarrow> g_tree_lookup_extended cmp t k = map_option (Pair k) (map_of t k)"
proof (induction t)
  case (Cons x t)
  then show ?case
    using sorted_tl_None [of "fst x" "snd x" t k]
    by (cases x) (auto simp: cmp_eq tree_sorted_def)
qed simp

lemma insert_set: "fst ` set (g_tree_insert cmp t k v) = insert k (fst ` set t)"
proof (induction t)
  case (Cons x t)
  then show ?case by (cases x) (simp add: cmp_eq insert_commute)
qed simp

lemma insert_sorted:
  "tree_sorted cmp t \<Longrightarrow> tree_sorted cmp (g_tree_insert cmp t k v)"
proof (induction t)
  case (Cons x t)
  obtain k' v' where x: "x = (k', v')" by (cases x)
  have "cmp k' (fst y) < 0" if "y \<in> set (g_tree_insert cmp t k v)" "\<not> cmp k k' < 0" "k \<noteq> k'" for y
  proof -
    have "fst y = k \<or> fst y \<in> fst ` set t"
      using that(1) insert_set [of t k v] by blast
    then show ?thesis
      using Cons.prems that(2,3) cmp_not_less [of k k'] by (auto simp: tree_sorted_def x)
  qed
  then show ?case
    using Cons by (auto simp: tree_sorted_def cmp_eq x intro: cmp_trans)
qed (simp add: tree_sorted_def)

lemma insert_map_of:
  "tree_sorted cmp t \<Longrightarrow> map_of (g_tree_insert cmp t k v) = (map_of t)(k \<mapsto> v)"
  by (induction t) (auto simp: cmp_eq tree_sorted_def fun_upd_twist)

lemma remove_subset: "set (g_tree_remove cmp t k) \<subseteq> set t"
  by (induction t) (auto split: if_splits)

lemma remove_sorted:
  "tree_sorted cmp t \<Longrightarrow> tree_sorted cmp (g_tree_remove cmp t k)"
proof (induction t)
  case (Cons x t)
  then show ?case
    using remove_subset [of t k] by (cases x) (auto simp: tree_sorted_def)
qed simp

lemma remove_map_of:
  "tree_sorted cmp t \<Longrightarrow> map_of (g_tree_remove cmp t k) = (map_of t)(k := None)"
proof (induction t)
  case (Cons x t)
  obtain k' v' where x: "x = (k', v')" by (cases x)
  show ?case
    using Cons sorted_tl_None [of k' v' t k] by (auto simp: x cmp_eq tree_sorted_def fun_eq_iff)
qed simp

lemma sorted_distinct: "tree_sorted cmp t \<Longrightarrow> distinct (map fst t)"
proof (induction t)
  case (Cons x t)
  then show ?case
    using sorted_tl_notin [of "fst x" "snd x" t "fst x"] by (auto simp: tree_sorted_def)
qed simp

text \<open>A tree is determined by the map it represents.\<close>

lemma sorted_ext:
  "tree_sorted cmp t \<Longrightarrow> tree_sorted cmp u \<Longrightarrow> map_of t = map_of u \<Longrightarrow> t = u"
proof (induction t arbitrary: u)
  case Nil
  then show ?case by (metis map_of_eq_empty_iff)
next
  case (Cons x t)
  obtain y u' where u: "u = y # u'"
    using Cons.prems(3) by (metis list.exhaust map_of_eq_empty_iff list.distinct(1))
  have dom: "insert (fst x) (fst ` set t) = insert (fst y) (fst ` set u')"
    using arg_cong [OF Cons.prems(3), of dom] by (simp only: dom_map_of_conv_image_fst u) simp
  have less: "\<forall>k\<in>fst ` set t. cmp (fst x) k < 0" "\<forall>k\<in>fst ` set u'. cmp (fst y) k < 0"
    using Cons.prems(1,2) by (auto simp: tree_sorted_def u)
  have k: "fst x = fst y"
    using dom less cmp_trans [of "fst x" "fst y" "fst x"] by (metis cmp_self insert_iff less_irrefl)
  have notin: "fst x \<notin> fst ` set t" "fst x \<notin> fst ` set u'"
    using less k by auto
  have "map_of t k' = map_of u' k'" for k'
  proof (cases "k' = fst x")
    case True
    then show ?thesis using notin by (metis map_of_eq_None_iff)
  next
    case False
    then show ?thesis
      using fun_cong [OF Cons.prems(3), of k'] k by (cases x; cases y) (simp add: u)
  qed
  then have "t = u'"
    using Cons.IH [of u'] Cons.prems(1,2) by (auto simp: tree_sorted_def u)
  moreover have "x = y"
    using fun_cong [OF Cons.prems(3), of "fst x"] k by (cases x; cases y) (simp add: u)
  ultimately show ?case by (simp add: u)
qed

text \<open>Insertion at the end, and replacement of a value in place.\<close>

lemma insert_last:
  "(\<And>x. x \<in> set t \<Longrightarrow> cmp (fst x) k < 0) \<Longrightarrow> g_tree_insert cmp t k v = t @ [(k, v)]"
proof (induction t)
  case (Cons x t)
  have "cmp (fst x) k < 0" using Cons.prems by simp
  then have "0 < cmp k (fst x)" by (simp add: cmp_swap)
  with Cons show ?case by (cases x) auto
qed simp

lemma sorted_before:
  assumes "tree_sorted cmp (xs @ (k, v) # ys)" "x \<in> set xs"
  shows "cmp (fst x) k < 0" "0 < cmp k (fst x)"
proof -
  show "cmp (fst x) k < 0" using assms by (auto simp: tree_sorted_def sorted_wrt_append)
  then show "0 < cmp k (fst x)" by (simp add: cmp_swap)
qed

lemma insert_replace:
  "tree_sorted cmp (xs @ (k, v) # ys) \<Longrightarrow> g_tree_insert cmp (xs @ (k, v) # ys) k v' = xs @ (k, v') # ys"
proof (induction xs)
  case (Cons x xs)
  have "0 < cmp k (fst x)"
    using sorted_before(2) [of "x # xs" k v ys x] Cons.prems by simp
  with Cons show ?case by (cases x) (auto simp: tree_sorted_def)
qed simp

lemma lookup_replace:
  "tree_sorted cmp (xs @ (k, v) # ys) \<Longrightarrow> g_tree_lookup cmp (xs @ (k, v) # ys) k = Some v"
proof (induction xs)
  case (Cons x xs)
  have "0 < cmp k (fst x)"
    using sorted_before(2) [of "x # xs" k v ys x] Cons.prems by simp
  with Cons show ?case by (cases x) (auto simp: tree_sorted_def)
qed simp

lemmas tree_simps = lookup_map_of lookup_extended_map_of insert_sorted insert_map_of
  remove_sorted remove_map_of

lemma fold_remove:
  assumes "tree_sorted cmp t"
  shows "tree_sorted cmp (fold (\<lambda>k t. g_tree_remove cmp t k) ks t) \<and>
         map_of (fold (\<lambda>k t. g_tree_remove cmp t k) ks t) = map_of t |` (- set ks)"
  using assms
  by (induction ks arbitrary: t) (auto simp: tree_simps fun_eq_iff restrict_map_def)

lemma move_key_present:
  assumes "tree_sorted cmp a" "tree_sorted cmp b"
  shows "tree_sorted cmp (fst (move_key cmp k (a, b)))" "tree_sorted cmp (snd (move_key cmp k (a, b)))"
    and "map_of (fst (move_key cmp k (a, b))) = (map_of a)(k := if map_of b k = None then map_of a k else map_of b k)"
    and "map_of (snd (move_key cmp k (a, b))) = (map_of b)(k := None)"
  using assms by (auto simp: move_key_def tree_simps split: option.splits)

lemma fold_move_key:
  assumes "tree_sorted cmp a" "tree_sorted cmp b" "distinct ks"
  shows "tree_sorted cmp (fst (fold (move_key cmp) ks (a, b))) \<and>
         tree_sorted cmp (snd (fold (move_key cmp) ks (a, b))) \<and>
         map_of (fst (fold (move_key cmp) ks (a, b))) = map_of a ++ (map_of b |` set ks) \<and>
         map_of (snd (fold (move_key cmp) ks (a, b))) = map_of b |` (- set ks)"
  using assms
proof (induction ks arbitrary: a b)
  case (Cons k ks)
  obtain a' b' where ab: "move_key cmp k (a, b) = (a', b')" by (metis surj_pair)
  have inv: "tree_sorted cmp a'" "tree_sorted cmp b'"
      "map_of a' = (map_of a)(k := if map_of b k = None then map_of a k else map_of b k)"
      "map_of b' = (map_of b)(k := None)"
    using move_key_present [OF Cons.prems(1,2), of k] by (simp_all add: ab)
  have "distinct ks" and k: "k \<notin> set ks" using Cons.prems(3) by simp_all
  from Cons.IH [OF inv(1,2) this(1)] k show ?case
    by (auto simp: ab inv fun_eq_iff map_add_def restrict_map_def split: option.splits)
qed (auto simp: restrict_map_def)

text \<open>The boolean merge, on the maps the trees represent.\<close>

lemma merge_AND:
  assumes "tree_sorted cmp a" "tree_sorted cmp b"
  obtains a' where "g_tree_merge cmp a b IST_SUBSEARCH_AND = (0, a', b)" "tree_sorted cmp a'"
    "map_of a' = map_of a |` dom (map_of b)"
proof -
  define ks where "ks = filter (\<lambda>k. g_tree_lookup cmp b k = None) (map fst a)"
  define a' where "a' = fold (\<lambda>k t. g_tree_remove cmp t k) ks a"
  have rev: "(if 1 < length ks then rev (rev ks) else rev ks) = ks"
    by (cases ks rule: rev_cases) auto
  have coll: "g_tree_foreach a (traverse_tree_merger cmp b IST_SUBSEARCH_AND) [] = rev ks"
    by (simp add: foreach_merger ks_def)
  have eq: "g_tree_merge cmp a b IST_SUBSEARCH_AND = (0, a', b)"
  proof (cases "a = [] \<or> ks = []")
    case True
    then have "ks = []" by (auto simp: ks_def)
    then show ?thesis using coll by (simp add: g_tree_merge_def a'_def)
  next
    case False
    then show ?thesis
      using coll rev by (simp add: g_tree_merge_def Let_def g_tree_nnodes_def a'_def)
  qed
  have ks: "set ks = dom (map_of a) - dom (map_of b)"
    by (simp add: ks_def lookup_map_of [OF assms(2)] dom_map_of_conv_image_fst
        map_of_eq_None_iff set_diff_eq)
  have "map_of a' k = (map_of a |` dom (map_of b)) k" for k
    unfolding a'_def using fold_remove [OF assms(1), of ks] by (auto simp: ks restrict_map_def)
  with eq show ?thesis
    using that fold_remove [OF assms(1), of ks] by (auto simp: a'_def)
qed

lemma merge_OR:
  assumes "tree_sorted cmp a" "tree_sorted cmp b"
  obtains a' b' where "g_tree_merge cmp a b IST_SUBSEARCH_OR = (0, a', b')"
    "tree_sorted cmp a'" "tree_sorted cmp b'"
    "map_of a' = map_of b ++ map_of a" "map_of b' = map_of b |` dom (map_of a)"
proof -
  define ks where "ks = filter (\<lambda>k. g_tree_lookup cmp a k = None) (map fst b)"
  obtain a' b' where ab: "fold (move_key cmp) ks (a, b) = (a', b')" by (metis surj_pair)
  have rev: "(if 1 < length ks then rev (rev ks) else rev ks) = ks"
    by (cases ks rule: rev_cases) auto
  have coll: "g_tree_foreach b (traverse_tree_merger cmp a IST_SUBSEARCH_OR) [] = rev ks"
    by (simp add: foreach_merger ks_def)
  have eq: "g_tree_merge cmp a b IST_SUBSEARCH_OR = (0, a', b')"
  proof (cases "b = [] \<or> ks = []")
    case True
    then have "ks = []" by (auto simp: ks_def)
    then show ?thesis using coll ab by (simp add: g_tree_merge_def)
  next
    case False
    then show ?thesis
      using coll rev ab by (simp add: g_tree_merge_def Let_def g_tree_nnodes_def)
  qed
  have "distinct ks"
    using sorted_distinct [OF assms(2)] by (simp add: ks_def)
  note res = fold_move_key [OF assms this, unfolded ab fst_conv snd_conv]
  have ks: "set ks = dom (map_of b) - dom (map_of a)"
    by (simp add: ks_def lookup_map_of [OF assms(1)] dom_map_of_conv_image_fst
        map_of_eq_None_iff set_diff_eq)
  have "map_of a' k = (map_of b ++ map_of a) k" "map_of b' k = (map_of b |` dom (map_of a)) k" for k
    using res by (auto simp: ks map_add_def restrict_map_def split: option.splits)
  with eq res show ?thesis
    using that by auto
qed

lemma fold_not_key:
  assumes "tree_sorted cmp a" "tree_sorted cmp b" "distinct ks" "set ks \<subseteq> dom (map_of b)"
  shows "tree_sorted cmp (fst (fold (not_key cmp) ks (a, b))) \<and>
         tree_sorted cmp (snd (fold (not_key cmp) ks (a, b))) \<and>
         map_of (fst (fold (not_key cmp) ks (a, b))) =
           (\<lambda>k. if k \<in> set ks then (if map_of a k = None then map_of b k else None) else map_of a k) \<and>
         map_of (snd (fold (not_key cmp) ks (a, b))) = map_of b |` (- set ks \<union> dom (map_of a))"
  using assms
proof (induction ks arbitrary: a b)
  case (Cons k ks)
  obtain a' b' where ab: "not_key cmp k (a, b) = (a', b')" by (metis surj_pair)
  have inv: "tree_sorted cmp a'" "tree_sorted cmp b'"
      "map_of a' = (map_of a)(k := if map_of a k = None then map_of b k else None)"
      "map_of b' = (map_of b)(k := if map_of a k = None then None else map_of b k)"
    using ab Cons.prems(1,2,4)
    by (auto simp: not_key_def move_key_def tree_simps split: if_splits option.splits)
  have d: "distinct ks" and k: "k \<notin> set ks" using Cons.prems(3) by simp_all
  have sub: "set ks \<subseteq> dom (map_of b')"
    using Cons.prems(4) k by (auto simp: inv)
  have kb: "k \<in> dom (map_of b)" using Cons.prems(4) by simp
  note IH = Cons.IH [OF inv(1,2) d sub, unfolded inv]
  have "map_of (fst (fold (not_key cmp) ks (a', b'))) = (\<lambda>x. if x \<in> set (k # ks)
      then (if map_of a x = None then map_of b x else None) else map_of a x)"
    by (rule ext) (auto simp: IH k)
  moreover have "map_of (snd (fold (not_key cmp) ks (a', b'))) =
      map_of b |` (- set (k # ks) \<union> dom (map_of a))"
    by (rule ext) (use IH k kb in \<open>auto simp: restrict_map_def domIff\<close>)
  ultimately show ?case
    using IH by (simp add: ab)
qed (auto simp: restrict_map_def)

lemma merge_NOT:
  assumes "tree_sorted cmp a" "tree_sorted cmp b"
  obtains a' b' where "g_tree_merge cmp a b IST_SUBSEARCH_NOT = (0, a', b')"
    "tree_sorted cmp a'" "tree_sorted cmp b'"
    "map_of a' = (map_of a |` (- dom (map_of b))) ++ (map_of b |` (- dom (map_of a)))"
    "map_of b' = map_of b |` dom (map_of a)"
proof -
  obtain a' b' where ab: "fold (not_key cmp) (map fst b) (a, b) = (a', b')" by (metis surj_pair)
  have eq: "g_tree_merge cmp a b IST_SUBSEARCH_NOT = (0, a', b')"
    using ab by (cases b) (simp_all add: g_tree_merge_def g_tree_nnodes_def)
  have ks: "set (map fst b) = dom (map_of b)"
    by (simp add: dom_map_of_conv_image_fst)
  note res = fold_not_key [OF assms sorted_distinct [OF assms(2)] eq_refl [OF ks],
      unfolded ab fst_conv snd_conv ks]
  have "map_of a' k = ((map_of a |` (- dom (map_of b))) ++ (map_of b |` (- dom (map_of a)))) k"
    "map_of b' k = (map_of b |` dom (map_of a)) k" for k
    using res by (auto simp: map_add_def restrict_map_def split: option.splits)
  with eq res show ?thesis
    using that by auto
qed

end

interpretation ucmp_order: key_order ucmp
  by unfold_locales (auto simp: ucmp_def split: if_splits)

interpretation ucmpdata_order: key_order ucmpdata
  by unfold_locales (auto simp: ucmpdata_def ucmp_def split: if_splits)

interpretation strcmp_order: key_order dm_strcmpdata
proof unfold_locales
  fix a b c :: string
  show "dm_strcmpdata a b = 0 \<longleftrightarrow> a = b"
    by (simp add: dm_strcmpdata_def strcmp_eq_0_iff)
  show "0 < dm_strcmpdata a b \<longleftrightarrow> dm_strcmpdata b a < 0"
    using strcmp_sym [of b a] by (simp add: dm_strcmpdata_def)
  show "dm_strcmpdata a b < 0 \<Longrightarrow> dm_strcmpdata b c < 0 \<Longrightarrow> dm_strcmpdata a c < 0"
    unfolding dm_strcmpdata_def by (rule strcmp_trans)
qed

lemma ucmp_less [simp]: "ucmp a b < 0 \<longleftrightarrow> a < b"
  by (auto simp: ucmp_def)

lemma ucmpdata_less [simp]: "ucmpdata a b < 0 \<longleftrightarrow> a < b"
  by (simp add: ucmpdata_def)

lemma ucmp_sorted_iff: "tree_sorted ucmp t \<longleftrightarrow> sorted_wrt (<) (map fst t)"
  by (simp add: tree_sorted_def sorted_wrt_map)

section \<open>Properties\<close>

text \<open>
  C5: \<open>g_tree_merge\<close> on two trees ordered by the same comparison function computes the boolean
  combination of the sets of keys, keeps the trees ordered, and moves each node of \<open>b\<close> that
  enters \<open>a\<close> out of \<open>b\<close>: AND keeps the keys of \<open>a\<close> that are in \<open>b\<close>, OR adds the missing keys
  of \<open>b\<close> and keeps the values of \<open>a\<close>, NOT leaves the keys that are in exactly one of them.
\<close>

theorem g_tree_merge_boolean:
  assumes "key_order cmp" "tree_sorted cmp a" "tree_sorted cmp b"
  shows "(\<exists>a'. g_tree_merge cmp a b IST_SUBSEARCH_AND = (0, a', b) \<and> tree_sorted cmp a' \<and>
            map_of a' = map_of a |` dom (map_of b)) \<and>
         (\<exists>a' b'. g_tree_merge cmp a b IST_SUBSEARCH_OR = (0, a', b') \<and>
            tree_sorted cmp a' \<and> tree_sorted cmp b' \<and>
            map_of a' = map_of b ++ map_of a \<and> map_of b' = map_of b |` dom (map_of a)) \<and>
         (\<exists>a' b'. g_tree_merge cmp a b IST_SUBSEARCH_NOT = (0, a', b') \<and>
            tree_sorted cmp a' \<and> tree_sorted cmp b' \<and>
            map_of a' = (map_of a |` (- dom (map_of b))) ++ (map_of b |` (- dom (map_of a))) \<and>
            map_of b' = map_of b |` dom (map_of a))"
proof (intro conjI)
  show "\<exists>a'. g_tree_merge cmp a b IST_SUBSEARCH_AND = (0, a', b) \<and> tree_sorted cmp a' \<and>
      map_of a' = map_of a |` dom (map_of b)"
    using key_order.merge_AND [OF assms] by metis
  show "\<exists>a' b'. g_tree_merge cmp a b IST_SUBSEARCH_OR = (0, a', b') \<and>
      tree_sorted cmp a' \<and> tree_sorted cmp b' \<and>
      map_of a' = map_of b ++ map_of a \<and> map_of b' = map_of b |` dom (map_of a)"
    using key_order.merge_OR [OF assms] by metis
  show "\<exists>a' b'. g_tree_merge cmp a b IST_SUBSEARCH_NOT = (0, a', b') \<and>
      tree_sorted cmp a' \<and> tree_sorted cmp b' \<and>
      map_of a' = (map_of a |` (- dom (map_of b))) ++ (map_of b |` (- dom (map_of a))) \<and>
      map_of b' = map_of b |` dom (map_of a)"
    using key_order.merge_NOT [OF assms] by metis
qed

theorem g_tree_merge_boolean_witness:
  "tree_sorted ucmp [(1, ''x''), (3, ''y'')] \<and> tree_sorted ucmp [(2, ''u''), (3, ''v'')] \<and>
   (\<exists>a'. g_tree_merge ucmp [(1, ''x''), (3, ''y'')] [(2, ''u''), (3, ''v'')] IST_SUBSEARCH_AND =
           (0, a', [(2, ''u''), (3, ''v'')]) \<and> tree_sorted ucmp a' \<and>
         map_of a' = map_of [(1, ''x''), (3, ''y'')] |` dom (map_of [(2, ''u''), (3, ''v'')]))"
  using g_tree_merge_boolean [OF ucmp_order.key_order_axioms,
      of "[(1, ''x''), (3, ''y'')]" "[(2, ''u''), (3, ''v'')]"]
  by (simp add: tree_sorted_def)

end
