(* ===== verification/Sset.thy ===== *)
theory Sset
  imports GTree
begin

text \<open>
  The sorted sets of \<open>src/src/dm_sset.c\<close>: a \<open>GTree\<close> whose keys are its values, ordered by the
  comparison function in the struct. The elements are compared and copied by value, so an
  element is the value its memory block holds.
\<close>

section \<open>Operations\<close>

record 'a sset =
  root :: "('a, 'a) gtree"
  sset_cmp :: "'a \<Rightarrow> 'a \<Rightarrow> int"
  sset_size :: nat

definition compare_data :: "'a \<Rightarrow> 'a \<Rightarrow> 'a sset \<Rightarrow> int" where
  "compare_data a b S = sset_cmp S a b"

definition Sset_new :: "('a \<Rightarrow> 'a \<Rightarrow> int) \<Rightarrow> nat \<Rightarrow> 'a sset option" where
  "Sset_new c n = (if 0 < n then Some \<lparr>root = [], sset_cmp = c, sset_size = n\<rparr> else None)"

definition Sset_has :: "'a sset \<Rightarrow> 'a \<Rightarrow> bool" where
  "Sset_has S a \<longleftrightarrow> g_tree_lookup (\<lambda>x y. compare_data x y S) (root S) a \<noteq> None"

definition Sset_add :: "'a sset \<Rightarrow> 'a \<Rightarrow> 'a sset" where
  "Sset_add S a =
     (if \<not> Sset_has S a
      then S\<lparr>root := g_tree_insert (\<lambda>x y. compare_data x y S) (root S) a a\<rparr> else S)"

definition Sset_len :: "'a sset \<Rightarrow> nat" where
  "Sset_len S = g_tree_nnodes (root S)"

definition Sset_del :: "'a sset \<Rightarrow> 'a \<Rightarrow> 'a sset" where
  "Sset_del S a =
     (if g_tree_lookup (\<lambda>x y. compare_data x y S) (root S) a \<noteq> None
      then S\<lparr>root := g_tree_remove (\<lambda>x y. compare_data x y S) (root S) a\<rparr> else S)"

definition mapper :: "('a \<Rightarrow> 's \<Rightarrow> bool \<times> 's) \<Rightarrow> 'a \<Rightarrow> 'a \<Rightarrow> 's \<Rightarrow> bool \<times> 's" where
  "mapper func key val data = func key data"

definition Sset_map :: "'a sset \<Rightarrow> ('a \<Rightarrow> 's \<Rightarrow> bool \<times> 's) \<Rightarrow> 's \<Rightarrow> 's" where
  "Sset_map S func data = g_tree_foreach (root S) (mapper func) data"

definition sset_copy :: "'a \<Rightarrow> 'a sset \<Rightarrow> bool \<times> 'a sset" where
  "sset_copy a t = (False, if \<not> Sset_has t a then Sset_add t a else t)"

definition Sset_or :: "'a sset \<Rightarrow> 'a sset \<Rightarrow> 'a sset option" where
  "Sset_or a b =
     do {
       c \<leftarrow> Sset_new (sset_cmp a) (sset_size a);
       Some (Sset_map b sset_copy (Sset_map a sset_copy c))
     }"

record 'a sset_match_helper =
  helper_i :: "'a sset"
  helper_o :: "'a sset"

definition sset_match_and :: "'a \<Rightarrow> 'a sset_match_helper \<Rightarrow> bool \<times> 'a sset_match_helper" where
  "sset_match_and a m =
     (False, if Sset_has (helper_i m) a then m\<lparr>helper_o := Sset_add (helper_o m) a\<rparr> else m)"

definition Sset_and :: "'a sset \<Rightarrow> 'a sset \<Rightarrow> 'a sset option" where
  "Sset_and a b =
     do {
       c \<leftarrow> Sset_new (sset_cmp a) (sset_size a);
       let (s, i) = (if Sset_len a < Sset_len b then (a, b) else (b, a));
       Some (helper_o (Sset_map s sset_match_and \<lparr>helper_i = i, helper_o = c\<rparr>))
     }"

definition sset_match_not :: "'a \<Rightarrow> 'a sset_match_helper \<Rightarrow> bool \<times> 'a sset_match_helper" where
  "sset_match_not a m =
     (False, if \<not> Sset_has (helper_i m) a then m\<lparr>helper_o := Sset_add (helper_o m) a\<rparr> else m)"

definition Sset_not :: "'a sset \<Rightarrow> 'a sset \<Rightarrow> 'a sset option" where
  "Sset_not a b =
     do {
       c \<leftarrow> Sset_new (sset_cmp a) (sset_size a);
       Some (helper_o (Sset_map a sset_match_not \<lparr>helper_i = b, helper_o = c\<rparr>))
     }"

definition Sset_xor :: "'a sset \<Rightarrow> 'a sset \<Rightarrow> 'a sset option" where
  "Sset_xor a b =
     do {
       c \<leftarrow> Sset_new (sset_cmp a) (sset_size a);
       let h = Sset_map a sset_match_not \<lparr>helper_i = b, helper_o = c\<rparr>;
       Some (helper_o (Sset_map b sset_match_not (h\<lparr>helper_i := a\<rparr>)))
     }"

section \<open>The set interface\<close>

text \<open>What the set operations rely on: membership and insertion on well-formed sets.\<close>

locale element_set =
  fixes invar :: "'s \<Rightarrow> bool"
    and elems :: "'s \<Rightarrow> 'a set"
    and has :: "'s \<Rightarrow> 'a \<Rightarrow> bool"
    and add :: "'s \<Rightarrow> 'a \<Rightarrow> 's"
    and del :: "'s \<Rightarrow> 'a \<Rightarrow> 's"
  assumes has_law: "invar S \<Longrightarrow> has S a \<longleftrightarrow> a \<in> elems S"
    and add_law: "invar S \<Longrightarrow> invar (add S a) \<and> elems (add S a) = insert a (elems S)"
    and del_law: "invar S \<Longrightarrow> invar (del S a) \<and> elems (del S a) = elems S - {a}"
begin

lemma fold_add_law:
  "invar S \<Longrightarrow>
     invar (fold (\<lambda>a S. if P a then add S a else S) xs S) \<and>
     elems (fold (\<lambda>a S. if P a then add S a else S) xs S) = elems S \<union> {a \<in> set xs. P a}"
  by (induction xs arbitrary: S) (auto simp: add_law)

lemma add_then_has: "invar S \<Longrightarrow> has (add S a) b \<longleftrightarrow> b = a \<or> has S b"
  by (simp add: has_law add_law)

lemma del_then_has: "invar S \<Longrightarrow> has (del S a) b \<longleftrightarrow> b \<noteq> a \<and> has S b"
  by (auto simp: has_law del_law)

end

definition sset_elems :: "'a sset \<Rightarrow> 'a set" where
  "sset_elems S = set (map fst (root S))"

definition sset_ok :: "('a \<Rightarrow> 'a \<Rightarrow> int) \<Rightarrow> 'a sset \<Rightarrow> bool" where
  "sset_ok c S \<longleftrightarrow> sset_cmp S = c \<and> 0 < sset_size S \<and> tree_sorted c (root S)"

lemma dom_root: "sset_elems S = dom (map_of (root S))"
  by (simp add: sset_elems_def dom_map_of_conv_image_fst)

lemma Sset_map_fold:
  "(\<And>a s. f a s = (False, g a s)) \<Longrightarrow> Sset_map S f s = fold g (map fst (root S)) s"
  unfolding Sset_map_def
  by (subst foreach_no_stop [of "mapper f" "\<lambda>k v. g k"])
    (simp_all add: mapper_def fold_map comp_def case_prod_unfold)

context key_order
begin

lemma ok_compare [simp]: "sset_ok cmp S \<Longrightarrow> (\<lambda>x y. compare_data x y S) = cmp"
  by (simp add: sset_ok_def compare_data_def fun_eq_iff)

lemma Sset_has_ok: "sset_ok cmp S \<Longrightarrow> Sset_has S a \<longleftrightarrow> a \<in> sset_elems S"
  by (auto simp: Sset_has_def dom_root lookup_map_of sset_ok_def [of cmp])

lemma Sset_add_ok:
  "sset_ok cmp S \<Longrightarrow> sset_ok cmp (Sset_add S a) \<and> sset_elems (Sset_add S a) = insert a (sset_elems S)"
  by (auto simp: Sset_add_def Sset_has_ok dom_root tree_simps sset_ok_def [of cmp])

lemma Sset_del_ok:
  "sset_ok cmp S \<Longrightarrow> sset_ok cmp (Sset_del S a) \<and> sset_elems (Sset_del S a) = sset_elems S - {a}"
  by (auto simp: Sset_del_def dom_root tree_simps sset_ok_def [of cmp])

lemma Sset_new_ok:
  "0 < n \<Longrightarrow> \<exists>S. Sset_new cmp n = Some S \<and> sset_ok cmp S \<and> sset_elems S = {}"
  by (simp add: Sset_new_def sset_ok_def sset_elems_def tree_sorted_def)

end

sublocale key_order \<subseteq> eset: element_set "sset_ok cmp" sset_elems Sset_has Sset_add Sset_del
  by unfold_locales (simp_all add: Sset_has_ok Sset_add_ok Sset_del_ok)

context key_order
begin

lemma map_copy:
  assumes "sset_ok cmp t"
  shows "sset_ok cmp (Sset_map S sset_copy t) \<and>
         sset_elems (Sset_map S sset_copy t) = sset_elems S \<union> sset_elems t"
proof -
  have copy: "sset_copy a t = (False, Sset_add t a)" for a and t :: "'k sset"
    by (simp add: sset_copy_def Sset_add_def)
  have "Sset_map S sset_copy t = fold (\<lambda>a t. if True then Sset_add t a else t) (map fst (root S)) t"
    by (simp add: Sset_map_fold [OF copy])
  then show ?thesis
    using eset.fold_add_law [OF assms, of "\<lambda>_. True" "map fst (root S)"]
    by (auto simp: sset_elems_def)
qed

text \<open>The two filtering traversals, with the set that is consulted fixed.\<close>

lemma map_match:
  assumes "sset_ok cmp i" "sset_ok cmp t"
    and f: "f = sset_match_and \<and> P = (\<lambda>a. a \<in> sset_elems i) \<or>
            f = sset_match_not \<and> P = (\<lambda>a. a \<notin> sset_elems i)"
  shows "\<exists>t'. Sset_map S f \<lparr>helper_i = i, helper_o = t\<rparr> = \<lparr>helper_i = i, helper_o = t'\<rparr> \<and>
           sset_ok cmp t' \<and> sset_elems t' = sset_elems t \<union> {a \<in> sset_elems S. P a}"
proof -
  let ?g = "\<lambda>a m. snd (f a m)"
  have P: "snd (f a \<lparr>helper_i = i, helper_o = u\<rparr>) =
      \<lparr>helper_i = i, helper_o = (if P a then Sset_add u a else u)\<rparr>" for a u
    using f Sset_has_ok [OF assms(1)] by (auto simp: sset_match_and_def sset_match_not_def)
  have "fold ?g xs \<lparr>helper_i = i, helper_o = t\<rparr> =
      \<lparr>helper_i = i, helper_o = fold (\<lambda>a u. if P a then Sset_add u a else u) xs t\<rparr>" for xs
    by (induction xs arbitrary: t) (simp_all add: P)
  moreover have "Sset_map S f m = fold ?g (map fst (root S)) m" for m
    using f by (intro Sset_map_fold) (auto simp: sset_match_and_def sset_match_not_def)
  ultimately show ?thesis
    using eset.fold_add_law [OF assms(2), of P "map fst (root S)"]
    by (auto simp: sset_elems_def)
qed

lemma new_like:
  "sset_ok cmp a \<Longrightarrow>
     \<exists>c. Sset_new (sset_cmp a) (sset_size a) = Some c \<and> sset_ok cmp c \<and> sset_elems c = {}"
  using Sset_new_ok [of "sset_size a"] by (simp add: sset_ok_def)

lemma Sset_or_ok:
  assumes "sset_ok cmp a"
  shows "\<exists>c. Sset_or a b = Some c \<and> sset_ok cmp c \<and> sset_elems c = sset_elems a \<union> sset_elems b"
proof -
  obtain c where c: "Sset_new (sset_cmp a) (sset_size a) = Some c" "sset_ok cmp c" "sset_elems c = {}"
    using new_like [OF assms] by blast
  have 1: "sset_ok cmp (Sset_map a sset_copy c)"
      "sset_elems (Sset_map a sset_copy c) = sset_elems a"
    using map_copy [OF c(2)] c(3) by auto
  show ?thesis
    using map_copy [OF 1(1), of b] 1(2) c(1) by (auto simp: Sset_or_def)
qed

lemma Sset_and_ok:
  assumes "sset_ok cmp a" "sset_ok cmp b"
  shows "\<exists>c. Sset_and a b = Some c \<and> sset_ok cmp c \<and> sset_elems c = sset_elems a \<inter> sset_elems b"
proof -
  obtain c where c: "Sset_new (sset_cmp a) (sset_size a) = Some c" "sset_ok cmp c" "sset_elems c = {}"
    using new_like [OF assms(1)] by blast
  define s i where "s = (if Sset_len a < Sset_len b then a else b)"
    and "i = (if Sset_len a < Sset_len b then b else a)"
  have "sset_ok cmp i" using assms by (simp add: i_def)
  then obtain t where "Sset_map s sset_match_and \<lparr>helper_i = i, helper_o = c\<rparr> =
        \<lparr>helper_i = i, helper_o = t\<rparr>" "sset_ok cmp t"
      "sset_elems t = {x \<in> sset_elems s. x \<in> sset_elems i}"
    using map_match [of i c sset_match_and "\<lambda>x. x \<in> sset_elems i" s] c by auto
  then show ?thesis
    using c(1) by (auto simp: Sset_and_def s_def i_def split: if_splits)
qed

lemma Sset_not_ok:
  assumes "sset_ok cmp a" "sset_ok cmp b"
  shows "\<exists>c. Sset_not a b = Some c \<and> sset_ok cmp c \<and> sset_elems c = sset_elems a - sset_elems b"
proof -
  obtain c where c: "Sset_new (sset_cmp a) (sset_size a) = Some c" "sset_ok cmp c" "sset_elems c = {}"
    using new_like [OF assms(1)] by blast
  then obtain t where "Sset_map a sset_match_not \<lparr>helper_i = b, helper_o = c\<rparr> =
        \<lparr>helper_i = b, helper_o = t\<rparr>" "sset_ok cmp t"
      "sset_elems t = {x \<in> sset_elems a. x \<notin> sset_elems b}"
    using map_match [of b c sset_match_not "\<lambda>x. x \<notin> sset_elems b" a] assms by auto
  then show ?thesis
    using c(1) by (auto simp: Sset_not_def)
qed

lemma Sset_xor_ok:
  assumes "sset_ok cmp a" "sset_ok cmp b"
  shows "\<exists>c. Sset_xor a b = Some c \<and> sset_ok cmp c \<and>
           sset_elems c = (sset_elems a - sset_elems b) \<union> (sset_elems b - sset_elems a)"
proof -
  obtain c where c: "Sset_new (sset_cmp a) (sset_size a) = Some c" "sset_ok cmp c" "sset_elems c = {}"
    using new_like [OF assms(1)] by blast
  then obtain t where t: "Sset_map a sset_match_not \<lparr>helper_i = b, helper_o = c\<rparr> =
        \<lparr>helper_i = b, helper_o = t\<rparr>" "sset_ok cmp t"
      "sset_elems t = {x \<in> sset_elems a. x \<notin> sset_elems b}"
    using map_match [of b c sset_match_not "\<lambda>x. x \<notin> sset_elems b" a] assms by auto
  then obtain u where "Sset_map b sset_match_not \<lparr>helper_i = a, helper_o = t\<rparr> =
        \<lparr>helper_i = a, helper_o = u\<rparr>" "sset_ok cmp u"
      "sset_elems u = sset_elems t \<union> {x \<in> sset_elems b. x \<notin> sset_elems a}"
    using map_match [of a t sset_match_not "\<lambda>x. x \<notin> sset_elems a" b] assms by auto
  then show ?thesis
    using c(1) t by (auto simp: Sset_xor_def)
qed

lemma Sset_len_ok: "sset_ok cmp S \<Longrightarrow> Sset_len S = card (sset_elems S)"
  using sorted_distinct [of "root S"] distinct_card [of "map fst (root S)"]
  by (simp add: Sset_len_def g_tree_nnodes_def sset_elems_def sset_ok_def)

end

section \<open>Properties\<close>

text \<open>
  C9: on two sorted sets over the same comparison function, \<open>Sset_or\<close>, \<open>Sset_and\<close>, \<open>Sset_not\<close>
  and \<open>Sset_xor\<close> return well-formed sets with the elements of the union, intersection,
  difference and symmetric difference, and \<open>Sset_len\<close> counts the elements.
\<close>

theorem sset_algebra:
  assumes "key_order cmp" "sset_ok cmp a" "sset_ok cmp b"
  shows "(\<exists>c. Sset_or a b = Some c \<and> sset_ok cmp c \<and> sset_elems c = sset_elems a \<union> sset_elems b) \<and>
         (\<exists>c. Sset_and a b = Some c \<and> sset_ok cmp c \<and> sset_elems c = sset_elems a \<inter> sset_elems b) \<and>
         (\<exists>c. Sset_not a b = Some c \<and> sset_ok cmp c \<and> sset_elems c = sset_elems a - sset_elems b) \<and>
         (\<exists>c. Sset_xor a b = Some c \<and> sset_ok cmp c \<and>
            sset_elems c = (sset_elems a - sset_elems b) \<union> (sset_elems b - sset_elems a)) \<and>
         Sset_len a = card (sset_elems a)"
  using key_order.Sset_or_ok [OF assms(1,2)] key_order.Sset_and_ok [OF assms]
    key_order.Sset_not_ok [OF assms] key_order.Sset_xor_ok [OF assms]
    key_order.Sset_len_ok [OF assms(1,2)]
  by blast

theorem sset_algebra_witness:
  "sset_ok ucmp \<lparr>root = [(1, 1), (4, 4)], sset_cmp = ucmp, sset_size = 8\<rparr> \<and>
   (\<exists>c. Sset_xor \<lparr>root = [(1, 1), (4, 4)], sset_cmp = ucmp, sset_size = 8\<rparr>
          \<lparr>root = [(2, 2), (4, 4)], sset_cmp = ucmp, sset_size = 8\<rparr> = Some c \<and>
        sset_ok ucmp c \<and> sset_elems c = {1, 2})"
proof -
  have "sset_ok ucmp \<lparr>root = [(1, 1), (4, 4)], sset_cmp = ucmp, sset_size = 8\<rparr>"
    "sset_ok ucmp \<lparr>root = [(2, 2), (4, 4)], sset_cmp = ucmp, sset_size = 8\<rparr>"
    by (simp_all add: sset_ok_def tree_sorted_def)
  from this(1) sset_algebra [OF ucmp_order.key_order_axioms this] show ?thesis
    by (simp add: sset_elems_def insert_commute insert_Diff_if)
qed

end
