(* ===== verification/Names.thy ===== *)
theory Names
  imports CString
begin

text \<open>
  The syntactic helpers of \<open>src/src/dm_misc.c\<close>: mailbox namespaces and names, bounded
  substrings, dates, message sets and format strings. A C string is the list of its characters
  without the terminating NUL; pointers into it are offsets.
\<close>

section \<open>Namespaces\<close>

definition NAMESPACE_USER :: string where
  "NAMESPACE_USER = ''#Users''"

definition NAMESPACE_PUBLIC :: string where
  "NAMESPACE_PUBLIC = ''#Public''"

definition MAILBOX_SEPARATOR :: string where
  "MAILBOX_SEPARATOR = ''/''"

definition PUBLIC_FOLDER_USER :: string where
  "PUBLIC_FOLDER_USER = ''__public__''"

lemmas namespace_defs =
  NAMESPACE_USER_def NAMESPACE_PUBLIC_def MAILBOX_SEPARATOR_def PUBLIC_FOLDER_USER_def

text \<open>\<open>auth_get_userid\<close> is the lookup of a user name in the authentication backend.\<close>

definition mailbox_add_namespace ::
  "(u64 \<Rightarrow> string option) \<Rightarrow> string option \<Rightarrow> u64 \<Rightarrow> u64 \<Rightarrow> string option" where
  "mailbox_add_namespace auth_get_userid mailbox_name owner_idnr user_idnr =
     (case mailbox_name of
        None \<Rightarrow> None
      | Some name \<Rightarrow>
          if user_idnr = owner_idnr then Some name
          else (case auth_get_userid owner_idnr of
                  None \<Rightarrow> None
                | Some owner \<Rightarrow>
                    Some (if strcmp owner PUBLIC_FOLDER_USER = 0
                          then NAMESPACE_PUBLIC @ MAILBOX_SEPARATOR @ name
                          else NAMESPACE_USER @ MAILBOX_SEPARATOR @ owner @
                                 MAILBOX_SEPARATOR @ name)))"

text \<open>
  The state machine of \<open>mailbox_remove_namespace\<close>: \<open>user\<close> and \<open>mbox\<close> are offsets into the
  name, \<open>t\<close> is the offset of \<open>temp\<close>.
\<close>

function ns_scan ::
  "string \<Rightarrow> nat \<Rightarrow> nat option \<Rightarrow> nat option \<Rightarrow> nat \<Rightarrow> nat option \<times> nat option \<times> nat" where
  "ns_scan s t user mbox slash =
     (if length s \<le> t then (user, mbox, slash)
      else if s ! t = CHR ''/''
      then (if user = None then ns_scan s (t + 1) (Some (t + 1)) mbox slash
            else if mbox = None
            then ns_scan s (t + 1) user
                   (if t + 1 < length s \<and> s ! (t + 1) \<noteq> CHR ''/'' then Some (t + 1) else None) 1
            else (user, mbox, slash))
      else if s ! t = CHR ''*'' then ns_scan s (t + 1) user (Some t) slash
      else if s ! t = CHR ''%'' then ns_scan s (t + 1) user (Some t) slash
      else ns_scan s (t + 1) user mbox slash)"
  by pat_completeness auto
termination
  by (relation "measure (\<lambda>(s, t, _). length s - t)") auto

declare ns_scan.simps [simp del]

record ns_parts =
  ns_name :: "string option"
  ns_namespace :: "string option"
  ns_username :: "string option"

text \<open>
  \<open>g_strndup (user, mbox - user - slash)\<close> with a negative length asks for more memory than
  there is and aborts; that outcome is \<open>None\<close>.
\<close>

definition mailbox_remove_namespace :: "string \<Rightarrow> ns_parts option" where
  "mailbox_remove_namespace name =
     (let fq_name = rev (dropWhile (\<lambda>c. c = CHR ''/'') (rev name))
      in if length NAMESPACE_USER \<le> length fq_name \<and>
            strncaseeq (length NAMESPACE_USER) fq_name NAMESPACE_USER
         then (case ns_scan fq_name (length NAMESPACE_USER) None None 0 of
                 (user, mbox, slash) \<Rightarrow>
                   (case mbox of
                      None \<Rightarrow> Some \<lparr>ns_name = None, ns_namespace = Some NAMESPACE_USER, ns_username = None\<rparr>
                    | Some m \<Rightarrow>
                        (case user of
                           None \<Rightarrow> Some \<lparr>ns_name = Some (drop m fq_name),
                                     ns_namespace = Some NAMESPACE_USER, ns_username = None\<rparr>
                         | Some u \<Rightarrow>
                             if m < length fq_name \<and> u + slash = m
                             then Some \<lparr>ns_name = Some (drop m fq_name),
                                    ns_namespace = Some NAMESPACE_USER, ns_username = None\<rparr>
                             else if m < u + slash then None
                             else Some \<lparr>ns_name = Some (drop m fq_name),
                                    ns_namespace = Some NAMESPACE_USER,
                                    ns_username = Some (take (m - u - slash) (drop u fq_name))\<rparr>)))
         else if length NAMESPACE_PUBLIC \<le> length fq_name \<and>
                 strncaseeq (length NAMESPACE_PUBLIC) fq_name NAMESPACE_PUBLIC
         then Some \<lparr>ns_name = Some (if length NAMESPACE_PUBLIC < length fq_name \<and>
                                      fq_name ! length NAMESPACE_PUBLIC = CHR ''/''
                                   then drop (length NAMESPACE_PUBLIC + 1) fq_name
                                   else drop (length NAMESPACE_PUBLIC) fq_name),
                ns_namespace = Some NAMESPACE_PUBLIC,
                ns_username = Some PUBLIC_FOLDER_USER\<rparr>
         else Some \<lparr>ns_name = Some fq_name, ns_namespace = None, ns_username = None\<rparr>)"

section \<open>Bounded substrings\<close>

text \<open>The character at an offset; at the end it is the terminating NUL.\<close>

definition at :: "string \<Rightarrow> nat \<Rightarrow> char" where
  "at s i = (if i < length s then s ! i else nul)"

function bound_left :: "string \<Rightarrow> char \<Rightarrow> nat \<Rightarrow> nat \<Rightarrow> nat" where
  "bound_left s c l r = (if at s l \<noteq> c \<and> l < r then bound_left s c (l + 1) r else l)"
  by pat_completeness auto
termination
  by (relation "measure (\<lambda>(s, c, l, r). r - l)") auto

fun bound_right :: "string \<Rightarrow> char \<Rightarrow> nat \<Rightarrow> nat \<Rightarrow> nat" where
  "bound_right s c l r = (if at s r \<noteq> c \<and> l < r then bound_right s c l (r - 1) else r)"

declare bound_left.simps [simp del]
declare bound_right.simps [simp del]

text \<open>The return value with \<open>retchar\<close>, \<open>retsize\<close> and \<open>retlast\<close>.\<close>

definition find_bounded :: "string \<Rightarrow> char \<Rightarrow> char \<Rightarrow> int \<times> string option \<times> nat \<times> nat" where
  "find_bounded s left right =
     (let l = bound_left s left 0 (length s);
          r = bound_right s right l (length s)
      in if at s l \<noteq> left \<or> at s r \<noteq> right then (- 1, None, 0, 0)
         else let l' = (if r \<noteq> l then l + 1 else l);
                  tmplen = r - l'
              in (int r, Some (take tmplen (drop l' s)), tmplen, r))"

text \<open>
  The copy \<open>incopy\<close> of \<open>zap_between\<close> is a block with the string and its NUL; a negative
  bound asks to clip that bound too. The result is \<open>None\<close> when \<open>memmove\<close> leaves the block.
\<close>

definition zap_between :: "string \<Rightarrow> int \<Rightarrow> int \<Rightarrow> (int \<times> (string \<times> nat \<times> int) option) option" where
  "zap_between instring left right =
     (let incopy = instring @ [nul];
          clipleft = left < 0;
          clipright = right < 0
      in case (strchr instring (char_of (nat \<bar>left\<bar>)), strrchr instring (char_of (nat \<bar>right\<bar>))) of
           (Some start, Some end') \<Rightarrow>
             let start = (if \<not> clipleft then start + 1 else start);
                 end' = (if clipright then end' + 1 else end')
             in do {
                  blk \<leftarrow> mem_write incopy start (drop end' incopy);
                  Some (0, Some (c_str blk, length (c_str blk), int end' - int start))
                }
         | _ \<Rightarrow> Some (- 1, None))"

section \<open>Syntax checks\<close>

definition AcceptedMailboxnameChars :: string where
  "AcceptedMailboxnameChars =
     ''abcdefghijklmnopqrstuvwxyz'' @ ''ABCDEFGHIJKLMNOPQRSTUVWXYZ'' @
     ''0123456789-=/ _.&,+@()[]'' @ [CHR 0x27, CHR ''#'']"

definition IMAP_MAX_MAILBOX_NAMELEN :: nat where
  "IMAP_MAX_MAILBOX_NAMELEN = 255"

definition accepted_char :: "nat \<Rightarrow> string \<Rightarrow> bool" where
  "accepted_char i s \<longleftrightarrow>
     s ! i \<in> set AcceptedMailboxnameChars \<or> (i = 0 \<and> s ! 0 = CHR ''#'')"

definition checkmailboxname :: "string \<Rightarrow> bool" where
  "checkmailboxname s \<longleftrightarrow>
     length s \<noteq> 0 \<and> length s < IMAP_MAX_MAILBOX_NAMELEN \<and>
     list_all (\<lambda>i. accepted_char i s) [0..<length s] \<and>
     list_all (\<lambda>i. \<not> (s ! i = CHR ''/'' \<and> s ! (i - 1) = CHR ''/'')) [1..<length s] \<and>
     \<not> (length s = 1 \<and> s ! 0 = CHR ''/'')"

definition dm_valid_format :: "string \<Rightarrow> int" where
  "dm_valid_format str =
     (case (strchr str CHR ''%'', strrchr str CHR ''%'') of
        (Some l, Some r) \<Rightarrow>
          if l \<noteq> r then DM_EGENERAL
          else if at str (l + 1) \<noteq> CHR ''s'' then DM_EGENERAL
          else DM_SUCCESS
      | _ \<Rightarrow> DM_EGENERAL)"

definition month_desc :: "string list" where
  "month_desc = [''Jan'', ''Feb'', ''Mar'', ''Apr'', ''May'', ''Jun'',
                 ''Jul'', ''Aug'', ''Sep'', ''Oct'', ''Nov'', ''Dec'']"

definition month_len :: "int list" where
  "month_len = [31, 29, 31, 30, 31, 30, 31, 31, 30, 31, 30, 31]"

text \<open>The first index whose month name matches; 12 when there is none.\<close>

definition month_index :: "string \<Rightarrow> nat" where
  "month_index sub = length (takeWhile (\<lambda>m. \<not> strcaseeq m sub) month_desc)"

definition STRLEN_MINDATA :: nat where
  "STRLEN_MINDATA = 11"

definition check_date :: "string \<Rightarrow> bool" where
  "check_date date =
     (let l = length date
      in if l \<noteq> STRLEN_MINDATA \<and> l \<noteq> STRLEN_MINDATA - 1 then False
         else let j = (if l = STRLEN_MINDATA then 0 else 1)
              in if date ! (2 - j) \<noteq> CHR ''-'' \<or> date ! (6 - j) \<noteq> CHR ''-'' then False
                 else let days = sint (ucast (fst (strtoull date)) :: 32 word);
                          i = month_index (take 3 (drop (3 - j) date))
                      in if 12 \<le> i \<or> month_len ! i < days then False
                         else list_all (\<lambda>k. isdigit (date ! (k - j))) [7..<11])"

fun msg_set_loop :: "string \<Rightarrow> bool \<Rightarrow> bool" where
  "msg_set_loop [] indigit = True"
| "msg_set_loop (c # s) indigit =
     (if isdigit c \<or> c = CHR ''*'' then msg_set_loop s True
      else if c = CHR '','' then (if \<not> indigit then False else msg_set_loop s False)
      else if c = CHR '':'' then (if \<not> indigit then False else msg_set_loop s False)
      else False)"

definition check_msg_set :: "string option \<Rightarrow> bool" where
  "check_msg_set os =
     (case os of
        None \<Rightarrow> False
      | Some s \<Rightarrow> if \<not> isdigit (at s 0) \<and> at s 0 \<noteq> CHR ''*'' then False else msg_set_loop s False)"

section \<open>Numbers and splitting\<close>

text \<open>\<open>dm_strtoull\<close> returns the value and the end pointer.\<close>

definition dm_strtoull :: "string \<Rightarrow> u64 \<times> string" where
  "dm_strtoull nptr =
     (case strtoll nptr of (r, erange, rest) \<Rightarrow>
        if erange then (0, rest) else if r < 0 then (0, rest) else (word_of_int r, rest))"

definition g_string_split :: "string \<Rightarrow> char \<Rightarrow> string list" where
  "g_string_split s sep = (if length s = 0 then [] else g_strsplit sep s)"

section \<open>Lemmas on namespaces\<close>

lemma length_NAMESPACE_USER [simp]: "length NAMESPACE_USER = 6"
  by (simp add: NAMESPACE_USER_def)

lemma ns_scan_plain:
  assumes "t + length w \<le> length s" "take (length w) (drop t s) = w"
    and "set w \<inter> {CHR ''/'', CHR ''*'', CHR ''%''} = {}"
  shows "ns_scan s t user mbox slash = ns_scan s (t + length w) user mbox slash"
  using assms
proof (induction w arbitrary: t)
  case (Cons c w)
  then have t: "t < length s" "s ! t = c" "take (length w) (drop (Suc t) s) = w"
    by (simp_all add: Cons_nth_drop_Suc [symmetric])
  have "ns_scan s t user mbox slash = ns_scan s (Suc t) user mbox slash"
    using t Cons.prems(3) by (subst ns_scan.simps) auto
  also have "\<dots> = ns_scan s (Suc t + length w) user mbox slash"
    using Cons.prems t by (intro Cons.IH) auto
  finally show ?case by simp
qed simp

lemma ns_scan_done:
  assumes "set (drop t s) \<inter> {CHR ''*'', CHR ''%''} = {}"
  shows "ns_scan s t (Some u) (Some m) slash = (Some u, Some m, slash)"
  using assms
proof (induction "length s - t" arbitrary: t)
  case 0
  then show ?case by (subst ns_scan.simps) simp
next
  case (Suc n)
  then have t: "t < length s" by simp
  then have plain: "s ! t \<noteq> CHR ''*''" "s ! t \<noteq> CHR ''%''"
      "set (drop (Suc t) s) \<inter> {CHR ''*'', CHR ''%''} = {}"
    using Suc.prems by (auto simp: Cons_nth_drop_Suc [symmetric])
  have "ns_scan s (Suc t) (Some u) (Some m) slash = (Some u, Some m, slash)"
    using Suc.hyps(2) by (intro Suc.hyps(1) plain) simp
  with plain t show ?case by (subst ns_scan.simps) simp
qed

text \<open>Without wildcards the user part never ends behind the mailbox part.\<close>

lemma ns_scan_order:
  assumes "set (drop t s) \<inter> {CHR ''*'', CHR ''%''} = {}"
    and "\<forall>u. user = Some u \<longrightarrow> u \<le> t" "slash \<le> 1"
    and "ns_scan s t user None slash = (Some u, Some m, slash')"
  shows "u + slash' \<le> m"
  using assms
proof (induction "length s - t" arbitrary: t user slash)
  case 0
  then show ?case by (subst (asm) ns_scan.simps) simp
next
  case (Suc n)
  then have t: "t < length s" by simp
  then have in_s: "s ! t \<noteq> CHR ''*''" "s ! t \<noteq> CHR ''%''"
      and sub: "set (drop (Suc t) s) \<inter> {CHR ''*'', CHR ''%''} = {}"
    using Suc.prems(1) by (auto simp: Cons_nth_drop_Suc [symmetric])
  have n: "n = length s - Suc t" using Suc.hyps(2) by simp
  show ?case
  proof (cases "s ! t = CHR ''/''")
    case False
    then have "ns_scan s (Suc t) user None slash = (Some u, Some m, slash')"
      using Suc.prems(4) t in_s by (subst (asm) ns_scan.simps) simp
    then show ?thesis
      using Suc.hyps(1) [OF n sub _ Suc.prems(3)] Suc.prems(2) by (meson le_SucI)
  next
    case slash: True
    show ?thesis
    proof (cases user)
      case None
      then have "ns_scan s (Suc t) (Some (Suc t)) None slash = (Some u, Some m, slash')"
        using Suc.prems(4) t slash by (subst (asm) ns_scan.simps) simp
      then show ?thesis
        using Suc.hyps(1) [OF n sub _ Suc.prems(3), of "Some (Suc t)"] by simp
    next
      case (Some v)
      show ?thesis
      proof (cases "Suc t < length s \<and> s ! Suc t \<noteq> CHR ''/''")
        case True
        then have "ns_scan s (Suc t) (Some v) (Some (Suc t)) 1 = (Some u, Some m, slash')"
          using Suc.prems(4) t slash Some by (subst (asm) ns_scan.simps) simp
        then show ?thesis
          using ns_scan_done [OF sub, of v "Suc t" 1] Some Suc.prems(2) by auto
      next
        case False
        then have "ns_scan s (Suc t) user None 1 = (Some u, Some m, slash')"
          using Suc.prems(4) t slash Some by (subst (asm) ns_scan.simps) (auto split: if_splits)
        then show ?thesis
          using Suc.hyps(1) [OF n sub, of user 1] Suc.prems(2) Some by auto
      qed
    qed
  qed
qed

lemma rev_dropWhile_last: "s \<noteq> [] \<Longrightarrow> last s \<noteq> c \<Longrightarrow> rev (dropWhile (\<lambda>d. d = c) (rev s)) = s"
  by (cases s rule: rev_cases) auto

lemma ns_scan_user_name:
  fixes owner name :: string
  defines "s \<equiv> NAMESPACE_USER @ ''/'' @ owner @ ''/'' @ name"
  assumes "set owner \<inter> {CHR ''/'', CHR ''*'', CHR ''%''} = {}"
    and "name \<noteq> []" "hd name \<noteq> CHR ''/''" "set name \<inter> {CHR ''*'', CHR ''%''} = {}"
  shows "ns_scan s 6 None None 0 = (Some 7, Some (8 + length owner), 1)"
proof -
  have s6: "s ! 6 = CHR ''/''" "6 < length s"
    by (simp_all add: s_def NAMESPACE_USER_def)
  have "ns_scan s 6 None None 0 = ns_scan s 7 (Some 7) None 0"
    using s6 by (subst ns_scan.simps) simp
  also have "\<dots> = ns_scan s (7 + length owner) (Some 7) None 0"
    using assms(2) by (intro ns_scan_plain) (simp_all add: s_def NAMESPACE_USER_def)
  also have "\<dots> = ns_scan s (8 + length owner) (Some 7) (Some (8 + length owner)) 1"
  proof -
    have "s ! (7 + length owner) = CHR ''/''" "7 + length owner < length s"
        "8 + length owner < length s" "s ! (8 + length owner) = hd name"
      using assms(3) by (simp_all add: s_def NAMESPACE_USER_def nth_append hd_conv_nth numeral_eq_Suc)
    then show ?thesis using assms(4) by (subst ns_scan.simps) simp
  qed
  also have "\<dots> = (Some 7, Some (8 + length owner), 1)"
  proof (rule ns_scan_done)
    have "s = (NAMESPACE_USER @ ''/'' @ owner @ ''/'') @ name"
        "length (NAMESPACE_USER @ ''/'' @ owner @ ''/'') = 8 + length owner"
      by (simp_all add: s_def NAMESPACE_USER_def)
    then have "drop (8 + length owner) s = name" by (metis append_eq_conv_conj)
    then show "set (drop (8 + length owner) s) \<inter> {CHR ''*'', CHR ''%''} = {}"
      using assms(5) by simp
  qed
  finally show ?thesis .
qed

section \<open>Lemmas on bounded substrings\<close>

lemma bound_left_eq:
  assumes "c \<noteq> nul" "l \<le> length s"
  shows "bound_left s c l (length s) = l + length (takeWhile (\<lambda>d. d \<noteq> c) (drop l s))"
  using assms(2)
proof (induction "length s - l" arbitrary: l)
  case 0
  then show ?case by (subst bound_left.simps) simp
next
  case (Suc n)
  then have l: "l < length s" "drop l s = s ! l # drop (Suc l) s"
    by (simp_all add: Cons_nth_drop_Suc)
  show ?case
    using Suc.hyps(1) [of "Suc l"] Suc.hyps(2) l
    by (subst bound_left.simps) (simp add: at_def)
qed

lemma bound_left_strchr:
  "c \<noteq> nul \<Longrightarrow> bound_left s c 0 (length s) = (case strchr s c of None \<Rightarrow> length s | Some i \<Rightarrow> i)"
  by (simp add: bound_left_eq strchr_def)

lemma bound_right_eq:
  assumes "l \<le> r"
  shows "l \<le> bound_right s c l r \<and> bound_right s c l r \<le> r \<and>
         (bound_right s c l r = l \<or> at s (bound_right s c l r) = c) \<and>
         (\<forall>k. bound_right s c l r < k \<and> k \<le> r \<longrightarrow> at s k \<noteq> c)"
  using assms
proof (induction s c l r rule: bound_right.induct)
  case (1 s c l r)
  show ?case
  proof (cases "at s r \<noteq> c \<and> l < r")
    case True
    then have eq: "bound_right s c l r = bound_right s c l (r - 1)"
      by (subst bound_right.simps) simp
    define r' where "r' = bound_right s c l (r - 1)"
    have le: "l \<le> r - 1" using True by linarith
    from 1(1) [OF True le] have
      IH: "l \<le> r'" "r' \<le> r - 1" "r' = l \<or> at s r' = c" "\<forall>k. r' < k \<and> k \<le> r - 1 \<longrightarrow> at s k \<noteq> c"
      unfolding r'_def by blast+
    have "at s k \<noteq> c" if "r' < k" "k \<le> r" for k
      using IH(4) True that by (cases "k = r") auto
    with IH(1-3) show ?thesis unfolding eq r'_def [symmetric] by auto
  next
    case False
    then have "bound_right s c l r = r" by (subst bound_right.simps) auto
    with False 1 show ?thesis by auto
  qed
qed

lemma at_less [simp]: "i < length s \<Longrightarrow> at s i = s ! i"
  by (simp add: at_def)

lemma strrchr_eqI:
  assumes "c \<noteq> nul" "r \<le> length s" "at s r = c" "\<forall>k. r < k \<and> k \<le> length s \<longrightarrow> at s k \<noteq> c"
  shows "strrchr s c = Some r"
  unfolding strrchr_Some_iff
proof (intro conjI notI)
  show "r < length s" "s ! r = c" using assms(1-3) by (auto simp: at_def split: if_splits)
  assume "c \<in> set (drop (Suc r) s)"
  then obtain k where "k < length s - Suc r" "s ! (Suc r + k) = c"
    by (auto simp: in_set_conv_nth)
  moreover from this have "Suc r + k < length s" by linarith
  ultimately show False using assms(4) [rule_format, of "Suc r + k"] by simp
qed

lemma find_bounded_eq:
  assumes "left \<noteq> nul" "right \<noteq> nul"
  shows "find_bounded s left right =
           (case (strchr s left, strrchr s right) of
              (Some i, Some j) \<Rightarrow>
                if i \<le> j then (int j, Some (take (j - i - 1) (drop (i + 1) s)), j - i - 1, j)
                else (- 1, None, 0, 0)
            | _ \<Rightarrow> (- 1, None, 0, 0))"
proof (cases "strchr s left")
  case None
  then show ?thesis
    using assms(1) by (simp add: find_bounded_def bound_left_strchr at_def Let_def del: strchr_None_iff)
next
  case (Some i)
  then have i: "i < length s" "s ! i = left" by (auto simp: strchr_Some_iff)
  define r where "r = bound_right s right i (length s)"
  have r: "i \<le> r" "r \<le> length s" "r = i \<or> at s r = right"
      "\<forall>k. r < k \<and> k \<le> length s \<longrightarrow> at s k \<noteq> right"
    using bound_right_eq [of i "length s" s right] i(1) by (simp_all add: r_def)
  show ?thesis
  proof (cases "at s r = right")
    case True
    then have "strrchr s right = Some r"
      using r assms(2) by (intro strrchr_eqI)
    then show ?thesis
      using True Some i r(1) assms(1)
      by (simp add: find_bounded_def bound_left_strchr r_def [symmetric] Let_def)
  next
    case False
    then have "r = i" using r(3) by blast
    then have "j < i" if "strrchr s right = Some j" for j
      using that r(4) False i(1) by (metis at_less strrchr_Some_iff less_imp_le linorder_neqE_nat)
    then show ?thesis
      using False Some i assms(1)
      by (auto simp: find_bounded_def bound_left_strchr r_def [symmetric] Let_def split: option.splits)
  qed
qed

lemma zap_move:
  assumes "nul \<notin> set s" "start \<le> stop" "stop \<le> length s"
  shows "\<exists>blk. mem_write (s @ [nul]) start (drop stop (s @ [nul])) = Some blk \<and>
           c_str blk = take start s @ drop stop s"
proof -
  have nul: "nul \<notin> set (take start s @ drop stop s)"
    using assms(1) set_take_subset [of start s] set_drop_subset [of stop s] by auto
  have "mem_write (s @ [nul]) start (drop stop (s @ [nul])) =
      Some ((take start s @ drop stop s) @ nul # drop (start + length (drop stop (s @ [nul]))) (s @ [nul]))"
    using assms(2,3) by (simp add: mem_write_def)
  then show ?thesis
    using c_str_append_nul [OF nul] by blast
qed

lemma msg_set_loop_iff:
  "msg_set_loop s b \<longleftrightarrow>
     set s \<subseteq> {c. isdigit c} \<union> {CHR ''*'', CHR '','', CHR '':''} \<and>
     (\<not> b \<longrightarrow> s = [] \<or> hd s \<notin> {CHR '','', CHR '':''}) \<and>
     successively (\<lambda>c d. \<not> (c \<in> {CHR '','', CHR '':''} \<and> d \<in> {CHR '','', CHR '':''})) s"
proof (induction s arbitrary: b)
  case (Cons c s)
  have sep: "isdigit c \<or> c = CHR ''*'' \<Longrightarrow> c \<notin> {CHR '','', CHR '':''}"
    by (auto simp: ctype_defs)
  show ?case
    using sep Cons.IH by (auto simp: successively_Cons)
qed simp

section \<open>Properties\<close>

text \<open>
  C10: stripping the namespace that \<open>mailbox_add_namespace\<close> put in front of another user's
  mailbox gives back the mailbox, the namespace and the owner, for a non-empty owner name
  without slash or wildcard and a non-empty mailbox name without wildcard that neither starts
  nor ends with a slash.
\<close>

theorem namespace_round_trip:
  assumes "auth owner_idnr = Some owner" "user_idnr \<noteq> owner_idnr"
    and "owner \<noteq> PUBLIC_FOLDER_USER" "owner \<noteq> []"
    and "set owner \<inter> {CHR ''/'', CHR ''*'', CHR ''%''} = {}"
    and "name \<noteq> []" "hd name \<noteq> CHR ''/''" "last name \<noteq> CHR ''/''"
    and "set name \<inter> {CHR ''*'', CHR ''%''} = {}"
  shows "\<exists>fq. mailbox_add_namespace auth (Some name) owner_idnr user_idnr = Some fq \<and>
           mailbox_remove_namespace fq =
             Some \<lparr>ns_name = Some name, ns_namespace = Some NAMESPACE_USER, ns_username = Some owner\<rparr>"
proof -
  define fq where "fq = NAMESPACE_USER @ ''/'' @ owner @ ''/'' @ name"
  have add: "mailbox_add_namespace auth (Some name) owner_idnr user_idnr = Some fq"
    using assms(1-3) by (simp add: mailbox_add_namespace_def MAILBOX_SEPARATOR_def fq_def)
  have trim: "rev (dropWhile (\<lambda>c. c = CHR ''/'') (rev fq)) = fq"
    using assms(6,8) by (intro rev_dropWhile_last) (auto simp: fq_def)
  have scan: "ns_scan fq 6 None None 0 = (Some 7, Some (8 + length owner), 1)"
    unfolding fq_def by (rule ns_scan_user_name) (use assms(5-7,9) in auto)
  have len: "length fq = 8 + length owner + length name" "strncaseeq 6 fq NAMESPACE_USER"
    by (simp_all add: fq_def strncaseeq_def)
  have "fq = (NAMESPACE_USER @ ''/'' @ owner @ ''/'') @ name"
      "length (NAMESPACE_USER @ ''/'' @ owner @ ''/'') = 8 + length owner"
    by (simp_all add: fq_def)
  then have parts: "drop (8 + length owner) fq = name" "take (length owner) (drop 7 fq) = owner"
    by (metis append_eq_conv_conj) (simp add: fq_def)
  have "mailbox_remove_namespace fq =
      Some \<lparr>ns_name = Some name, ns_namespace = Some NAMESPACE_USER, ns_username = Some owner\<rparr>"
    unfolding mailbox_remove_namespace_def trim Let_def
    using scan len parts assms(4) by simp
  with add show ?thesis by blast
qed

theorem namespace_round_trip_witness:
  "\<exists>fq. mailbox_add_namespace (\<lambda>_. Some ''bob'') (Some ''a/b'') 5 7 = Some fq \<and>
     mailbox_remove_namespace fq =
       Some \<lparr>ns_name = Some ''a/b'', ns_namespace = Some NAMESPACE_USER, ns_username = Some ''bob''\<rparr>"
  using namespace_round_trip [of "\<lambda>_. Some ''bob''" 5 "''bob''" 7 "''a/b''"]
  by (simp add: PUBLIC_FOLDER_USER_def)

text \<open>
  For a name without wildcards \<open>mailbox_remove_namespace\<close> always returns: the length it
  passes to \<open>g_strndup\<close> is not negative.
\<close>

lemma remove_namespace_returns:
  assumes "set name \<inter> {CHR ''*'', CHR ''%''} = {}"
  shows "mailbox_remove_namespace name \<noteq> None"
proof -
  let ?s = "rev (dropWhile (\<lambda>c. c = CHR ''/'') (rev name))"
  have "set ?s \<subseteq> set name"
    using set_dropWhileD by fastforce
  then have "set (drop 6 ?s) \<inter> {CHR ''*'', CHR ''%''} = {}"
    using assms set_drop_subset by fastforce
  then have "u + slash \<le> m" if "ns_scan ?s 6 None None 0 = (Some u, Some m, slash)" for u m slash
    using ns_scan_order [of 6 ?s None 0 u m slash] that by simp
  then show ?thesis
    by (force simp: mailbox_remove_namespace_def Let_def split: option.splits prod.splits)
qed

lemma remove_namespace_returns_witness:
  "mailbox_remove_namespace ''#users//bob//'' \<noteq> None"
  by (rule remove_namespace_returns) simp


text \<open>
  \<open>find_bounded\<close> finds the text between the first left bound and the last right bound, and
  fails when the last right bound is missing or in front of the left one. The return value is
  the offset of the right bound.
\<close>

lemma find_bounded_correct:
  assumes "left \<noteq> nul" "right \<noteq> nul"
  shows "find_bounded s left right =
           (case (strchr s left, strrchr s right) of
              (Some i, Some j) \<Rightarrow>
                if i \<le> j then (int j, Some (take (j - i - 1) (drop (i + 1) s)), j - i - 1, j)
                else (- 1, None, 0, 0)
            | _ \<Rightarrow> (- 1, None, 0, 0))"
  by (rule find_bounded_eq [OF assms])

lemma find_bounded_correct_witness:
  "find_bounded ''a<b>c>'' CHR ''<'' CHR ''>'' = (5, Some ''b>c'', 3, 5)"
  by (subst find_bounded_correct) (simp_all add: strchr_def strrchr_def)

lemma char_codes: "char_of (43::nat) = CHR ''+''" "char_of (64::nat) = CHR ''@''"
  by code_simp+

text \<open>
  C11: when both bounds occur, \<open>zap_between\<close> deletes the text between them (with the clipped
  bounds) if the deletion starts at or before its end; otherwise its \<open>memmove\<close> writes past the
  end of the copy. \<open>address_has_alias_mailbox\<close> and \<open>address_is_username_mailbox\<close> call it with
  addresses from the network, in which the last \<open>@\<close> may precede the first \<open>+\<close>.
\<close>

theorem zap_between_safe_iff:
  assumes "nul \<notin> set s" "strchr s (char_of (nat \<bar>left\<bar>)) = Some i"
    and "strrchr s (char_of (nat \<bar>right\<bar>)) = Some j"
  shows "let start = (if left < 0 then i else i + 1); stop = (if right < 0 then j + 1 else j)
         in zap_between s left right =
              (if start \<le> stop
               then Some (0, Some (take start s @ drop stop s,
                      length (take start s @ drop stop s), int stop - int start))
               else None)"
proof -
  define start stop where "start = (if left < 0 then i else i + 1)"
    and "stop = (if right < 0 then j + 1 else j)"
  have le: "start \<le> length s" "stop \<le> length s"
    using assms(2,3) by (auto simp: strchr_Some_iff strrchr_Some_iff start_def stop_def)
  have "zap_between s left right = do {
      blk \<leftarrow> mem_write (s @ [nul]) start (drop stop (s @ [nul]));
      Some (0, Some (c_str blk, length (c_str blk), int stop - int start)) }"
    using assms(2,3) by (simp add: zap_between_def start_def stop_def Let_def)
  also have "\<dots> = (if start \<le> stop then Some (0, Some (take start s @ drop stop s,
      length (take start s @ drop stop s), int stop - int start)) else None)"
  proof (cases "start \<le> stop")
    case True
    then show ?thesis using zap_move [OF assms(1) True le(2)] by auto
  next
    case False
    then show ?thesis using le by (simp add: mem_write_def)
  qed
  finally show ?thesis by (simp add: start_def stop_def Let_def)
qed

theorem zap_between_safe_iff_witness:
  "zap_between ''a@b+c'' (- 43) 64 = None \<and>
   zap_between ''a+b@c'' (- 43) 64 = Some (0, Some (''a@c'', 3, 2))"
  using zap_between_safe_iff [of "''a@b+c''" "- 43" 3 64 1]
    zap_between_safe_iff [of "''a+b@c''" "- 43" 1 64 3]
  by (simp add: strchr_def strrchr_def char_codes)

text \<open>
  A message set passes \<open>check_msg_set\<close> exactly if it starts with a digit or \<open>*\<close>, consists of
  digits, \<open>*\<close>, commas and colons, and has no two separators in a row.
\<close>

lemma check_msg_set_iff:
  "check_msg_set (Some s) \<longleftrightarrow>
     s \<noteq> [] \<and> (isdigit (hd s) \<or> hd s = CHR ''*'') \<and>
     set s \<subseteq> {c. isdigit c} \<union> {CHR ''*'', CHR '','', CHR '':''} \<and>
     successively (\<lambda>c d. \<not> (c \<in> {CHR '','', CHR '':''} \<and> d \<in> {CHR '','', CHR '':''})) s"
proof (cases s)
  case (Cons c r)
  have "isdigit c \<or> c = CHR ''*'' \<Longrightarrow> c \<notin> {CHR '','', CHR '':''}"
    by (auto simp: ctype_defs)
  then show ?thesis
    unfolding check_msg_set_def by (simp add: Cons msg_set_loop_iff de_Morgan_conj)
qed (simp add: check_msg_set_def at_def)

end
