(* ===== verification/Match.thy ===== *)
theory Match
  imports Names "HOL-Library.Sublist"
begin

text \<open>
  Matching of names: the glob matcher of \<open>src/src/dm_match.c\<close> (user and alias patterns), the
  pair of SQL \<open>LIKE\<close> patterns that \<open>mailbox_match_new\<close> of \<open>src/src/dm_db.c\<close> builds for a
  mailbox name, and the LIST matcher \<open>listex_match\<close> of \<open>src/src/dm_misc.c\<close>.
\<close>

section \<open>Glob patterns\<close>

fun tokenize_loop :: "string \<Rightarrow> string \<Rightarrow> string \<Rightarrow> string list" where
  "tokenize_loop sep pending [] = (if pending \<noteq> [] then [pending] else [])"
| "tokenize_loop sep pending (c # pat) =
     (if c \<in> set sep
      then (if pending = [] then [[c]] else [pending, [c]]) @ tokenize_loop sep [] pat
      else tokenize_loop sep (pending @ [c]) pat)"

definition weird_tokenize :: "string \<Rightarrow> string \<Rightarrow> string list" where
  "weird_tokenize pat sep =
     (if list_all (\<lambda>c. c \<notin> set sep) pat then [pat] else tokenize_loop sep [] pat)"

text \<open>
  The search for a part at the offsets \<open>j, j + 1, \<dots>, n - 1\<close> behind \<open>can\<close>: the comparison covers
  at most what is left of the candidate. The result is the rest of the candidate.
\<close>

function place :: "string \<Rightarrow> string \<Rightarrow> nat \<Rightarrow> nat \<Rightarrow> string option" where
  "place part can j n =
     (if n \<le> j then None
      else if strneq (min (length part) (length can - j)) part (drop j can)
      then Some (drop (min (length part + j) (length can)) can)
      else place part can (j + 1) n)"
  by pat_completeness auto
termination
  by (relation "measure (\<lambda>(p, c, j, n). n - j)") auto

declare place.simps [simp del]

fun glob_loop :: "string list \<Rightarrow> string \<Rightarrow> bool \<Rightarrow> nat \<Rightarrow> bool" where
  "glob_loop [] can has_star has_question \<longleftrightarrow>
     can = [] \<or> has_star \<or> (0 < has_question \<and> at can 1 = nul)"
| "glob_loop (part # parts) can has_star has_question =
     (if part = [] then glob_loop parts can has_star has_question
      else if hd part = CHR ''*'' then glob_loop parts can True has_question
      else if hd part = CHR ''?'' then glob_loop parts can has_star (has_question + 1)
      else if has_star
      then (case place part can 0 (length can) of
              None \<Rightarrow> False
            | Some can' \<Rightarrow> glob_loop parts can' False has_question)
      else if 0 < has_question
      then (case place part can 0 (has_question + 1) of
              None \<Rightarrow> False
            | Some can' \<Rightarrow> glob_loop parts can' has_star 0)
      else if strneq (min (length part) (length can)) part can
      then glob_loop parts (drop (min (length part) (length can)) can) has_star has_question
      else False)"

definition match_glob :: "string \<Rightarrow> string \<Rightarrow> string option" where
  "match_glob pattern candidate =
     (if glob_loop (weird_tokenize pattern ''?*'') candidate False 0 then Some candidate else None)"

definition match_glob_list :: "string option \<Rightarrow> string list \<Rightarrow> string list" where
  "match_glob_list pattern xs =
     (case pattern of
        None \<Rightarrow> []
      | Some p \<Rightarrow> rev (fold (\<lambda>x acc. if match_glob p x \<noteq> None then x # acc else acc) xs []))"

section \<open>Mailbox name patterns\<close>

record mailbox_match =
  sensitive :: "string option"
  insensitive :: string

fun escape_underscores :: "string \<Rightarrow> string" where
  "escape_underscores [] = []"
| "escape_underscores (c # s) = (if c = CHR ''_'' then [CHR 0x5C, c] else [c]) @ escape_underscores s"

text \<open>
  The second loop: \<open>p\<close> is the previous character of \<open>sensitive\<close> as it is left by the previous
  iteration.
\<close>

fun match_new_loop :: "char \<Rightarrow> bool \<Rightarrow> bool \<Rightarrow> string \<Rightarrow> string \<times> string \<times> bool" where
  "match_new_loop p verbatim has_sensitive_part [] = ([], [], has_sensitive_part)"
| "match_new_loop p verbatim has_sensitive_part (c # cs) =
     (let verbatim = (if p = CHR ''-'' then False else verbatim);
          verbatim = (if c = CHR ''&'' then True else verbatim);
          has_sensitive_part = (if c = CHR ''&'' then True else has_sensitive_part);
          i = (if verbatim \<and> c \<noteq> CHR 0x5C \<and> c \<noteq> CHR ''%'' then CHR ''_'' else c);
          s = (if \<not> verbatim \<and> c \<noteq> CHR 0x5C \<and> c \<noteq> CHR ''%'' then CHR ''_'' else c)
      in case match_new_loop s verbatim has_sensitive_part cs of (ss, is, h) \<Rightarrow> (s # ss, i # is, h))"

definition mailbox_match_new :: "string \<Rightarrow> mailbox_match" where
  "mailbox_match_new mailbox =
     (case match_new_loop nul False False (escape_underscores mailbox) of (s, i, has) \<Rightarrow>
        if has then \<lparr>sensitive = Some s, insensitive = i\<rparr>
        else \<lparr>sensitive = None, insensitive = i\<rparr>)"

section \<open>LIST patterns\<close>

text \<open>The length of the common prefix, which is all of \<open>x\<close> when the loops run to its end.\<close>

fun lcp :: "string \<Rightarrow> string \<Rightarrow> nat" where
  "lcp (c # x) (d # s) = (if c = d then Suc (lcp x s) else 0)"
| "lcp _ _ = 0"

text \<open>The loop \<open>s[i] && p[i] && s[i] == p[i] && s[i] != x[0] && p[i] != x[0]\<close>.\<close>

fun lcp_until :: "char \<Rightarrow> string \<Rightarrow> string \<Rightarrow> nat" where
  "lcp_until x0 (c # s) (d # p) = (if c = d \<and> c \<noteq> x0 \<and> d \<noteq> x0 then Suc (lcp_until x0 s p) else 0)"
| "lcp_until x0 _ _ = 0"

lemma lcp_le: "lcp a b \<le> length a" "lcp a b \<le> length b"
  by (induction a b rule: lcp.induct) auto

lemma lcp_until_le: "lcp_until x a b \<le> length a" "lcp_until x a b \<le> length b"
  by (induction x a b rule: lcp_until.induct) auto

text \<open>The loop of a \<open>%\<close>: \<open>p\<close> and \<open>s\<close> when it stops.\<close>

function percent_loop :: "string \<Rightarrow> string \<Rightarrow> string \<Rightarrow> string \<times> string" where
  "percent_loop x p s =
     (if s = [] then (p, s)
      else if lcp x s = length x then (p, drop (lcp x s) s)
      else let i = lcp_until (at x 0) s p
           in if 0 < i \<and> (i = length p \<or> (at p i = at x 0 \<and> at s i = at x 0))
              then percent_loop x (drop i p) (drop i s)
              else percent_loop x p (tl s))"
  by pat_completeness auto
termination
proof (relation "measure (\<lambda>(x, p, s). length s)", goal_cases)
  case 2
  then show ?case by simp
qed auto

declare percent_loop.simps [simp del]

lemma percent_loop_fst: "length (fst (percent_loop x p s)) \<le> length p"
proof (induction x p s rule: percent_loop.induct)
  case (1 x p s)
  then show ?case
    by (subst percent_loop.simps) (auto simp: Let_def split: if_splits)
qed

text \<open>
  The \<open>*\<close> case tries the rest of the pattern on every non-empty suffix. \<open>p8\<close> is set after a
  byte above \<open>0xC0\<close>, whose successor is not taken as a wildcard.
\<close>

function listex_match :: "string \<Rightarrow> bool \<Rightarrow> bool \<Rightarrow> string \<Rightarrow> string \<Rightarrow> bool" where
  "listex_match x nocase p8 p s =
     (if p = [] then s = []
      else if \<not> p8 \<and> hd p = CHR ''%''
      then (let (p1, s1) = percent_loop x (tl p) s;
                p2 = (if lcp x p1 = length x then drop (lcp x p1) p1 else p1)
            in if s1 \<noteq> [] \<and> p2 \<noteq> [] then listex_match x nocase False p2 s1
               else if s1 \<noteq> [] \<or> p2 \<noteq> [] then False
               else True)
      else if \<not> p8 \<and> hd p = CHR ''*''
      then (if tl p = [] then True
            else list_ex (\<lambda>k. listex_match x nocase False (tl p) (drop k s)) [0..<length s])
      else if \<not> p8 \<and> x \<noteq> [] \<and> hd p = hd x \<and> lcp x p = length x \<and> lcp x s = length x
      then listex_match x nocase p8 (drop (length x) p) (drop (length x) s)
      else if s \<noteq> [] \<and> (hd p = hd s \<or> (nocase \<and> tolower (hd p) = tolower (hd s)))
      then listex_match x nocase (0xC0 < code (hd p)) (tl p) (tl s)
      else False)"
  by pat_completeness auto
termination
proof (relation "measure (\<lambda>(x, n, p8, p, s). length p)", goal_cases)
  case (2 x nocase p8 p s y p1 s1 p2)
  have "length p1 \<le> length (tl p)"
    using percent_loop_fst [of x "tl p" s] 2(3,4) by (metis fst_conv)
  moreover have "length p2 \<le> length p1" using 2(5) by auto
  ultimately show ?case using 2(1) by (cases p) auto
qed auto

declare listex_match.simps [simp del]

section \<open>Lemmas on glob patterns\<close>

lemma concat_tokenize_loop: "concat (tokenize_loop sep pending pat) = pending @ pat"
  by (induction sep pending pat rule: tokenize_loop.induct) auto

lemma concat_weird_tokenize: "concat (weird_tokenize pat sep) = pat"
  by (simp add: weird_tokenize_def concat_tokenize_loop)

lemma match_glob_literal:
  assumes "set p \<inter> {CHR ''?'', CHR ''*''} = {}"
  shows "match_glob p c \<noteq> None \<longleftrightarrow> c = [] \<or> prefix c p"
proof -
  have tok: "weird_tokenize p ''?*'' = [p]"
    using assms by (auto simp: weird_tokenize_def list_all_iff)
  show ?thesis
  proof (cases "p = []")
    case True
    then show ?thesis by (auto simp: match_glob_def tok[unfolded True])
  next
    case False
    then have hd: "hd p \<noteq> CHR ''?''" "hd p \<noteq> CHR ''*''"
      using assms hd_in_set [OF False] by (metis disjoint_iff insertCI)+
    have "take (min (length p) (length c)) p = take (min (length p) (length c)) c \<and>
        drop (min (length p) (length c)) c = [] \<longleftrightarrow> prefix c p"
      by (auto simp: min_def prefix_def) (metis append_take_drop_id)+
    then show ?thesis
      using False hd by (auto simp: match_glob_def tok strneq_def)
  qed
qed

lemma match_glob_list_filter: "match_glob_list (Some p) xs = filter (\<lambda>x. match_glob p x \<noteq> None) xs"
proof -
  have "fold (\<lambda>x acc. if match_glob p x \<noteq> None then x # acc else acc) xs acc =
      rev (filter (\<lambda>x. match_glob p x \<noteq> None) xs) @ acc" for acc
    by (induction xs arbitrary: acc) auto
  then show ?thesis by (simp add: match_glob_list_def)
qed

section \<open>Lemmas on LIST patterns\<close>

lemma lcp_full: "lcp x s = length x \<longleftrightarrow> prefix x s"
  by (induction x s rule: lcp.induct) auto

lemma listex_match_literal:
  assumes "set p \<inter> {CHR ''%'', CHR ''*''} = {}"
  shows "listex_match x False p8 p s \<longleftrightarrow> p = s"
  using assms
proof (induction "length p" arbitrary: p s p8 rule: less_induct)
  case less
  show ?case
  proof (cases p)
    case Nil
    then show ?thesis by (subst listex_match.simps) auto
  next
    case (Cons c q)
    then have c: "c \<noteq> CHR ''%''" "c \<noteq> CHR ''*''" and q: "set q \<inter> {CHR ''%'', CHR ''*''} = {}"
      using less.prems by auto
    show ?thesis
    proof (cases "\<not> p8 \<and> x \<noteq> [] \<and> hd p = hd x \<and> prefix x p \<and> prefix x s")
      case True
      then obtain p' s' where ps: "p = x @ p'" "s = x @ s'" by (auto simp: prefix_def)
      then have "listex_match x False p8 p' s' \<longleftrightarrow> p' = s'"
        using less.prems True by (intro less.hyps) auto
      moreover have "hd p \<noteq> CHR ''%''" "hd p \<noteq> CHR ''*''" "p \<noteq> []" using Cons c by simp_all
      ultimately show ?thesis
        using True by (subst listex_match.simps) (simp add: lcp_full ps)
    next
      case False
      have "listex_match x False b q t \<longleftrightarrow> q = t" for b t
        using less.hyps [of q] q Cons by simp
      then show ?thesis
        using False Cons c by (subst listex_match.simps) (cases s; auto simp: lcp_full)
    qed
  qed
qed

section \<open>What the mailbox patterns match\<close>

text \<open>
  SQL \<open>LIKE\<close> with the backslash as escape character, under a character comparison \<open>eq\<close>: the
  operator the two patterns are handed to.
\<close>

fun like :: "(char \<Rightarrow> char \<Rightarrow> bool) \<Rightarrow> string \<Rightarrow> string \<Rightarrow> bool" where
  "like eq [] s \<longleftrightarrow> s = []"
| "like eq (c # p) [] \<longleftrightarrow> c = CHR ''%'' \<and> like eq p []"
| "like eq (c # p) (d # s) =
     (if c = CHR ''%'' then like eq p (d # s) \<or> like eq (c # p) s
      else if c = CHR ''_'' then like eq p s
      else if c = CHR 0x5C then (case p of [] \<Rightarrow> False | e # q \<Rightarrow> eq e d \<and> like eq q s)
      else eq c d \<and> like eq p s)"

definition caseless :: "char \<Rightarrow> char \<Rightarrow> bool" where
  "caseless c d \<longleftrightarrow> tolower c = tolower d"

text \<open>
  Equality of mailbox names: inside a modified BASE64 run (from \<open>&\<close> to \<open>-\<close>) the case matters,
  outside it does not. \<open>v\<close> says that the name starts inside a run.
\<close>

fun same_mailbox :: "bool \<Rightarrow> string \<Rightarrow> string \<Rightarrow> bool" where
  "same_mailbox v [] s \<longleftrightarrow> s = []"
| "same_mailbox v (c # n) [] \<longleftrightarrow> False"
| "same_mailbox v (c # n) (d # s) \<longleftrightarrow>
     (if v \<or> c = CHR ''&'' then c = d else caseless c d) \<and>
     same_mailbox ((v \<or> c = CHR ''&'') \<and> c \<noteq> CHR ''-'') n s"

lemma caseless_underscore [simp]: "caseless CHR ''_'' d \<longleftrightarrow> d = CHR ''_''"
proof
  assume "caseless CHR ''_'' d"
  then have t: "tolower d = CHR ''_''" by (simp add: caseless_def ctype_defs)
  have "\<not> (65 \<le> code d \<and> code d \<le> 90)"
  proof
    assume d: "65 \<le> code d \<and> code d \<le> 90"
    then have "code (tolower d) = code d + 32" by (simp add: tolower_def)
    with t d show False by (simp add: code_def)
  qed
  with t show "d = CHR ''_''" by (simp add: tolower_def)
qed (simp add: caseless_def)

lemma caseless_refl [simp]: "caseless c c"
  by (simp add: caseless_def)

lemma like_literal [simp]:
  "c \<noteq> CHR ''%'' \<Longrightarrow> c \<noteq> CHR ''_'' \<Longrightarrow> c \<noteq> CHR 0x5C \<Longrightarrow>
     like eq (c # p) s \<longleftrightarrow> s \<noteq> [] \<and> eq c (hd s) \<and> like eq p (tl s)"
  by (cases s) auto

lemma like_any [simp]: "like eq (CHR ''_'' # p) s \<longleftrightarrow> s \<noteq> [] \<and> like eq p (tl s)"
  by (cases s) auto

lemma like_escaped [simp]:
  "like eq (CHR 0x5C # CHR ''_'' # p) s \<longleftrightarrow> s \<noteq> [] \<and> eq CHR ''_'' (hd s) \<and> like eq p (tl s)"
  by (cases s) auto

lemma same_mailbox_Cons:
  "same_mailbox v (c # n) s \<longleftrightarrow>
     s \<noteq> [] \<and> (if v \<or> c = CHR ''&'' then c = hd s else caseless c (hd s)) \<and>
     same_mailbox ((v \<or> c = CHR ''&'') \<and> c \<noteq> CHR ''-'') n (tl s)"
  by (cases s) auto

text \<open>One character of the name, in the two patterns.\<close>

lemma match_new_loop_underscore:
  "match_new_loop p v h (escape_underscores (CHR ''_'' # n)) =
     (case match_new_loop CHR ''_'' (v \<and> p \<noteq> CHR ''-'') h (escape_underscores n) of (ss, is, h') \<Rightarrow>
        (CHR 0x5C # CHR ''_'' # ss, CHR 0x5C # CHR ''_'' # is, h'))"
  by (simp add: Let_def split: prod.splits)

lemma match_new_loop_other:
  assumes "c \<noteq> CHR ''_''" "c \<noteq> CHR ''%''" "c \<noteq> CHR 0x5C"
  defines "w p v \<equiv> (v \<and> p \<noteq> CHR ''-'') \<or> c = CHR ''&''"
  shows "match_new_loop p v h (escape_underscores (c # n)) =
     (case match_new_loop (if w p v then c else CHR ''_'') (w p v) (h \<or> c = CHR ''&'') (escape_underscores n) of
        (ss, is, h') \<Rightarrow> ((if w p v then c else CHR ''_'') # ss, (if w p v then CHR ''_'' else c) # is, h'))"
  using assms(1-3) by (auto simp: w_def Let_def split: prod.splits)

lemma match_new_loop_both:
  assumes "set n \<inter> {CHR ''%'', CHR 0x5C} = {}"
    and "match_new_loop p v h (escape_underscores n) = (ss, is, h')"
  shows "like (=) ss s \<and> like caseless is s \<longleftrightarrow> same_mailbox (v \<and> p \<noteq> CHR ''-'') n s"
  using assms
proof (induction n arbitrary: p v h ss "is" s)
  case (Cons c n)
  show ?case
  proof (cases "c = CHR ''_''")
    case True
    obtain ss' is' where r: "match_new_loop CHR ''_'' (v \<and> p \<noteq> CHR ''-'') h (escape_underscores n) = (ss', is', h')"
        "ss = CHR 0x5C # CHR ''_'' # ss'" "is = CHR 0x5C # CHR ''_'' # is'"
      using Cons.prems(2) unfolding True match_new_loop_underscore by (auto split: prod.splits)
    have "like (=) ss' (tl s) \<and> like caseless is' (tl s) \<longleftrightarrow> same_mailbox (v \<and> p \<noteq> CHR ''-'') n (tl s)"
      using Cons.IH [OF _ r(1), of "tl s"] Cons.prems(1) by simp
    then show ?thesis
      unfolding True same_mailbox_Cons r(2,3) by auto
  next
    case False
    define w where "w \<longleftrightarrow> (v \<and> p \<noteq> CHR ''-'') \<or> c = CHR ''&''"
    have c: "c \<noteq> CHR ''%''" "c \<noteq> CHR 0x5C" using Cons.prems(1) by auto
    obtain ss' is' where r: "match_new_loop (if w then c else CHR ''_'') w (h \<or> c = CHR ''&'') (escape_underscores n) = (ss', is', h')"
        "ss = (if w then c else CHR ''_'') # ss'" "is = (if w then CHR ''_'' else c) # is'"
      using Cons.prems(2) unfolding match_new_loop_other [OF False c] w_def [symmetric]
      by (auto split: prod.splits)
    have IH: "like (=) ss' (tl s) \<and> like caseless is' (tl s) \<longleftrightarrow> same_mailbox (w \<and> c \<noteq> CHR ''-'') n (tl s)"
      using Cons.IH [OF _ r(1), of "tl s"] Cons.prems(1) by (cases w) auto
    show ?thesis
      unfolding same_mailbox_Cons w_def [symmetric] r(2,3)
      using IH False c by (cases w) auto
  qed
qed auto

lemma match_new_loop_insensitive:
  assumes "set n \<inter> {CHR ''%'', CHR 0x5C} = {}" "\<not> h'"
    and "match_new_loop p False h (escape_underscores n) = (ss, is, h')"
  shows "CHR ''&'' \<notin> set n \<and> (like caseless is s \<longrightarrow> like (=) ss s)"
  using assms
proof (induction n arbitrary: p h ss "is" s)
  case (Cons c n)
  have hmono: "match_new_loop q u True t = (a, b, False) \<Longrightarrow> False" for q u t a b
    by (induction t arbitrary: q u a b) (auto simp: Let_def split: prod.splits)
  show ?case
  proof (cases "c = CHR ''_''")
    case True
    obtain ss' is' where r: "match_new_loop CHR ''_'' False h (escape_underscores n) = (ss', is', h')"
        "ss = CHR 0x5C # CHR ''_'' # ss'" "is = CHR 0x5C # CHR ''_'' # is'"
      using Cons.prems(3) unfolding True match_new_loop_underscore by (auto split: prod.splits)
    from Cons.IH [OF _ Cons.prems(2) r(1), of "tl s"] Cons.prems(1) show ?thesis
      by (auto simp: r(2,3) True)
  next
    case False
    have c: "c \<noteq> CHR ''%''" "c \<noteq> CHR 0x5C" using Cons.prems(1) by auto
    have amp: "c \<noteq> CHR ''&''"
      using Cons.prems(2,3) hmono False
      unfolding match_new_loop_other [OF False c] by (auto split: prod.splits)
    then obtain ss' is' where r: "match_new_loop CHR ''_'' False h (escape_underscores n) = (ss', is', h')"
        "ss = CHR ''_'' # ss'" "is = c # is'"
      using Cons.prems(3) unfolding match_new_loop_other [OF False c] by (auto split: prod.splits)
    from Cons.IH [OF _ Cons.prems(2) r(1), of "tl s"] Cons.prems(1) show ?thesis
      using amp False c by (auto simp: r(2,3))
  qed
qed auto

lemma match_new_same:
  assumes "set name \<inter> {CHR ''%'', CHR 0x5C} = {}"
  shows "(case sensitive (mailbox_match_new name) of None \<Rightarrow> True | Some p \<Rightarrow> like (=) p candidate) \<and>
         like caseless (insensitive (mailbox_match_new name)) candidate \<longleftrightarrow>
         same_mailbox False name candidate"
proof -
  obtain ss "is" h where r: "match_new_loop nul False False (escape_underscores name) = (ss, is, h)"
    by (metis surj_pair)
  from match_new_loop_both [OF assms r, of candidate]
    match_new_loop_insensitive [OF assms _ r, of candidate]
  show ?thesis by (auto simp: mailbox_match_new_def r)
qed

lemma same_mailbox_refl [simp]: "same_mailbox v n n"
  by (induction n arbitrary: v) auto

section \<open>Properties\<close>



text \<open>
  C13: a glob pattern without wildcards is meant to match itself only, but \<open>match_glob\<close> compares
  no more than the shorter of the two strings: it accepts the empty string and every prefix of
  the pattern.
\<close>

theorem match_glob_accepts_prefixes:
  assumes "set p \<inter> {CHR ''?'', CHR ''*''} = {}"
  shows "match_glob p c \<noteq> None \<longleftrightarrow> prefix c p"
  using match_glob_literal [OF assms] by auto

theorem match_glob_accepts_prefixes_witness:
  "match_glob ''postmaster'' ''post'' \<noteq> None \<and> match_glob ''post'' ''postmaster'' = None"
  using match_glob_accepts_prefixes [of "''postmaster''" "''post''"]
    match_glob_accepts_prefixes [of "''post''" "''postmaster''"]
  by (simp add: prefix_def)

text \<open>
  A LIST pattern without wildcards matches exactly the name it spells, whatever the
  hierarchy separator.
\<close>

lemma listex_match_exact:
  assumes "set p \<inter> {CHR ''%'', CHR ''*''} = {}"
  shows "listex_match x False False p s \<longleftrightarrow> p = s"
  by (rule listex_match_literal [OF assms])

lemma listex_match_exact_witness:
  "listex_match ''/'' False False ''a/b'' ''a/b'' \<and> \<not> listex_match ''/'' False False ''a/b'' ''a/bc''"
  using listex_match_exact [of "''a/b''" "''/''" "''a/b''"]
    listex_match_exact [of "''a/b''" "''/''" "''a/bc''"] by simp

text \<open>
  The \<open>%\<close> wildcard accepts too much: once the text behind it has been found, the loop goes on
  to skip the rest of the component, so \<open>%a\<close> matches \<open>ab\<close>.
\<close>

lemma listex_match_percent_ignores_suffix:
  "listex_match ''/'' False False ''%a'' ''ab''"
  by (simp add: listex_match.simps [of _ _ _ "CHR ''%'' # _"] percent_loop.simps at_def Let_def)

end
