(* ===== verification/MailboxState.thy ===== *)
theory MailboxState
  imports Match GTree GLists
begin

text \<open>
  The cached state of a mailbox (\<open>src/src/dm_mailboxstate.c\<close>): the messages by UID, the two
  maps between UIDs and message sequence numbers, the queue of recent messages and the
  counters. The rows the database returns are arguments; \<open>None\<close> in place of a row list is an
  SQL exception, which ends the surrounding \<open>TRY\<close> block.
\<close>

section \<open>Data\<close>

definition MESSAGE_STATUS_DELETE :: int where
  "MESSAGE_STATUS_DELETE = 2"

definition IMAP_NFLAGS :: nat where
  "IMAP_NFLAGS = 6"

definition IMAP_FLAG_SEEN :: nat where
  "IMAP_FLAG_SEEN = 0"

definition IMAP_FLAG_DELETED :: nat where
  "IMAP_FLAG_DELETED = 2"

definition IMAP_FLAG_RECENT :: nat where
  "IMAP_FLAG_RECENT = 5"

lemmas imap_flag_defs = IMAP_NFLAGS_def IMAP_FLAG_SEEN_def IMAP_FLAG_DELETED_def IMAP_FLAG_RECENT_def

definition IMAPPERM_READWRITE :: int where
  "IMAPPERM_READWRITE = 2"

definition IMAP_INTERNALDATE_LEN :: nat where
  "IMAP_INTERNALDATE_LEN = 27"

definition imap_flag_desc_escaped :: "string list" where
  "imap_flag_desc_escaped =
     map (Cons CHR 0x5C) [''Seen'', ''Answered'', ''Deleted'', ''Flagged'', ''Draft'', ''Recent'']"

record messageinfo =
  mi_mailbox_id :: u64
  mi_msn :: u64
  mi_uid :: u64
  mi_rfcsize :: u64
  mi_seq :: u64
  mi_phys_id :: u64
  mi_expunge :: int
  mi_expunged :: int
  mi_status :: int
  mi_internaldate :: string
  mi_flags :: "int list"
  mi_keywords :: "string list"

record mailboxstate =
  mb_id :: u64
  mb_uidnext :: u64
  mb_owner_id :: u64
  mb_seq :: u64
  mb_state_seq :: u64
  mb_differential_iterations :: u32
  mb_no_select :: bool
  mb_no_children :: bool
  mb_no_inferiors :: bool
  mb_recent :: u32
  mb_exists :: u32
  mb_unseen :: u32
  mb_permission :: int
  mb_is_subscribed :: bool
  mb_is_public :: bool
  mb_is_users :: bool
  mb_is_inbox :: bool
  mb_name :: "string option"
  mb_keywords :: "string list"
  mb_msginfo :: "(u64, messageinfo) gtree"
  mb_ids :: "(u64, u64) gtree"
  mb_msn :: "(u64, u64) gtree"
  mb_recent_queue :: "(u64, u64) gtree"

text \<open>A zeroed struct.\<close>

definition mailbox_zero :: mailboxstate where
  "mailbox_zero =
     \<lparr>mb_id = 0, mb_uidnext = 0, mb_owner_id = 0, mb_seq = 0, mb_state_seq = 0,
      mb_differential_iterations = 0, mb_no_select = False, mb_no_children = False,
      mb_no_inferiors = False, mb_recent = 0, mb_exists = 0, mb_unseen = 0, mb_permission = 0,
      mb_is_subscribed = False, mb_is_public = False, mb_is_users = False, mb_is_inbox = False,
      mb_name = None, mb_keywords = [], mb_msginfo = [], mb_ids = [], mb_msn = [],
      mb_recent_queue = []\<rparr>"

definition messageinfo_zero :: messageinfo where
  "messageinfo_zero =
     \<lparr>mi_mailbox_id = 0, mi_msn = 0, mi_uid = 0, mi_rfcsize = 0, mi_seq = 0, mi_phys_id = 0,
      mi_expunge = 0, mi_expunged = 0, mi_status = 0, mi_internaldate = [],
      mi_flags = replicate IMAP_NFLAGS 0, mi_keywords = []\<rparr>"

section \<open>The maps between UIDs and sequence numbers\<close>

definition MailboxState_uid_msn_new :: "mailboxstate \<Rightarrow> mailboxstate" where
  "MailboxState_uid_msn_new M = M\<lparr>mb_msn := [], mb_ids := []\<rparr>"

text \<open>
  One step of the loop of \<open>MailboxState_remap\<close>. The message infos are shared by pointer, so
  the assignment to \<open>msginfo->msn\<close> is an update of the tree; \<open>rows\<close> is the next number.
\<close>

definition remap_step :: "u64 \<Rightarrow> u64 \<times> mailboxstate \<Rightarrow> (u64 \<times> mailboxstate) option" where
  "remap_step uid st =
     (case st of (rows, M) \<Rightarrow>
        (case g_tree_lookup ucmpdata (mb_msginfo M) uid of
           None \<Rightarrow> None
         | Some msginfo \<Rightarrow>
             if mi_status msginfo < MESSAGE_STATUS_DELETE
             then Some (rows + 1,
                    M\<lparr>mb_msginfo := g_tree_insert ucmpdata (mb_msginfo M) uid (msginfo\<lparr>mi_msn := rows\<rparr>),
                      mb_ids := g_tree_insert ucmpdata (mb_ids M) uid rows,
                      mb_msn := g_tree_insert ucmpdata (mb_msn M) rows uid\<rparr>)
             else Some (rows, M)))"

fun remap_loop :: "u64 list \<Rightarrow> u64 \<times> mailboxstate \<Rightarrow> mailboxstate option" where
  "remap_loop [] st = Some (snd st)"
| "remap_loop (uid # ids) st = do { st' \<leftarrow> remap_step uid st; remap_loop ids st' }"

definition MailboxState_remap :: "mailboxstate \<Rightarrow> mailboxstate option" where
  "MailboxState_remap M =
     remap_loop (g_tree_keys (mb_msginfo M)) (1, MailboxState_uid_msn_new M)"

definition MailboxState_getMsginfo :: "mailboxstate \<Rightarrow> (u64, messageinfo) gtree" where
  "MailboxState_getMsginfo M = mb_msginfo M"

definition MailboxState_setMsginfo ::
  "mailboxstate \<Rightarrow> (u64, messageinfo) gtree \<Rightarrow> mailboxstate option" where
  "MailboxState_setMsginfo M msginfo = MailboxState_remap (M\<lparr>mb_msginfo := msginfo\<rparr>)"

section \<open>Accessors\<close>

definition MailboxState_getIds :: "mailboxstate \<Rightarrow> (u64, u64) gtree" where
  "MailboxState_getIds M = mb_ids M"

definition MailboxState_getMsn :: "mailboxstate \<Rightarrow> (u64, u64) gtree" where
  "MailboxState_getMsn M = mb_msn M"

definition MailboxState_setId :: "mailboxstate \<Rightarrow> u64 \<Rightarrow> mailboxstate" where
  "MailboxState_setId M i = M\<lparr>mb_id := i\<rparr>"

definition MailboxState_getId :: "mailboxstate \<Rightarrow> u64" where
  "MailboxState_getId M = mb_id M"

definition MailboxState_resetSeq :: "mailboxstate \<Rightarrow> mailboxstate" where
  "MailboxState_resetSeq M = M\<lparr>mb_seq := 0\<rparr>"

text \<open>The comparison is between signed integers.\<close>

definition MailboxState_getExists :: "mailboxstate \<Rightarrow> u32 \<times> mailboxstate" where
  "MailboxState_getExists M =
     (let real = int (g_tree_nnodes (mb_ids M));
          M' = (if sint (mb_exists M) < real then M\<lparr>mb_exists := word_of_int real\<rparr> else M)
      in (mb_exists M', M'))"

definition MailboxState_setExists :: "mailboxstate \<Rightarrow> u32 \<Rightarrow> mailboxstate" where
  "MailboxState_setExists M n = M\<lparr>mb_exists := n\<rparr>"

definition MailboxState_getRecent :: "mailboxstate \<Rightarrow> u32" where
  "MailboxState_getRecent M = mb_recent M"

definition MailboxState_getUidnext :: "mailboxstate \<Rightarrow> u64" where
  "MailboxState_getUidnext M = mb_uidnext M"

definition MailboxState_setOwner :: "mailboxstate \<Rightarrow> u64 \<Rightarrow> mailboxstate" where
  "MailboxState_setOwner M owner = M\<lparr>mb_owner_id := owner\<rparr>"

definition MailboxState_getOwner :: "mailboxstate \<Rightarrow> u64" where
  "MailboxState_getOwner M = mb_owner_id M"

definition MailboxState_setPermission :: "mailboxstate \<Rightarrow> int \<Rightarrow> mailboxstate" where
  "MailboxState_setPermission M perm = M\<lparr>mb_permission := perm\<rparr>"

definition MailboxState_setName :: "mailboxstate \<Rightarrow> string \<Rightarrow> mailboxstate" where
  "MailboxState_setName M name = M\<lparr>mb_name := Some name\<rparr>"

definition MailboxState_setIsUsers :: "mailboxstate \<Rightarrow> bool \<Rightarrow> mailboxstate" where
  "MailboxState_setIsUsers M t = M\<lparr>mb_is_users := t\<rparr>"

definition MailboxState_isUsers :: "mailboxstate \<Rightarrow> bool" where
  "MailboxState_isUsers M = mb_is_users M"

definition MailboxState_setIsPublic :: "mailboxstate \<Rightarrow> bool \<Rightarrow> mailboxstate" where
  "MailboxState_setIsPublic M t = M\<lparr>mb_is_public := t\<rparr>"

definition MailboxState_isPublic :: "mailboxstate \<Rightarrow> bool" where
  "MailboxState_isPublic M = mb_is_public M"

definition MailboxState_hasKeyword :: "mailboxstate \<Rightarrow> string \<Rightarrow> bool" where
  "MailboxState_hasKeyword M keyword = found_custom dm_strcmpdata keyword (mb_keywords M)"

definition MailboxState_addKeyword :: "mailboxstate \<Rightarrow> string \<Rightarrow> mailboxstate" where
  "MailboxState_addKeyword M keyword = M\<lparr>mb_keywords := mb_keywords M @ [keyword]\<rparr>"

definition MailboxState_setNoSelect :: "mailboxstate \<Rightarrow> bool \<Rightarrow> mailboxstate" where
  "MailboxState_setNoSelect M b = M\<lparr>mb_no_select := b\<rparr>"

definition MailboxState_noSelect :: "mailboxstate \<Rightarrow> bool" where
  "MailboxState_noSelect M = mb_no_select M"

definition MailboxState_setNoChildren :: "mailboxstate \<Rightarrow> bool \<Rightarrow> mailboxstate" where
  "MailboxState_setNoChildren M b = M\<lparr>mb_no_children := b\<rparr>"

definition MailboxState_noChildren :: "mailboxstate \<Rightarrow> bool" where
  "MailboxState_noChildren M = mb_no_children M"

definition MailboxState_noInferiors :: "mailboxstate \<Rightarrow> bool" where
  "MailboxState_noInferiors M = mb_no_inferiors M"

definition MailboxState_getUnseen :: "mailboxstate \<Rightarrow> u32" where
  "MailboxState_getUnseen M = mb_unseen M"

section \<open>Renumbering\<close>

definition live :: "u64 \<times> messageinfo \<Rightarrow> bool" where
  "live e \<longleftrightarrow> mi_status (snd e) < MESSAGE_STATUS_DELETE"

definition live_uids :: "(u64, messageinfo) gtree \<Rightarrow> u64 list" where
  "live_uids t = map fst (filter live t)"

text \<open>The sequence numbers \<open>m, m + 1, \<dots>\<close>, \<open>n\<close> of them.\<close>

definition numbers :: "nat \<Rightarrow> nat \<Rightarrow> u64 list" where
  "numbers m n = map of_nat [m..<m + n]"

fun renumber :: "nat \<Rightarrow> (u64, messageinfo) gtree \<Rightarrow> (u64, messageinfo) gtree" where
  "renumber n [] = []"
| "renumber n (e # t) =
     (if live e then (fst e, (snd e)\<lparr>mi_msn := of_nat n\<rparr>) # renumber (Suc n) t
      else e # renumber n t)"

lemma renumber_keys [simp]: "map fst (renumber n t) = map fst t"
  by (induction n t rule: renumber.induct) auto

lemma renumber_append:
  "renumber n (t @ u) = renumber n t @ renumber (n + length (live_uids t)) u"
  by (induction n t rule: renumber.induct) (auto simp: live_uids_def)

lemma live_uids_append [simp]: "live_uids (t @ u) = live_uids t @ live_uids u"
  by (simp add: live_uids_def)

lemma length_numbers [simp]: "length (numbers m n) = n"
  by (simp add: numbers_def)

lemma numbers_Suc: "numbers m (Suc n) = numbers m n @ [of_nat (m + n)]"
  by (simp add: numbers_def)

lemma numbers_less:
  assumes "x \<in> set (numbers m n)" "m + n < 2 ^ 64"
  shows "x < of_nat (m + n)"
proof -
  obtain k where "x = of_nat k" "k < m + n"
    using assms(1) by (auto simp: numbers_def)
  then show ?thesis
    using of_nat_less_u64 [OF _ assms(2)] by blast
qed

lemma remap_loop_correct:
  assumes "tree_sorted ucmpdata (pre @ suf)" "length (pre @ suf) < 2 ^ 64 - 1"
    and "mb_msginfo M = renumber 1 pre @ suf"
    and "mb_ids M = zip (live_uids pre) (numbers 1 (length (live_uids pre)))"
    and "mb_msn M = zip (numbers 1 (length (live_uids pre))) (live_uids pre)"
  shows "remap_loop (map fst suf) (of_nat (1 + length (live_uids pre)), M) =
           Some (M\<lparr>mb_msginfo := renumber 1 (pre @ suf),
                    mb_ids := zip (live_uids (pre @ suf)) (numbers 1 (length (live_uids (pre @ suf)))),
                    mb_msn := zip (numbers 1 (length (live_uids (pre @ suf)))) (live_uids (pre @ suf))\<rparr>)"
  using assms
proof (induction suf arbitrary: pre M)
  case Nil
  then show ?case by (cases M) auto
next
  case (Cons e suf)
  obtain uid mi where e: "e = (uid, mi)" by (cases e)
  let ?n = "length (live_uids pre)"
  have sorted: "tree_sorted ucmpdata (renumber 1 pre @ (uid, mi) # suf)"
    using Cons.prems(1) by (subst tree_sorted_keys [of _ "pre @ e # suf"]) (simp_all add: e)
  have look: "g_tree_lookup ucmpdata (mb_msginfo M) uid = Some mi"
    unfolding Cons.prems(3) e using sorted by (rule ucmpdata_order.lookup_replace)
  have snoc: "pre @ e # suf = (pre @ [e]) @ suf" by simp
  have n: "?n \<le> length pre" by (simp add: live_uids_def)
  show ?case
  proof (cases "live e")
    case False
    then have "remap_step uid (of_nat (1 + ?n), M) = Some (of_nat (1 + ?n), M)"
      using look by (simp add: remap_step_def live_def e)
    moreover have "live_uids (pre @ [e]) = live_uids pre" "renumber 1 (pre @ [e]) = renumber 1 pre @ [e]"
      using False by (simp_all add: live_uids_def renumber_append)
    ultimately show ?thesis
      using Cons.IH [of "pre @ [e]" M] Cons.prems by (simp add: e)
  next
    case True
    have before: "x < uid" if "x \<in> set (live_uids pre)" for x
      using that Cons.prems(1) by (auto simp: live_uids_def e tree_sorted_def sorted_wrt_append)
    let ?r = "of_nat (1 + ?n) :: u64"
    let ?M = "M\<lparr>mb_msginfo := renumber 1 (pre @ [e]) @ suf,
               mb_ids := zip (live_uids (pre @ [e])) (numbers 1 (Suc ?n)),
               mb_msn := zip (numbers 1 (Suc ?n)) (live_uids (pre @ [e]))\<rparr>"
    have lu: "live_uids [(uid, mi)] = [uid]" using True by (simp add: live_uids_def e)
    have "g_tree_insert ucmpdata (mb_msginfo M) uid (mi\<lparr>mi_msn := ?r\<rparr>) = renumber 1 (pre @ [e]) @ suf"
      unfolding Cons.prems(3) e using ucmpdata_order.insert_replace [OF sorted] True
      by (simp add: renumber_append e)
    moreover have "g_tree_insert ucmpdata (mb_ids M) uid ?r = zip (live_uids pre @ [uid]) (numbers 1 (Suc ?n))"
      unfolding Cons.prems(4) using before
      by (subst ucmpdata_order.insert_last) (auto simp: numbers_Suc dest: set_zip_leftD)
    moreover have "g_tree_insert ucmpdata (mb_msn M) ?r uid = zip (numbers 1 (Suc ?n)) (live_uids pre @ [uid])"
      unfolding Cons.prems(5) using numbers_less [of _ 1 ?n] n Cons.prems(2)
      by (subst ucmpdata_order.insert_last) (auto simp: numbers_Suc dest: set_zip_leftD)
    ultimately have "remap_step uid (?r, M) = Some (of_nat (1 + length (live_uids (pre @ [e]))), ?M)"
      using look True by (simp add: remap_step_def live_def e lu)
    then show ?thesis
      using Cons.IH [of "pre @ [e]" ?M] Cons.prems by (simp add: e lu)
  qed
qed

lemma MailboxState_remap_correct:
  assumes "tree_sorted ucmpdata (mb_msginfo M)" "length (mb_msginfo M) < 2 ^ 64 - 1"
  shows "MailboxState_remap M =
           Some (M\<lparr>mb_msginfo := renumber 1 (mb_msginfo M),
                    mb_ids := zip (live_uids (mb_msginfo M)) (numbers 1 (length (live_uids (mb_msginfo M)))),
                    mb_msn := zip (numbers 1 (length (live_uids (mb_msginfo M)))) (live_uids (mb_msginfo M))\<rparr>)"
  using remap_loop_correct [of "[]" "mb_msginfo M" "MailboxState_uid_msn_new M"] assms
  by (simp add: MailboxState_remap_def MailboxState_uid_msn_new_def live_uids_def numbers_def)

section \<open>The two maps are inverse to each other\<close>

definition maps_ok :: "mailboxstate \<Rightarrow> bool" where
  "maps_ok M \<longleftrightarrow>
     tree_sorted ucmpdata (mb_ids M) \<and> tree_sorted ucmpdata (mb_msn M) \<and>
     (\<forall>u n. map_of (mb_ids M) u = Some n \<longleftrightarrow> map_of (mb_msn M) n = Some u)"

lemma numbers_sorted:
  "m + n < 2 ^ 64 \<Longrightarrow> sorted_wrt (<) (numbers m n)"
proof (induction n)
  case (Suc n)
  then show ?case
    using numbers_less [of _ m n] by (simp add: numbers_Suc sorted_wrt_append)
qed (simp add: numbers_def)

lemma live_uids_sorted: "tree_sorted ucmpdata t \<Longrightarrow> sorted_wrt (<) (live_uids t)"
  by (simp add: tree_sorted_map live_uids_def sorted_wrt_map sorted_wrt_filter)

lemma zip_swap_map_of:
  assumes "distinct us" "distinct ns" "length us = length ns"
  shows "map_of (zip us ns) u = Some n \<longleftrightarrow> map_of (zip ns us) n = Some u"
proof -
  have "map_of (zip us ns) u = Some n \<longleftrightarrow> (u, n) \<in> set (zip us ns)"
    using assms by (intro map_of_eq_Some_iff) simp
  also have "\<dots> \<longleftrightarrow> (n, u) \<in> set (zip ns us)"
    by (auto simp: in_set_zip)
  also have "\<dots> \<longleftrightarrow> map_of (zip ns us) n = Some u"
    using assms by (intro map_of_eq_Some_iff [symmetric]) simp
  finally show ?thesis .
qed

lemma sorted_less_distinct: "sorted_wrt (<) (xs :: u64 list) \<Longrightarrow> distinct xs"
  by (simp add: strict_sorted_iff)

lemma remap_maps_ok:
  assumes "tree_sorted ucmpdata (mb_msginfo M)" "length (mb_msginfo M) < 2 ^ 64 - 1"
    and "MailboxState_remap M = Some M'"
  shows "maps_ok M'"
proof -
  let ?us = "live_uids (mb_msginfo M)"
  let ?ns = "numbers 1 (length ?us)"
  have M': "mb_ids M' = zip ?us ?ns" "mb_msn M' = zip ?ns ?us"
    using MailboxState_remap_correct [OF assms(1,2)] assms(3) by auto
  have us: "sorted_wrt (<) ?us" by (rule live_uids_sorted [OF assms(1)])
  have "length ?us \<le> length (mb_msginfo M)" by (simp add: live_uids_def)
  then have ns: "sorted_wrt (<) ?ns"
    using assms(2) by (intro numbers_sorted) simp
  show ?thesis
    using us ns zip_swap_map_of [of ?us ?ns] sorted_less_distinct
    by (auto simp: maps_ok_def M' tree_sorted_map)
qed

section \<open>Properties\<close>

text \<open>
  C3: \<open>MailboxState_remap\<close> gives the messages that are not deleted the sequence numbers
  1, 2, \dots\ in ascending order of their UIDs, stores them in the message infos, and leaves
  two maps that are inverse to each other; nothing else of the state changes. The number of
  messages is below \<open>2 ^ 64 - 1\<close>, so the counter does not wrap.
\<close>

theorem remap_numbers_messages:
  assumes "tree_sorted ucmpdata (mb_msginfo M)" "length (mb_msginfo M) < 2 ^ 64 - 1"
  shows "\<exists>M'. MailboxState_remap M = Some M' \<and> maps_ok M' \<and>
           map fst (mb_ids M') = live_uids (mb_msginfo M) \<and>
           map snd (mb_ids M') = map of_nat [1..<Suc (length (live_uids (mb_msginfo M)))] \<and>
           M' = M\<lparr>mb_msginfo := renumber 1 (mb_msginfo M), mb_ids := mb_ids M', mb_msn := mb_msn M'\<rparr>"
proof -
  obtain M' where M': "MailboxState_remap M = Some M'"
      "M' = M\<lparr>mb_msginfo := renumber 1 (mb_msginfo M),
             mb_ids := zip (live_uids (mb_msginfo M)) (numbers 1 (length (live_uids (mb_msginfo M)))),
             mb_msn := zip (numbers 1 (length (live_uids (mb_msginfo M)))) (live_uids (mb_msginfo M))\<rparr>"
    using MailboxState_remap_correct [OF assms] by blast
  have "map snd (mb_ids M') = map of_nat [1..<Suc (length (live_uids (mb_msginfo M)))]"
    unfolding M'(2) by (simp add: numbers_def del: upt_Suc)
  moreover have "maps_ok M'" by (rule remap_maps_ok [OF assms M'(1)])
  moreover have "map fst (mb_ids M') = live_uids (mb_msginfo M)"
    unfolding M'(2) by simp
  ultimately show ?thesis
    using M' by (intro exI [of _ M']) simp
qed

theorem remap_numbers_messages_witness:
  "\<exists>M'. MailboxState_remap (mailbox_zero\<lparr>mb_msginfo :=
           [(3, messageinfo_zero), (5, messageinfo_zero\<lparr>mi_status := 2\<rparr>), (9, messageinfo_zero)]\<rparr>) =
           Some M' \<and> maps_ok M' \<and> map fst (mb_ids M') = [3, 9] \<and> map snd (mb_ids M') = [1, 2]"
proof -
  let ?M = "mailbox_zero\<lparr>mb_msginfo :=
     [(3, messageinfo_zero), (5, messageinfo_zero\<lparr>mi_status := 2\<rparr>), (9, messageinfo_zero)]\<rparr>"
  have "tree_sorted ucmpdata (mb_msginfo ?M)" "length (mb_msginfo ?M) < 2 ^ 64 - 1"
    by (simp_all add: tree_sorted_def)
  moreover have "live_uids (mb_msginfo ?M) = [3, 9]"
    by (simp add: live_uids_def live_def messageinfo_zero_def MESSAGE_STATUS_DELETE_def)
  ultimately show ?thesis
    using remap_numbers_messages [of ?M] by (force simp: upt_rec)
qed

end
