(* ===== verification/MailboxOps.thy ===== *)
theory MailboxOps
  imports MailboxState
begin

text \<open>
  The operations on a loaded mailbox state (\<open>src/src/dm_mailboxstate.c\<close>): lazily loaded fields,
  adding and removing messages, the queue of recent messages, flags and access rights.
\<close>

section \<open>Lazily loaded fields\<close>

definition db_getmailbox_permission :: "int option sql \<Rightarrow> mailboxstate \<Rightarrow> mailboxstate sql" where
  "db_getmailbox_permission q M =
     (if mb_id M = 0 then Some M
      else map_option (\<lambda>row. case row of None \<Rightarrow> M | Some p \<Rightarrow> M\<lparr>mb_permission := p\<rparr>) q)"

definition MailboxState_getPermission :: "int option sql \<Rightarrow> mailboxstate \<Rightarrow> int \<times> mailboxstate" where
  "MailboxState_getPermission q M =
     (let M' = (if mb_permission M = 0
                then (case db_getmailbox_permission q M of None \<Rightarrow> M | Some M' \<Rightarrow> M') else M)
      in (mb_permission M', M'))"

definition db_getmailbox_seq :: "(string \<times> u64) option sql \<Rightarrow> mailboxstate \<Rightarrow> mailboxstate sql" where
  "db_getmailbox_seq q M =
     map_option (\<lambda>row. case row of
         None \<Rightarrow> M
       | Some (name, s) \<Rightarrow>
           M\<lparr>mb_name := (case mb_name M of None \<Rightarrow> Some name | Some n \<Rightarrow> Some n), mb_seq := s\<rparr>) q"

definition MailboxState_getSeq :: "(string \<times> u64) option sql \<Rightarrow> mailboxstate \<Rightarrow> u64 \<times> mailboxstate" where
  "MailboxState_getSeq q M =
     (let M' = (if mb_seq M = 0
                then (case db_getmailbox_seq q M of None \<Rightarrow> M | Some M' \<Rightarrow> M') else M)
      in (mb_seq M', M'))"

definition MailboxState_resyncSeq :: "(string \<times> u64) option sql \<Rightarrow> mailboxstate \<Rightarrow> u64 \<times> mailboxstate" where
  "MailboxState_resyncSeq q M = MailboxState_getSeq q (M\<lparr>mb_seq := 0\<rparr>)"

section \<open>Recent messages\<close>

definition mailbox_build_recent :: "u64 \<Rightarrow> messageinfo \<Rightarrow> mailboxstate \<Rightarrow> bool \<times> mailboxstate" where
  "mailbox_build_recent uid msginfo M =
     (False,
      if mi_flags msginfo ! IMAP_FLAG_RECENT \<noteq> 0
      then M\<lparr>mb_recent_queue := g_tree_insert ucmp (mb_recent_queue M) uid uid\<rparr> else M)"

definition MailboxState_build_recent :: "int option sql \<Rightarrow> mailboxstate \<Rightarrow> mailboxstate" where
  "MailboxState_build_recent q M =
     (case MailboxState_getPermission q M of (perm, M) \<Rightarrow>
        if perm = IMAPPERM_READWRITE
        then g_tree_foreach (MailboxState_getMsginfo M) mailbox_build_recent M else M)"

text \<open>
  \<open>_update_recent\<close>: one UPDATE per slice in a transaction; \<open>exec\<close> gives the number of changed
  rows of an UPDATE. The result is \<open>DM_EQUERY\<close> when one of them fails.
\<close>

fun update_recent_loop :: "(string \<Rightarrow> u64 \<Rightarrow> int sql) \<Rightarrow> u64 \<Rightarrow> string list \<Rightarrow> int \<Rightarrow> int" where
  "update_recent_loop exec seq [] count = count"
| "update_recent_loop exec seq (s # slices) count =
     (case exec s seq of
        None \<Rightarrow> DM_EQUERY
      | Some changed \<Rightarrow> update_recent_loop exec seq slices (count + changed))"

definition update_recent :: "(string \<Rightarrow> u64 \<Rightarrow> int sql) \<Rightarrow> string list \<Rightarrow> u64 \<Rightarrow> int" where
  "update_recent exec slices seq = update_recent_loop exec seq slices 0"

text \<open>
  \<open>MailboxState_flush_recent\<close>, with its return code and whether it bumped the sequence number
  of the mailbox in the database.
\<close>

definition MailboxState_flush_recent ::
  "int option sql \<Rightarrow> (string \<times> u64) option sql \<Rightarrow> (string \<Rightarrow> u64 \<Rightarrow> int sql) \<Rightarrow> mailboxstate \<Rightarrow>
     int \<times> bool \<times> mailboxstate" where
  "MailboxState_flush_recent qperm qseq exec M =
     (case MailboxState_getPermission qperm M of (perm, M) \<Rightarrow>
        if perm \<noteq> IMAPPERM_READWRITE then (DM_SUCCESS, False, M)
        else if g_tree_nnodes (mb_recent_queue M) = 0 then (DM_SUCCESS, False, M)
        else (case MailboxState_getSeq qseq M of (seq, M) \<Rightarrow>
                let recent = g_tree_keys (mb_recent_queue M);
                    changed = update_recent exec (g_list_slices_u64 recent 100) (seq + 1)
                in (0, changed \<noteq> 0, M\<lparr>mb_recent_queue := []\<rparr>)))"

text \<open>The flag of the shared message info is cleared in the tree that is traversed.\<close>

definition clear_flag :: "nat \<Rightarrow> messageinfo \<Rightarrow> messageinfo" where
  "clear_flag f m = m\<lparr>mi_flags := (mi_flags m)[f := 0]\<rparr>"

definition mailbox_clear_recent :: "u64 \<Rightarrow> messageinfo \<Rightarrow> mailboxstate \<Rightarrow> bool \<times> mailboxstate" where
  "mailbox_clear_recent uid msginfo M =
     (let M = M\<lparr>mb_msginfo := g_tree_insert ucmpdata (mb_msginfo M) uid
                                (clear_flag IMAP_FLAG_RECENT msginfo)\<rparr>
      in (False,
          case g_tree_lookup_extended ucmp (mb_recent_queue M) uid of
            None \<Rightarrow> M
          | Some (orig_key, _) \<Rightarrow>
              M\<lparr>mb_recent_queue := g_tree_remove ucmp (mb_recent_queue M) orig_key\<rparr>))"

definition MailboxState_clear_recent :: "int option sql \<Rightarrow> mailboxstate \<Rightarrow> int \<times> mailboxstate" where
  "MailboxState_clear_recent q M =
     (case MailboxState_getPermission q M of (perm, M) \<Rightarrow>
        (0, if perm = IMAPPERM_READWRITE
            then g_tree_foreach (MailboxState_getMsginfo M) mailbox_clear_recent M else M))"

text \<open>The queue of \<open>N\<close> is taken over and destroyed.\<close>

definition MailboxState_merge_recent ::
  "mailboxstate \<Rightarrow> mailboxstate \<Rightarrow> int \<times> mailboxstate \<times> mailboxstate" where
  "MailboxState_merge_recent M N =
     (case g_tree_merge ucmp (mb_recent_queue M) (mb_recent_queue N) IST_SUBSEARCH_OR of
        (_, q, _) \<Rightarrow>
          (0, M\<lparr>mb_recent_queue := q, mb_recent := of_nat (g_tree_nnodes q)\<rparr>,
           N\<lparr>mb_recent_queue := []\<rparr>))"

section \<open>Adding and removing messages\<close>

definition MailboxState_addMsginfo ::
  "int option sql \<Rightarrow> mailboxstate \<Rightarrow> u64 \<Rightarrow> messageinfo \<Rightarrow> mailboxstate option" where
  "MailboxState_addMsginfo q M uid msginfo =
     (let M = M\<lparr>mb_msginfo := g_tree_insert ucmpdata (mb_msginfo M) uid msginfo\<rparr>;
          M = (if mi_flags msginfo ! IMAP_FLAG_RECENT = 1
               then M\<lparr>mb_seq := mb_seq M - 1, mb_recent := mb_recent M + 1\<rparr> else M)
      in MailboxState_remap (MailboxState_build_recent q M))"

definition MailboxState_removeUid :: "mailboxstate \<Rightarrow> u64 \<Rightarrow> (int \<times> mailboxstate) option" where
  "MailboxState_removeUid M uid =
     (case g_tree_lookup ucmpdata (mb_msginfo M) uid of
        None \<Rightarrow> Some (DM_EGENERAL, M)
      | Some msginfo \<Rightarrow>
          map_option (Pair DM_SUCCESS)
            (MailboxState_remap
               (M\<lparr>mb_msginfo := g_tree_insert ucmpdata (mb_msginfo M) uid
                                  (msginfo\<lparr>mi_status := MESSAGE_STATUS_DELETE\<rparr>),
                  mb_exists := mb_exists M - 1\<rparr>)))"

section \<open>Flags\<close>

text \<open>\<open>g_strchomp\<close> removes trailing white space; \<open>ws\<close> is its notion of white space.\<close>

definition g_strchomp :: "(char \<Rightarrow> bool) \<Rightarrow> string \<Rightarrow> string" where
  "g_strchomp ws s = rev (dropWhile ws (rev s))"

definition MailboxState_flags :: "(char \<Rightarrow> bool) \<Rightarrow> mailboxstate \<Rightarrow> string" where
  "MailboxState_flags ws M =
     (let s = join_with '' '' (take 5 imap_flag_desc_escaped);
          s = (if mb_keywords M \<noteq> [] then s @ '' '' @ g_list_join (mb_keywords M) (Some '' '') else s)
      in g_strchomp ws s)"

definition MailboxState_message_flags :: "mailboxstate \<Rightarrow> messageinfo \<Rightarrow> string list" where
  "MailboxState_message_flags M msginfo =
     (let sublist = map (\<lambda>j. imap_flag_desc_escaped ! j)
                      (filter (\<lambda>j. mi_flags msginfo ! j \<noteq> 0) [0..<IMAP_NFLAGS]);
          sublist = (if mi_flags msginfo ! IMAP_FLAG_RECENT = 0 \<and>
                        g_tree_lookup ucmp (mb_recent_queue M) (mi_uid msginfo) \<noteq> None
                     then sublist @ [imap_flag_desc_escaped ! IMAP_FLAG_RECENT] else sublist)
      in sublist @ filter (MailboxState_hasKeyword M) (mi_keywords msginfo))"

section \<open>Access rights\<close>

text \<open>
  \<open>MailboxState_hasPermission\<close>: \<open>owner_q\<close> is the answer of \<open>db_get_mailbox_owner\<close> (a result
  code and the owner), \<open>acl_q\<close> whether the user has an ACL row for the mailbox, and \<open>right_q\<close>
  whether that row grants the right.
\<close>

definition MailboxState_hasPermission ::
  "int \<times> u64 \<Rightarrow> bool sql \<Rightarrow> bool sql \<Rightarrow> mailboxstate \<Rightarrow> u64 \<Rightarrow> int \<times> mailboxstate" where
  "MailboxState_hasPermission owner_q acl_q right_q M userid =
     (let unknown = MailboxState_getOwner M = 0;
          M' = (if unknown then MailboxState_setOwner M (snd owner_q) else M);
          owner_id = MailboxState_getOwner M'
      in if unknown \<and> \<not> 0 < fst owner_q then (fst owner_q, M')
         else let owner_acl = (case acl_q of None \<Rightarrow> False | Some b \<Rightarrow> b)
              in if owner_id = userid \<and> \<not> owner_acl then (1, M')
                 else ((case right_q of None \<Rightarrow> DM_EQUERY | Some b \<Rightarrow> if b then 1 else 0), M'))"

record aclmap =
  lookup_flag :: bool
  read_flag :: bool
  seen_flag :: bool
  write_flag :: bool
  insert_flag :: bool
  post_flag :: bool
  create_flag :: bool
  delete_flag :: bool
  deleted_flag :: bool
  expunge_flag :: bool
  administer_flag :: bool

text \<open>
  \<open>MailboxState_getAcl\<close>: the row of the user, else the row of the user \<open>anyone\<close>. The columns
  come in the order of the SELECT; \<open>map\<close> is returned as it was when there is no row.
\<close>

definition acl_of_row :: "bool list \<Rightarrow> aclmap" where
  "acl_of_row r =
     \<lparr>lookup_flag = r ! 0, read_flag = r ! 1, seen_flag = r ! 2, write_flag = r ! 3,
      insert_flag = r ! 4, post_flag = r ! 5, create_flag = r ! 6, delete_flag = r ! 7,
      deleted_flag = r ! 8, expunge_flag = r ! 9, administer_flag = r ! 10\<rparr>"

definition MailboxState_getAcl ::
  "u64 option \<Rightarrow> (u64 \<Rightarrow> bool list option sql) \<Rightarrow> mailboxstate \<Rightarrow> u64 \<Rightarrow> aclmap \<Rightarrow> int \<times> aclmap" where
  "MailboxState_getAcl anyone_user acl_row M userid amap =
     (if MailboxState_getId M = 0 then (DM_EGENERAL, amap)
      else (case anyone_user of
              None \<Rightarrow> (DM_EQUERY, amap)
            | Some anyone \<Rightarrow>
                (case acl_row userid of
                   None \<Rightarrow> (DM_EQUERY, amap)
                 | Some (Some r) \<Rightarrow> (DM_SUCCESS, acl_of_row r)
                 | Some None \<Rightarrow>
                     (case acl_row anyone of
                        None \<Rightarrow> (DM_EQUERY, amap)
                      | Some None \<Rightarrow> (DM_SUCCESS, amap)
                      | Some (Some r) \<Rightarrow> (DM_SUCCESS, acl_of_row r)))))"

section \<open>States whose maps are up to date\<close>

definition numbered :: "mailboxstate \<Rightarrow> bool" where
  "numbered M \<longleftrightarrow>
     tree_sorted ucmpdata (mb_msginfo M) \<and> length (mb_msginfo M) < 2 ^ 64 - 1 \<and>
     mb_ids M = zip (live_uids (mb_msginfo M)) (numbers 1 (length (live_uids (mb_msginfo M)))) \<and>
     mb_msn M = zip (numbers 1 (length (live_uids (mb_msginfo M)))) (live_uids (mb_msginfo M))"

lemma live_uids_renumber [simp]: "live_uids (renumber n t) = live_uids t"
  by (induction n t rule: renumber.induct) (auto simp: live_uids_def live_def)

lemma length_renumber [simp]: "length (renumber n t) = length t"
  by (induction n t rule: renumber.induct) auto

lemma remap_numbered:
  assumes "tree_sorted ucmpdata (mb_msginfo M)" "length (mb_msginfo M) < 2 ^ 64 - 1"
  shows "\<exists>M'. MailboxState_remap M = Some M' \<and> numbered M' \<and>
           mb_msginfo M' = renumber 1 (mb_msginfo M) \<and>
           mb_exists M' = mb_exists M \<and> mb_recent_queue M' = mb_recent_queue M"
  using MailboxState_remap_correct [OF assms] assms
    tree_sorted_keys [OF renumber_keys, of ucmpdata 1 "mb_msginfo M"]
  by (simp add: numbered_def)

lemma set_live_uids:
  assumes "tree_sorted ucmpdata t"
  shows "set (live_uids t) = {u. \<exists>m. map_of t u = Some m \<and> mi_status m < MESSAGE_STATUS_DELETE}"
  using map_of_eq_Some_iff [OF ucmpdata_order.sorted_distinct [OF assms]]
  by (force simp: live_uids_def live_def)

lemma length_insert: "length (g_tree_insert cmp t k v) \<le> Suc (length t)"
  by (induction cmp t k v rule: g_tree_insert.induct) auto

lemma length_insert_present:
  "g_tree_lookup cmp t k \<noteq> None \<Longrightarrow> length (g_tree_insert cmp t k v) = length t"
  by (induction cmp t k v rule: g_tree_insert.induct) (auto split: if_splits)

lemma build_recent_frame:
  "mb_msginfo (MailboxState_build_recent q M) = mb_msginfo M"
  "mb_exists (MailboxState_build_recent q M) = mb_exists M"
proof -
  have perm: "mb_msginfo (snd (MailboxState_getPermission q M)) = mb_msginfo M \<and>
      mb_exists (snd (MailboxState_getPermission q M)) = mb_exists M"
    by (auto simp: MailboxState_getPermission_def db_getmailbox_permission_def Let_def
        split: option.splits)
  have "mb_msginfo (g_tree_foreach t mailbox_build_recent N) = mb_msginfo N \<and>
      mb_exists (g_tree_foreach t mailbox_build_recent N) = mb_exists N" for t N
    by (induction t arbitrary: N) (auto simp: mailbox_build_recent_def)
  with perm show "mb_msginfo (MailboxState_build_recent q M) = mb_msginfo M"
    "mb_exists (MailboxState_build_recent q M) = mb_exists M"
    by (auto simp: MailboxState_build_recent_def split: prod.splits)
qed

lemma live_insert:
  assumes "tree_sorted ucmpdata t"
  shows "set (live_uids (g_tree_insert ucmpdata t u m)) =
           (if mi_status m < MESSAGE_STATUS_DELETE then insert u (set (live_uids t))
            else set (live_uids t) - {u})"
  using assms
  by (auto simp: set_live_uids ucmpdata_order.insert_sorted ucmpdata_order.insert_map_of)

lemma addMsginfo_numbered:
  assumes "numbered M" "length (mb_msginfo M) < 2 ^ 64 - 2"
  shows "\<exists>M'. MailboxState_addMsginfo q M uid m = Some M' \<and> numbered M' \<and>
           set (live_uids (mb_msginfo M')) =
             (if mi_status m < MESSAGE_STATUS_DELETE then insert uid (set (live_uids (mb_msginfo M)))
              else set (live_uids (mb_msginfo M)) - {uid})"
proof -
  let ?t = "g_tree_insert ucmpdata (mb_msginfo M) uid m"
  let ?M1 = "M\<lparr>mb_msginfo := ?t\<rparr>"
  let ?M2 = "if mi_flags m ! IMAP_FLAG_RECENT = 1
             then ?M1\<lparr>mb_seq := mb_seq ?M1 - 1, mb_recent := mb_recent ?M1 + 1\<rparr> else ?M1"
  let ?M3 = "MailboxState_build_recent q ?M2"
  have t: "mb_msginfo ?M3 = ?t" by (simp add: build_recent_frame)
  have sorted: "tree_sorted ucmpdata (mb_msginfo M)" using assms(1) by (simp add: numbered_def)
  then have "tree_sorted ucmpdata ?t" by (rule ucmpdata_order.insert_sorted)
  moreover have "length ?t < 2 ^ 64 - 1"
    using assms(2) length_insert [of ucmpdata "mb_msginfo M" uid m] by simp
  ultimately obtain M' where M': "MailboxState_remap ?M3 = Some M'" "numbered M'"
      "mb_msginfo M' = renumber 1 ?t"
    using remap_numbered [of ?M3] unfolding t by blast
  have "MailboxState_addMsginfo q M uid m = Some M'"
    using M'(1) by (simp add: MailboxState_addMsginfo_def Let_def)
  then show ?thesis
    using M'(2,3) live_insert [OF sorted, of uid m] by simp
qed

lemma removeUid_numbered:
  assumes "numbered M" "map_of (mb_msginfo M) uid \<noteq> None"
  shows "\<exists>M'. MailboxState_removeUid M uid = Some (DM_SUCCESS, M') \<and> numbered M' \<and>
           mb_exists M' = mb_exists M - 1 \<and>
           set (live_uids (mb_msginfo M')) = set (live_uids (mb_msginfo M)) - {uid}"
proof -
  have sorted: "tree_sorted ucmpdata (mb_msginfo M)" "length (mb_msginfo M) < 2 ^ 64 - 1"
    using assms(1) by (simp_all add: numbered_def)
  obtain m where m: "g_tree_lookup ucmpdata (mb_msginfo M) uid = Some m"
    using assms(2) by (auto simp: ucmpdata_order.lookup_map_of [OF sorted(1)])
  let ?t = "g_tree_insert ucmpdata (mb_msginfo M) uid (m\<lparr>mi_status := MESSAGE_STATUS_DELETE\<rparr>)"
  let ?M = "M\<lparr>mb_msginfo := ?t, mb_exists := mb_exists M - 1\<rparr>"
  have "tree_sorted ucmpdata (mb_msginfo ?M)" "length (mb_msginfo ?M) < 2 ^ 64 - 1"
    using sorted m length_insert_present [of ucmpdata "mb_msginfo M" uid]
    by (simp_all add: ucmpdata_order.insert_sorted)
  from remap_numbered [OF this] obtain M' where M': "MailboxState_remap ?M = Some M'" "numbered M'"
      "mb_msginfo M' = renumber 1 ?t" "mb_exists M' = mb_exists M - 1"
    by auto
  then show ?thesis
    using m live_insert [OF sorted(1), of uid "m\<lparr>mi_status := MESSAGE_STATUS_DELETE\<rparr>"]
    by (simp add: MailboxState_removeUid_def)
qed

section \<open>The queue of recent messages\<close>

definition queue_keys :: "mailboxstate \<Rightarrow> u64 set" where
  "queue_keys M = dom (map_of (mb_recent_queue M))"

definition is_recent :: "u64 \<times> messageinfo \<Rightarrow> bool" where
  "is_recent e \<longleftrightarrow> mi_flags (snd e) ! IMAP_FLAG_RECENT \<noteq> 0"

lemma foreach_build_recent:
  "tree_sorted ucmp (mb_recent_queue M) \<Longrightarrow>
     tree_sorted ucmp (mb_recent_queue (g_tree_foreach t mailbox_build_recent M)) \<and>
     queue_keys (g_tree_foreach t mailbox_build_recent M) =
       queue_keys M \<union> fst ` set (filter is_recent t)"
proof (induction t arbitrary: M)
  case (Cons e t)
  let ?M = "snd (mailbox_build_recent (fst e) (snd e) M)"
  have "tree_sorted ucmp (mb_recent_queue ?M)"
      "queue_keys ?M = queue_keys M \<union> (if is_recent e then {fst e} else {})"
    using Cons.prems
    by (auto simp: mailbox_build_recent_def is_recent_def queue_keys_def ucmp_order.tree_simps)
  moreover have "g_tree_foreach (e # t) mailbox_build_recent M = g_tree_foreach t mailbox_build_recent ?M"
    by (cases e) (simp add: mailbox_build_recent_def)
  ultimately show ?case using Cons.IH [of ?M] by auto
qed simp

lemma getPermission_rw:
  "mb_permission M = IMAPPERM_READWRITE \<Longrightarrow> MailboxState_getPermission q M = (IMAPPERM_READWRITE, M)"
  by (simp add: MailboxState_getPermission_def IMAPPERM_READWRITE_def)

definition clear_recent_entry :: "u64 \<times> messageinfo \<Rightarrow> u64 \<times> messageinfo" where
  "clear_recent_entry e = (fst e, clear_flag IMAP_FLAG_RECENT (snd e))"

lemma foreach_clear_recent:
  assumes "tree_sorted ucmpdata (pre @ suf)" "tree_sorted ucmp (mb_recent_queue M)"
    and "mb_msginfo M = map clear_recent_entry pre @ suf"
  shows "mb_msginfo (g_tree_foreach suf mailbox_clear_recent M) = map clear_recent_entry (pre @ suf) \<and>
         tree_sorted ucmp (mb_recent_queue (g_tree_foreach suf mailbox_clear_recent M)) \<and>
         queue_keys (g_tree_foreach suf mailbox_clear_recent M) = queue_keys M - fst ` set suf"
  using assms
proof (induction suf arbitrary: pre M)
  case (Cons e suf)
  obtain u m where e: "e = (u, m)" by (cases e)
  let ?M = "snd (mailbox_clear_recent u m M)"
  have keys: "map fst (map clear_recent_entry pre) = map fst pre"
    by (simp add: clear_recent_entry_def comp_def)
  have sorted: "tree_sorted ucmpdata (map clear_recent_entry pre @ (u, m) # suf)"
    using Cons.prems(1) keys by (simp add: tree_sorted_map e del: map_map)
  have entry: "clear_recent_entry (u, m) = (u, clear_flag IMAP_FLAG_RECENT m)"
    by (simp add: clear_recent_entry_def)
  have "mb_msginfo ?M = map clear_recent_entry (pre @ [e]) @ suf"
    using ucmpdata_order.insert_replace [OF sorted] Cons.prems(3) entry
    by (simp add: mailbox_clear_recent_def Let_def e split: option.split)
  moreover have "tree_sorted ucmp (mb_recent_queue ?M)" "queue_keys ?M = queue_keys M - {u}"
    using Cons.prems(2)
    by (auto simp: mailbox_clear_recent_def Let_def queue_keys_def ucmp_order.tree_simps
        split: option.splits)
  moreover have "g_tree_foreach (e # suf) mailbox_clear_recent M = g_tree_foreach suf mailbox_clear_recent ?M"
    by (simp add: mailbox_clear_recent_def e Let_def)
  ultimately show ?case
    using Cons.IH [of "pre @ [e]" ?M] Cons.prems(1) by (auto simp: e)
qed simp

section \<open>Properties\<close>

text \<open>
  C4: adding a message and removing one keep the state numbered (the sequence numbers of the
  live messages are 1, 2, \dots\ in the order of their UIDs). After adding, the new UID is live
  if its status says so, and no other UID changes; after removing a known UID that one is no
  longer live and the message count has dropped by one.
\<close>

theorem add_remove_keep_numbering:
  assumes "numbered M" "length (mb_msginfo M) < 2 ^ 64 - 2" "map_of (mb_msginfo M) old \<noteq> None"
  shows "(\<exists>M'. MailboxState_addMsginfo q M uid m = Some M' \<and> numbered M' \<and>
            set (live_uids (mb_msginfo M')) =
              (if mi_status m < MESSAGE_STATUS_DELETE then insert uid (set (live_uids (mb_msginfo M)))
               else set (live_uids (mb_msginfo M)) - {uid})) \<and>
         (\<exists>M'. MailboxState_removeUid M old = Some (DM_SUCCESS, M') \<and> numbered M' \<and>
            mb_exists M' = mb_exists M - 1 \<and>
            set (live_uids (mb_msginfo M')) = set (live_uids (mb_msginfo M)) - {old})"
  using addMsginfo_numbered [OF assms(1,2)] removeUid_numbered [OF assms(1,3)] by blast

theorem add_remove_keep_numbering_witness:
  "let M = mailbox_zero\<lparr>mb_msginfo := [(7, messageinfo_zero\<lparr>mi_uid := 7\<rparr>)], mb_exists := 1,
             mb_ids := [(7, 1)], mb_msn := [(1, 7)]\<rparr>
   in numbered M \<and>
      (\<exists>M'. MailboxState_addMsginfo None M 4 messageinfo_zero = Some M' \<and> numbered M' \<and>
         set (live_uids (mb_msginfo M')) = {4, 7}) \<and>
      (\<exists>M'. MailboxState_removeUid M 7 = Some (DM_SUCCESS, M') \<and> numbered M' \<and> mb_exists M' = 0)"
proof -
  define M where "M = mailbox_zero\<lparr>mb_msginfo := [(7, messageinfo_zero\<lparr>mi_uid := 7\<rparr>)], mb_exists := 1,
             mb_ids := [(7, 1)], mb_msn := [(1, 7)]\<rparr>"
  have live: "live_uids (mb_msginfo M) = [7]"
    by (simp add: M_def live_uids_def live_def messageinfo_zero_def MESSAGE_STATUS_DELETE_def)
  have num: "numbered M"
    unfolding numbered_def live by (simp add: M_def tree_sorted_def numbers_def)
  have "length (mb_msginfo M) < 2 ^ 64 - 2" "map_of (mb_msginfo M) 7 \<noteq> None" "mb_exists M - 1 = 0"
      "mi_status messageinfo_zero < MESSAGE_STATUS_DELETE"
    by (simp_all add: M_def messageinfo_zero_def MESSAGE_STATUS_DELETE_def)
  with num add_remove_keep_numbering [OF num, of 7 None 4 messageinfo_zero] show ?thesis
    unfolding M_def [symmetric] Let_def live by auto
qed

text \<open>
  In a mailbox opened for writing, \<open>MailboxState_build_recent\<close> adds exactly the UIDs of the
  messages with the recent flag to the queue, and \<open>MailboxState_clear_recent\<close> removes all
  messages of the mailbox from the queue and clears their recent flag; both keep the queue
  ordered.
\<close>

lemma recent_queue_tracks_flags:
  assumes "mb_permission M = IMAPPERM_READWRITE"
    and "tree_sorted ucmpdata (mb_msginfo M)" "tree_sorted ucmp (mb_recent_queue M)"
  shows "(let M' = MailboxState_build_recent q M
          in tree_sorted ucmp (mb_recent_queue M') \<and>
             queue_keys M' = queue_keys M \<union> fst ` set (filter is_recent (mb_msginfo M))) \<and>
         (let M' = snd (MailboxState_clear_recent q M)
          in tree_sorted ucmp (mb_recent_queue M') \<and>
             queue_keys M' = queue_keys M - fst ` set (mb_msginfo M) \<and>
             mb_msginfo M' = map clear_recent_entry (mb_msginfo M))"
  using foreach_build_recent [OF assms(3)] foreach_clear_recent [of "[]" "mb_msginfo M" M] assms(2,3)
  by (simp add: MailboxState_build_recent_def MailboxState_clear_recent_def getPermission_rw [OF assms(1)]
      MailboxState_getMsginfo_def Let_def)

lemma recent_queue_tracks_flags_witness:
  "let M = mailbox_zero\<lparr>mb_permission := 2,
             mb_msginfo := [(7, messageinfo_zero\<lparr>mi_flags := [0, 0, 0, 0, 0, 1]\<rparr>)],
             mb_recent_queue := [(9, 9)]\<rparr>
   in queue_keys (MailboxState_build_recent None M) = {9, 7} \<and>
      queue_keys (snd (MailboxState_clear_recent None M)) = {9}"
proof -
  define M where "M = mailbox_zero\<lparr>mb_permission := 2,
             mb_msginfo := [(7, messageinfo_zero\<lparr>mi_flags := [0, 0, 0, 0, 0, 1]\<rparr>)],
             mb_recent_queue := [(9, 9)]\<rparr>"
  have "mb_permission M = IMAPPERM_READWRITE" "tree_sorted ucmpdata (mb_msginfo M)"
      "tree_sorted ucmp (mb_recent_queue M)"
    by (simp_all add: M_def IMAPPERM_READWRITE_def tree_sorted_def)
  from recent_queue_tracks_flags [OF this, of None] show ?thesis
    unfolding M_def [symmetric] Let_def
    by (simp add: M_def queue_keys_def is_recent_def IMAP_FLAG_RECENT_def insert_commute)
qed

text \<open>
  C14: \<open>MailboxState_hasPermission\<close> fails open for the owner of the mailbox: when the query for
  an ACL row of the owner fails, every right is granted, although such a row would restrict
  the owner to the rights it lists.
\<close>

theorem owner_permission_fails_open:
  assumes "mb_owner_id M = userid" "userid \<noteq> 0"
  shows "fst (MailboxState_hasPermission owner_q None (Some False) M userid) = 1 \<and>
         fst (MailboxState_hasPermission owner_q (Some True) (Some False) M userid) = 0"
  using assms
  by (simp add: MailboxState_hasPermission_def MailboxState_getOwner_def Let_def)

theorem owner_permission_fails_open_witness:
  "fst (MailboxState_hasPermission (1, 3) None (Some False) (mailbox_zero\<lparr>mb_owner_id := 3\<rparr>) 3) = 1"
  using owner_permission_fails_open [of "mailbox_zero\<lparr>mb_owner_id := 3\<rparr>" 3 "(1, 3)"] by simp

end
