(* ===== verification/MailboxSets.thy ===== *)
theory MailboxSets
  imports MailboxOps
begin

text \<open>
  Message sets (\<open>MailboxState_get_set\<close> of \<open>src/src/dm_mailboxstate.c\<close>): the evaluation of a set
  such as \<open>1:3,7,9:*\<close> against the UIDs or the sequence numbers of a mailbox. The result maps the
  UIDs of the selected messages to their sequence numbers.
\<close>

section \<open>Ranges\<close>

record filter_range_helper =
  fr_uid :: bool
  fr_min :: u64
  fr_max :: u64
  fr_a :: "(u64, u64) gtree"

definition filter_range :: "u64 \<Rightarrow> u64 \<Rightarrow> filter_range_helper \<Rightarrow> bool \<times> filter_range_helper" where
  "filter_range key val d =
     (if key < fr_min d then (False, d)
      else if fr_max d < key then (True, d)
      else (False,
            d\<lparr>fr_a := (if fr_uid d then g_tree_insert ucmpdata (fr_a d) key val
                       else g_tree_insert ucmpdata (fr_a d) val key)\<rparr>))"

definition find_range ::
  "(u64, u64) gtree \<Rightarrow> u64 \<Rightarrow> u64 \<Rightarrow> (u64, u64) gtree \<Rightarrow> bool \<Rightarrow> (u64, u64) gtree" where
  "find_range c l r a uid =
     fr_a (g_tree_foreach c filter_range \<lparr>fr_uid = uid, fr_min = l, fr_max = r, fr_a = a\<rparr>)"

section \<open>Parsing one element of a set\<close>

datatype parsed = Error | Stop | Range u64 u64

text \<open>
  An element against a non-empty mailbox. \<open>Stop\<close> is a \<open>break\<close> out of the loop without the error
  flag. The number \<open>0xffffffff\<close> is an Outlook client's way to write \<open>*\<close>.
\<close>

definition star_or_number :: "u64 \<Rightarrow> string \<Rightarrow> u64 option" where
  "star_or_number hi rest =
     (if at rest 0 = CHR ''*'' then Some hi
      else let r = fst (dm_strtoull rest)
           in if r = 0 then None else Some (if r = 0xffffffff then hi else r))"

definition parse_range :: "bool \<Rightarrow> u64 \<Rightarrow> u64 \<Rightarrow> string \<Rightarrow> parsed" where
  "parse_range uid lo hi str =
     (case (if at str 0 = CHR ''*''
            then Some (hi, if 1 < length str then tl str else str)
            else let (l, rest) = dm_strtoull str
                 in if l = 0 then None
                    else let l = (if l = 0xffffffff then hi else l)
                         in Some (if \<not> uid then max l lo else l, rest)) of
        None \<Rightarrow> Error
      | Some (l, rest) \<Rightarrow>
          if at rest 0 = CHR '':''
          then (case star_or_number hi (if 1 < length rest then tl rest else rest) of
                  None \<Rightarrow> Error
                | Some r \<Rightarrow> if r = 0 then Stop else if l = 0 \<or> r = 0 then Stop else Range l r)
          else if l = 0 then Stop else Range l l)"

text \<open>An element against an empty mailbox is only checked.\<close>

definition valid_for_empty :: "string \<Rightarrow> bool" where
  "valid_for_empty str =
     (if at str 0 = CHR ''*'' then True
      else let (l, rest) = dm_strtoull str
           in if l = 0 then False
              else if rest = [] then True
              else if hd rest \<noteq> CHR '':'' then False
              else at (tl rest) 0 = CHR ''*'' \<or> fst (dm_strtoull (tl rest)) \<noteq> 0)"

section \<open>The loop over the elements\<close>

fun get_set_loop ::
  "bool \<Rightarrow> (u64, u64) gtree \<Rightarrow> u64 \<Rightarrow> u64 \<Rightarrow> u64 \<Rightarrow> string list \<Rightarrow> (u64, u64) gtree \<Rightarrow> (u64, u64) gtree \<Rightarrow>
     (u64, u64) gtree option" where
  "get_set_loop uid inset lo hi uidnext [] a b = Some b"
| "get_set_loop uid inset lo hi uidnext (str # sets) a b =
     (if length str < 1 then Some b
      else if g_tree_nnodes inset = 0
      then (if valid_for_empty str
            then get_set_loop uid inset lo hi uidnext sets a (g_tree_insert ucmpdata b 1 uidnext)
            else None)
      else (case parse_range uid lo hi str of
              Error \<Rightarrow> None
            | Stop \<Rightarrow> Some b
            | Range l r \<Rightarrow>
                (case g_tree_merge ucmpdata b (find_range inset (min l r) (max l r) a uid) IST_SUBSEARCH_OR of
                   (err, b', a') \<Rightarrow>
                     if err \<noteq> 0 then None else get_set_loop uid inset lo hi uidnext sets a' b')))"

definition MailboxState_get_set ::
  "mailboxstate \<Rightarrow> string \<Rightarrow> bool \<Rightarrow> (u64, u64) gtree option \<times> mailboxstate" where
  "MailboxState_get_set M mset uid =
     (let inset = (if uid then MailboxState_getIds M else MailboxState_getMsn M);
          (n, M') = (if \<not> uid then MailboxState_getExists M else (0, M));
          (lo, hi) = (if \<not> uid then (1, ucast n)
                      else case g_tree_keys inset of
                             [] \<Rightarrow> (0, 0)
                           | k # ks \<Rightarrow> (k, last (k # ks)))
      in (get_set_loop uid inset lo hi (MailboxState_getUidnext M) (g_string_split mset CHR '','') [] [], M'))"

section \<open>What a range selects\<close>

text \<open>The entries of \<open>ids\<close> whose UID or sequence number is in the range.\<close>

definition select :: "(u64 \<rightharpoonup> u64) \<Rightarrow> bool \<Rightarrow> u64 \<Rightarrow> u64 \<Rightarrow> u64 \<rightharpoonup> u64" where
  "select ids uid l r u =
     (case ids u of
        None \<Rightarrow> None
      | Some n \<Rightarrow> (if (if uid then l \<le> u \<and> u \<le> r else l \<le> n \<and> n \<le> r) then Some n else None))"

lemma find_range_fold:
  "tree_sorted ucmpdata c \<Longrightarrow>
     find_range c l r a uid =
       fold (\<lambda>(k, v) a. if uid then g_tree_insert ucmpdata a k v else g_tree_insert ucmpdata a v k)
         (filter (\<lambda>e. l \<le> fst e \<and> fst e \<le> r) c) a"
proof (induction c arbitrary: a)
  case Nil
  then show ?case by (simp add: find_range_def)
next
  case (Cons e c)
  obtain k v where e: "e = (k, v)" by (cases e)
  have c: "tree_sorted ucmpdata c" and above: "\<forall>x\<in>set c. k < fst x"
    using Cons.prems by (auto simp: tree_sorted_def e)
  consider "k < l" | "r < k" "l \<le> k" | "l \<le> k" "k \<le> r" by fastforce
  then show ?case
  proof cases
    case 1
    then have "\<not> l \<le> k" by simp
    with 1 show ?thesis using Cons.IH [OF c]
      by (simp add: find_range_def filter_range_def e)
  next
    case 2
    then have "filter (\<lambda>x. l \<le> fst x \<and> fst x \<le> r) c = []"
      using above by (auto simp: filter_empty_conv dest: less_trans)
    moreover have "\<not> k < l" "\<not> k \<le> r" using 2 by simp_all
    ultimately show ?thesis using 2 by (simp add: find_range_def filter_range_def e)
  next
    case 3
    then have "\<not> k < l" "\<not> r < k" by simp_all
    with 3 show ?thesis
      using Cons.IH [OF c, of "if uid then g_tree_insert ucmpdata a k v else g_tree_insert ucmpdata a v k"]
      by (cases uid) (simp_all add: find_range_def filter_range_def e)
  qed
qed

lemma fold_insert_map_of:
  assumes "tree_sorted ucmpdata a" "distinct (map fst es)"
  shows "tree_sorted ucmpdata (fold (\<lambda>(k, v) a. g_tree_insert ucmpdata a k v) es a) \<and>
         map_of (fold (\<lambda>(k, v) a. g_tree_insert ucmpdata a k v) es a) = map_of a ++ map_of es"
  using assms
proof (induction es arbitrary: a)
  case (Cons e es)
  obtain k v where e: "e = (k, v)" by (cases e)
  have "map_of es k = None" using Cons.prems(2) by (simp add: e map_of_eq_None_iff)
  then have "(map_of a)(k \<mapsto> v) ++ map_of es = map_of a ++ (map_of es)(k \<mapsto> v)"
    by (auto simp: fun_eq_iff map_add_def split: option.split)
  moreover have "tree_sorted ucmpdata (g_tree_insert ucmpdata a k v)" "distinct (map fst es)"
    using Cons.prems by (simp_all add: e ucmpdata_order.insert_sorted)
  note Cons.IH [OF this, unfolded ucmpdata_order.insert_map_of [OF Cons.prems(1)]]
  ultimately show ?case
    by (simp only: e fold_Cons comp_def prod.case map_of.simps fst_conv snd_conv)
qed simp

lemma map_of_eqI:
  assumes "distinct (map fst es)" "\<And>u n. (u, n) \<in> set es \<longleftrightarrow> m u = Some n"
  shows "map_of es = m"
proof
  fix u
  show "map_of es u = m u"
    using map_of_eq_Some_iff [OF assms(1)] assms(2) by (cases "m u") (metis option.exhaust)+
qed

lemma select_Some:
  "select ids uid l r u = Some n \<longleftrightarrow>
     ids u = Some n \<and> (if uid then l \<le> u \<and> u \<le> r else l \<le> n \<and> n \<le> r)"
  by (auto simp: select_def split: option.splits if_splits)

lemma find_range_select:
  assumes "maps_ok M" "tree_sorted ucmpdata a"
  shows "tree_sorted ucmpdata (find_range (if uid then mb_ids M else mb_msn M) l r a uid) \<and>
         map_of (find_range (if uid then mb_ids M else mb_msn M) l r a uid) =
           map_of a ++ select (map_of (mb_ids M)) uid l r"
proof -
  have s: "tree_sorted ucmpdata (mb_ids M)" "tree_sorted ucmpdata (mb_msn M)"
    and inv: "\<And>u n. map_of (mb_ids M) u = Some n \<longleftrightarrow> map_of (mb_msn M) n = Some u"
    using assms(1) by (auto simp: maps_ok_def)
  note di = ucmpdata_order.sorted_distinct [OF s(1)] and dm = ucmpdata_order.sorted_distinct [OF s(2)]
  show ?thesis
  proof (cases uid)
    case True
    let ?es = "filter (\<lambda>e. l \<le> fst e \<and> fst e \<le> r) (mb_ids M)"
    have d: "distinct (map fst ?es)" using di by (simp add: distinct_map_filter)
    moreover have "map_of ?es = select (map_of (mb_ids M)) True l r"
      using map_of_eq_Some_iff [OF di] by (intro map_of_eqI [OF d]) (auto simp: select_Some)
    ultimately show ?thesis
      using True fold_insert_map_of [OF assms(2) d] by (simp add: find_range_fold [OF s(1)])
  next
    case False
    let ?fs = "filter (\<lambda>e. l \<le> fst e \<and> fst e \<le> r) (mb_msn M)"
    let ?es = "map prod.swap ?fs"
    have in_es: "(u, n) \<in> set ?es \<longleftrightarrow> select (map_of (mb_ids M)) False l r u = Some n" for u n
      using map_of_eq_Some_iff [OF dm] by (auto simp: select_Some inv image_iff)
    have "distinct (mb_msn M)" using dm by (simp add: distinct_map)
    then have d: "distinct (map fst ?es)"
      using in_es by (auto simp: distinct_map inj_on_def select_Some)
    have "fold (\<lambda>(k, v) a. g_tree_insert ucmpdata a v k) ?fs a =
        fold (\<lambda>(k, v) a. g_tree_insert ucmpdata a k v) ?es a"
      by (simp add: fold_map comp_def case_prod_unfold)
    then show ?thesis
      using False fold_insert_map_of [OF assms(2) d] map_of_eqI [OF d in_es]
      by (simp add: find_range_fold [OF s(2)])
  qed
qed

section \<open>What a set selects\<close>

text \<open>
  The ranges of a set up to the first element at which the loop stops; \<open>None\<close> when an element is
  in error.
\<close>

fun set_ranges :: "bool \<Rightarrow> u64 \<Rightarrow> u64 \<Rightarrow> string list \<Rightarrow> (u64 \<times> u64) list option" where
  "set_ranges uid lo hi [] = Some []"
| "set_ranges uid lo hi (str # sets) =
     (if str = [] then Some []
      else (case parse_range uid lo hi str of
              Error \<Rightarrow> None
            | Stop \<Rightarrow> Some []
            | Range l r \<Rightarrow> map_option (Cons (min l r, max l r)) (set_ranges uid lo hi sets)))"

definition selected :: "(u64 \<rightharpoonup> u64) \<Rightarrow> bool \<Rightarrow> (u64 \<times> u64) list \<Rightarrow> u64 set" where
  "selected ids uid rs = (\<Union>(l, r)\<in>set rs. dom (select ids uid l r))"

lemma select_sub: "u \<in> dom (select ids uid l r) \<Longrightarrow> select ids uid l r u = ids u"
  by (auto simp: select_def split: option.splits if_splits)

lemma get_set_loop_selects:
  assumes "maps_ok M" "(if uid then mb_ids M else mb_msn M) \<noteq> []"
    and "tree_sorted ucmpdata a" "tree_sorted ucmpdata b"
    and "map_of a \<subseteq>\<^sub>m map_of b" "map_of b \<subseteq>\<^sub>m map_of (mb_ids M)"
  shows "case set_ranges uid lo hi sets of
           None \<Rightarrow> get_set_loop uid (if uid then mb_ids M else mb_msn M) lo hi nxt sets a b = None
         | Some rs \<Rightarrow>
             (\<exists>b'. get_set_loop uid (if uid then mb_ids M else mb_msn M) lo hi nxt sets a b = Some b' \<and>
                tree_sorted ucmpdata b' \<and>
                map_of b' = map_of (mb_ids M) |` (dom (map_of b) \<union> selected (map_of (mb_ids M)) uid rs))"
  using assms(3-6)
proof (induction sets arbitrary: a b)
  case Nil
  have "map_of b = map_of (mb_ids M) |` dom (map_of b)"
    using Nil.prems(4) by (auto simp: fun_eq_iff restrict_map_def map_le_def)
  with Nil show ?case by (simp add: selected_def)
next
  case (Cons str sets)
  let ?in = "if uid then mb_ids M else mb_msn M"
  let ?ids = "map_of (mb_ids M)"
  have keep: "map_of b = ?ids |` dom (map_of b)"
    using Cons.prems(4) by (auto simp: fun_eq_iff restrict_map_def map_le_def)
  have nonempty: "g_tree_nnodes ?in \<noteq> 0" using assms(2) by (simp add: g_tree_nnodes_def)
  show ?case
  proof (cases "str = [] \<or> (\<forall>l r. parse_range uid lo hi str \<noteq> Range l r)")
    case True
    then show ?thesis
      using nonempty Cons.prems keep
      by (cases "parse_range uid lo hi str") (auto simp: selected_def simp del: dom_map_of_conv_image_fst)
  next
    case False
    then obtain l r where lr: "parse_range uid lo hi str = Range l r" "str \<noteq> []" by auto
    let ?sel = "select ?ids uid (min l r) (max l r)"
    define f where "f = find_range ?in (min l r) (max l r) a uid"
    have f: "tree_sorted ucmpdata f" "map_of f = map_of a ++ ?sel"
      using find_range_select [OF assms(1) Cons.prems(1), of uid "min l r" "max l r"] by (auto simp: f_def)
    obtain b1 a1 where m: "g_tree_merge ucmpdata b f IST_SUBSEARCH_OR = (0, b1, a1)"
        "tree_sorted ucmpdata b1" "tree_sorted ucmpdata a1"
        "map_of b1 = map_of f ++ map_of b" "map_of a1 = map_of f |` dom (map_of b)"
      using ucmpdata_order.merge_OR [OF Cons.prems(2) f(1)] by metis
    have f_ids: "map_of f u = Some n \<Longrightarrow> ?ids u = Some n" for u n
      using Cons.prems(3,4) f(2) select_sub [of u ?ids uid "min l r" "max l r"]
      by (auto simp: map_add_Some_iff map_le_def domIff dom_def)
    have b1: "map_of b1 = ?ids |` (dom (map_of b) \<union> dom ?sel)"
    proof
      fix u
      show "map_of b1 u = (?ids |` (dom (map_of b) \<union> dom ?sel)) u"
        using Cons.prems(3,4) f(2) select_sub [of u ?ids uid "min l r" "max l r"]
        by (cases "map_of b u"; cases "?sel u")
          (auto simp: m(4) map_add_def restrict_map_def map_le_def domIff dom_def split: option.splits)
    qed
    have "map_of a1 \<subseteq>\<^sub>m map_of b1" "map_of b1 \<subseteq>\<^sub>m ?ids"
      using f_ids by (auto simp: map_le_def b1 m(5) restrict_map_def split: if_splits)
    note IH = Cons.IH [OF m(3,2) this]
    have step: "get_set_loop uid ?in lo hi nxt (str # sets) a b = get_set_loop uid ?in lo hi nxt sets a1 b1"
      using lr nonempty m(1) by (simp add: f_def [symmetric])
    have "dom (map_of b) \<subseteq> dom ?ids" using Cons.prems(4) by (rule map_le_implies_dom_le)
    moreover have "dom ?sel \<subseteq> dom ?ids" using select_sub by (metis domIff subsetI)
    ultimately have dom: "dom (map_of b1) = dom (map_of b) \<union> dom ?sel"
      unfolding b1 dom_restrict by blast
    have sel: "selected ?ids uid ((min l r, max l r) # rs) = dom ?sel \<union> selected ?ids uid rs" for rs
      by (simp add: selected_def)
    show ?thesis
    proof (cases "set_ranges uid lo hi sets")
      case None
      then show ?thesis using IH lr step by simp
    next
      case (Some rs)
      then have "set_ranges uid lo hi (str # sets) = Some ((min l r, max l r) # rs)"
        using lr by simp
      with IH [unfolded Some option.case dom] show ?thesis
        unfolding step by (simp only: option.case sel Un_assoc)
    qed
  qed
qed

text \<open>The bounds that \<open>MailboxState_get_set\<close> uses for \<open>*\<close>.\<close>

definition set_lo :: "mailboxstate \<Rightarrow> bool \<Rightarrow> u64" where
  "set_lo M uid = (if uid then fst (hd (mb_ids M)) else 1)"

definition set_hi :: "mailboxstate \<Rightarrow> bool \<Rightarrow> u64" where
  "set_hi M uid = (if uid then fst (last (mb_ids M)) else ucast (fst (MailboxState_getExists M)))"

lemma maps_ok_empty: "maps_ok M \<Longrightarrow> mb_ids M = [] \<longleftrightarrow> mb_msn M = []"
  unfolding maps_ok_def by (metis map_of_eq_empty_iff option.exhaust)

lemma get_set_eq_loop:
  assumes "mb_ids M \<noteq> []"
  shows "fst (MailboxState_get_set M mset uid) =
           get_set_loop uid (if uid then mb_ids M else mb_msn M) (set_lo M uid) (set_hi M uid)
             (mb_uidnext M) (g_string_split mset CHR '','') [] []"
proof (cases uid)
  case True
  obtain e es where ids: "mb_ids M = e # es" using assms by (cases "mb_ids M") auto
  then have "last (map fst (mb_ids M)) = fst (last (mb_ids M))" by (simp add: last_map)
  with True ids show ?thesis
    by (simp add: MailboxState_get_set_def MailboxState_getIds_def MailboxState_getUidnext_def
        set_lo_def set_hi_def)
next
  case False
  then show ?thesis
    by (simp add: MailboxState_get_set_def MailboxState_getMsn_def MailboxState_getUidnext_def
        set_lo_def set_hi_def split: prod.split)
qed

section \<open>Properties\<close>



text \<open>
  Against an empty mailbox every syntactically acceptable set that is not empty selects a
  message that does not exist: the result maps the UID 1 to the next UID.
\<close>

lemma get_set_empty_mailbox:
  assumes "mb_ids M = []" "mb_msn M = []" "s \<noteq> []" "CHR '','' \<notin> set s" "valid_for_empty s"
  shows "fst (MailboxState_get_set M s uid) = Some [(1, mb_uidnext M)]"
proof -
  have "g_string_split s CHR '','' = [s]"
    using assms(3,4) by (simp add: g_string_split_def g_strsplit_def split_on_no_delim)
  with assms(1-3,5) show ?thesis
    by (cases uid) (auto simp: MailboxState_get_set_def MailboxState_getIds_def MailboxState_getMsn_def
        MailboxState_getUidnext_def g_tree_nnodes_def Suc_le_eq split: prod.split)
qed

lemma get_set_empty_mailbox_witness:
  "fst (MailboxState_get_set (mailbox_zero\<lparr>mb_uidnext := 8\<rparr>) ''*'' True) = Some [(1, 8)]"
  using get_set_empty_mailbox [of "mailbox_zero\<lparr>mb_uidnext := 8\<rparr>" "''*''" True]
  by (simp add: mailbox_zero_def valid_for_empty_def at_def)

end
