(* ===== verification/MailboxLoad.thy ===== *)
theory MailboxLoad
  imports MailboxSets
begin

text \<open>
  Loading a mailbox state from the database (\<open>MailboxState_new\<close>, \<open>MailboxState_update\<close> and what
  they call in \<open>src/src/dm_mailboxstate.c\<close>). The answers of the queries are the fields of
  \<open>mbxdb\<close>; an exception in one of them ends the load.
\<close>

section \<open>The database as the loader sees it\<close>

record msgrow =
  row_flags :: "bool list"
  row_date :: "string option"
  row_rfcsize :: u64
  row_seq :: u64
  row_id :: u64
  row_status :: int
  row_phys_id :: int

record mbxdb =
  q_seq :: "(string \<times> u64) option sql"
  q_permission :: "int option sql"
  q_counts :: "(int \<times> int \<times> int) option sql"
  q_maxuid :: "u64 option sql"
  q_keywords :: "string list sql"
  q_info :: "(bool \<times> u64 \<times> string \<times> bool \<times> bool) option sql"
  q_children :: "u64 \<Rightarrow> mailbox_match option \<Rightarrow> int option sql"
  q_messages :: "msgrow list sql"
  q_message_keywords :: "(u64 \<times> string) list sql"

section \<open>Metadata\<close>

text \<open>
  The two operations that are also called on a state in use return a flag, false after an
  exception, and the state they have reached by then.
\<close>

definition committed :: "bool \<times> mailboxstate \<Rightarrow> mailboxstate sql" where
  "committed r = (if fst r then Some (snd r) else None)"

definition db_getmailbox_count :: "mbxdb \<Rightarrow> mailboxstate \<Rightarrow> bool \<times> mailboxstate" where
  "db_getmailbox_count db M =
     (if mb_id M = 0 then (True, M)
      else (case q_counts db of
              None \<Rightarrow> (False, M)
            | Some row \<Rightarrow>
                let (r0, r1, r2) = (case row of None \<Rightarrow> (0, 0, 0) | Some r \<Rightarrow> r);
                    M = M\<lparr>mb_exists := word_of_int r0 + word_of_int r1, mb_unseen := word_of_int r0,
                          mb_recent := word_of_int r2\<rparr>
                in if mb_exists M = 0 then (True, M\<lparr>mb_uidnext := 1\<rparr>)
                   else (case q_maxuid db of
                           None \<Rightarrow> (False, M)
                         | Some r \<Rightarrow> (True, M\<lparr>mb_uidnext := (case r of None \<Rightarrow> 1 | Some u \<Rightarrow> u)\<rparr>))))"

definition db_getmailbox_keywords :: "mbxdb \<Rightarrow> mailboxstate \<Rightarrow> mailboxstate sql" where
  "db_getmailbox_keywords db M =
     map_option (\<lambda>ks. fold (\<lambda>k M. MailboxState_addKeyword M k) ks M) (q_keywords db)"

text \<open>The owner is both the owner and the user for \<open>mailbox_add_namespace\<close>.\<close>

definition info_of_row ::
  "(u64 \<Rightarrow> string option) \<Rightarrow> bool \<times> u64 \<times> string \<times> bool \<times> bool \<Rightarrow> mailboxstate \<Rightarrow> mailboxstate" where
  "info_of_row auth_get_userid row M =
     (case row of (subscribed, owner, name, no_sel, no_inf) \<Rightarrow>
        let M = M\<lparr>mb_is_subscribed := subscribed, mb_owner_id := owner\<rparr>;
            M = (if strcaseeq name ''INBOX''
                 then M\<lparr>mb_is_inbox := True, mb_is_subscribed := True\<rparr> else M);
            mbxname = (case mailbox_add_namespace auth_get_userid (Some name) owner owner of
                         None \<Rightarrow> [] | Some s \<Rightarrow> s);
            M = MailboxState_setName M (take IMAP_MAX_MAILBOX_NAMELEN mbxname)
        in M\<lparr>mb_no_select := no_sel, mb_no_inferiors := no_inf\<rparr>)"

definition db_getmailbox_info ::
  "(u64 \<Rightarrow> string option) \<Rightarrow> mbxdb \<Rightarrow> mailboxstate \<Rightarrow> bool \<times> mailboxstate" where
  "db_getmailbox_info auth_get_userid db M =
     (case q_info db of
        None \<Rightarrow> (False, M)
      | Some row \<Rightarrow>
          let M = (case row of None \<Rightarrow> M | Some r \<Rightarrow> info_of_row auth_get_userid r M);
              like = map_option (\<lambda>r. mailbox_match_new (fst (snd (snd r)) @ ''/%'')) row
          in (case q_children db (mb_owner_id M) like of
                None \<Rightarrow> (False, M)
              | Some n \<Rightarrow> (True, M\<lparr>mb_no_children := (case n of None \<Rightarrow> True | Some k \<Rightarrow> k = 0)\<rparr>)))"

definition state_load_metadata :: "(u64 \<Rightarrow> string option) \<Rightarrow> mbxdb \<Rightarrow> mailboxstate \<Rightarrow> mailboxstate sql" where
  "state_load_metadata auth_get_userid db M =
     (if mb_id M = 0 then Some M
      else do {
        let oldseq = mb_seq M;
        M \<leftarrow> db_getmailbox_seq (q_seq db) M;
        if mb_uidnext M \<noteq> 0 \<and> mb_seq M = oldseq then Some M
        else do {
          M \<leftarrow> db_getmailbox_permission (q_permission db) M;
          M \<leftarrow> committed (db_getmailbox_count db M);
          M \<leftarrow> db_getmailbox_keywords db M;
          committed (db_getmailbox_info auth_get_userid db M)
        }
      })"

definition MailboxState_info ::
  "(u64 \<Rightarrow> string option) \<Rightarrow> mbxdb \<Rightarrow> mailboxstate \<Rightarrow> int \<times> mailboxstate" where
  "MailboxState_info auth_get_userid db M =
     (case db_getmailbox_info auth_get_userid db M of
        (ok, M') \<Rightarrow> (if ok then DM_SUCCESS else DM_EQUERY, M'))"

definition MailboxState_count :: "mbxdb \<Rightarrow> mailboxstate \<Rightarrow> int \<times> mailboxstate" where
  "MailboxState_count db M =
     (case db_getmailbox_count db M of (ok, M') \<Rightarrow> (if ok then DM_SUCCESS else DM_EQUERY, M'))"

section \<open>Messages\<close>

text \<open>
  The fields of a row, written into a new or an existing message info. \<open>db_result_get_int\<close> reads
  the physical message id as an \<open>int\<close>.
\<close>

definition fill_info :: "u64 \<Rightarrow> msgrow \<Rightarrow> messageinfo \<Rightarrow> messageinfo" where
  "fill_info mailbox_id row m =
     m\<lparr>mi_uid := row_id row, mi_mailbox_id := mailbox_id,
       mi_flags := map (\<lambda>j. if row_flags row ! j then 1 else 0) [0..<IMAP_NFLAGS],
       mi_internaldate := take (IMAP_INTERNALDATE_LEN - 1)
         (case row_date row of None \<Rightarrow> ''01-Jan-1970 00:00:01 +0100'' | Some d \<Rightarrow> d),
       mi_rfcsize := row_rfcsize row, mi_seq := row_seq row, mi_status := row_status row,
       mi_phys_id := word_of_int (row_phys_id row)\<rparr>"

record load_state =
  ld_msginfo :: "(u64, messageinfo) gtree"
  ld_batch :: int
  ld_deleted :: "u64 list"

text \<open>
  One row. \<open>ld_batch\<close> is \<open>mailbox_sync_batch_size\<close> and \<open>ld_deleted\<close> lists the messages passed to
  \<open>db_set_message_status\<close>.
\<close>

definition load_row :: "u64 \<Rightarrow> bool \<Rightarrow> int \<Rightarrow> msgrow \<Rightarrow> load_state \<Rightarrow> load_state" where
  "load_row mailbox_id coldLoad sync_deleted row st =
     (let known = (if coldLoad then None else g_tree_lookup ucmpdata (ld_msginfo st) (row_id row))
      in if \<not> coldLoad \<and> known = None \<and> MESSAGE_STATUS_DELETE \<le> row_status row then st
         else let m = fill_info mailbox_id row
                        (case known of None \<Rightarrow> messageinfo_zero | Some m \<Rightarrow> m\<lparr>mi_keywords := []\<rparr>);
                  desync = mi_flags m ! IMAP_FLAG_DELETED = 1 \<and> mi_status m < MESSAGE_STATUS_DELETE \<and>
                           sync_deleted = 2 \<and> 0 < ld_batch st;
                  m = (if desync then m\<lparr>mi_status := MESSAGE_STATUS_DELETE\<rparr> else m);
                  st = (if desync then st\<lparr>ld_batch := ld_batch st - 1,
                                          ld_deleted := ld_deleted st @ [row_id row]\<rparr> else st);
                  leaving = MESSAGE_STATUS_DELETE \<le> mi_status m \<or> mi_flags m ! IMAP_FLAG_DELETED = 1 \<or>
                            mi_expunged m = 1 \<or> 1 \<le> mi_expunge m;
                  m = (if leaving then m\<lparr>mi_expunge := mi_expunge m + 1\<rparr> else m)
              in if leaving \<and> mi_expunged m = 1
                 then st\<lparr>ld_msginfo := g_tree_remove ucmpdata (ld_msginfo st) (row_id row)\<rparr>
                 else let m = (if mi_flags m ! IMAP_FLAG_SEEN = 1
                               then m\<lparr>mi_keywords := mi_keywords m @ [imap_flag_desc_escaped ! IMAP_FLAG_SEEN]\<rparr>
                               else m)
                      in st\<lparr>ld_msginfo := g_tree_insert ucmpdata (ld_msginfo st) (row_id row) m\<rparr>)"

text \<open>
  The keyword rows. The source keeps the message info of the previous row to save lookups; it
  is the info that a lookup of the row's id gives.
\<close>

definition load_keyword :: "u64 \<times> string \<Rightarrow> (u64, messageinfo) gtree \<Rightarrow> (u64, messageinfo) gtree" where
  "load_keyword row t =
     (case row of (i, keyword) \<Rightarrow>
        if keyword = [] then t
        else (case g_tree_lookup ucmpdata t i of
                None \<Rightarrow> t
              | Some m \<Rightarrow> g_tree_insert ucmpdata t i (m\<lparr>mi_keywords := mi_keywords m @ [keyword]\<rparr>)))"

definition state_load_messages ::
  "int \<Rightarrow> int \<Rightarrow> mbxdb \<Rightarrow> mailboxstate \<Rightarrow> bool \<Rightarrow> (u64 list \<times> mailboxstate) sql" where
  "state_load_messages sync_deleted batch db M coldLoad =
     do {
       let (seq, M) = MailboxState_getSeq (q_seq db) M;
       rows \<leftarrow> q_messages db;
       let st = fold (load_row (mb_id M) coldLoad sync_deleted) rows
                  \<lparr>ld_msginfo = MailboxState_getMsginfo M, ld_batch = batch, ld_deleted = []\<rparr>;
       t \<leftarrow> (if rows = [] then Some (ld_msginfo st)
             else map_option (\<lambda>ks. fold load_keyword ks (ld_msginfo st)) (q_message_keywords db));
       M' \<leftarrow> MailboxState_setMsginfo (M\<lparr>mb_state_seq := seq\<rparr>) t;
       Some (ld_deleted st, M')
     }"

section \<open>Opening and updating\<close>

text \<open>
  \<open>None\<close> is the case of an SQL exception, in which the state has been freed when the function
  returns the pointer to it.
\<close>

definition MailboxState_new ::
  "(u64 \<Rightarrow> string option) \<Rightarrow> int \<Rightarrow> int \<Rightarrow> mbxdb \<Rightarrow> u64 \<Rightarrow> mailboxstate option" where
  "MailboxState_new auth_get_userid sync_deleted batch db i =
     (if i = 0 then Some mailbox_zero
      else do {
        M \<leftarrow> state_load_metadata auth_get_userid db (mailbox_zero\<lparr>mb_id := i\<rparr>);
        map_option snd (state_load_messages sync_deleted batch db M True)
      })"

definition MailboxState_update ::
  "(u64 \<Rightarrow> string option) \<Rightarrow> int \<Rightarrow> int \<Rightarrow> int \<Rightarrow> mbxdb \<Rightarrow> mailboxstate \<Rightarrow>
     mailboxstate option \<times> mailboxstate" where
  "MailboxState_update auth_get_userid max_iterations sync_deleted batch db OldM =
     (if 0 < max_iterations \<and> max_iterations - 1 \<le> sint (mb_differential_iterations OldM)
      then (MailboxState_new auth_get_userid sync_deleted batch db (mb_id OldM), OldM)
      else if mb_id OldM = 0 then (Some mailbox_zero, OldM)
      else (case g_tree_merge ucmpdata [] (mb_msginfo OldM) IST_SUBSEARCH_OR of
              (_, t, old) \<Rightarrow>
                let M = mailbox_zero\<lparr>mb_id := mb_id OldM, mb_msginfo := t,
                          mb_differential_iterations := mb_differential_iterations OldM + 1,
                          mb_state_seq := mb_state_seq OldM\<rparr>
                in (do {
                      M \<leftarrow> state_load_metadata auth_get_userid db M;
                      map_option snd (state_load_messages sync_deleted batch db M False)
                    },
                    MailboxState_resetSeq (OldM\<lparr>mb_msginfo := old\<rparr>))))"

section \<open>What a load leaves in the tree\<close>

lemma live_uids_map_of:
  assumes "tree_sorted ucmpdata t"
  shows "u \<in> set (live_uids t) \<longleftrightarrow> (\<exists>m. map_of t u = Some m \<and> mi_status m < MESSAGE_STATUS_DELETE)"
proof -
  have "map_of t u = Some m \<longleftrightarrow> (u, m) \<in> set t" for m
    using ucmpdata_order.sorted_distinct [OF assms] by simp
  then show ?thesis
    by (auto simp: live_uids_def live_def image_iff)
qed

text \<open>Whether a row leaves its message live, given the info the tree had for it.\<close>

definition stays :: "msgrow \<Rightarrow> messageinfo option \<Rightarrow> bool" where
  "stays row known \<longleftrightarrow> row_status row < MESSAGE_STATUS_DELETE \<and>
     (case known of None \<Rightarrow> True | Some m \<Rightarrow> mi_expunged m \<noteq> 1)"

lemma fill_info_fields [simp]:
  "mi_status (fill_info i row m) = row_status row"
  "mi_expunged (fill_info i row m) = mi_expunged m"
  by (simp_all add: fill_info_def)

lemma load_row_tree:
  fixes st :: load_state and row :: msgrow and cold :: bool
  defines "t \<equiv> ld_msginfo st" and "u \<equiv> row_id row"
  defines "known \<equiv> (if cold then None else g_tree_lookup ucmpdata t u)"
  assumes "sync \<noteq> 2"
  shows "(ld_msginfo (load_row i cold sync row st) = t \<and> \<not> cold \<and> known = None \<and> \<not> stays row known) \<or>
         (ld_msginfo (load_row i cold sync row st) = g_tree_remove ucmpdata t u \<and> \<not> stays row known) \<or>
         (\<exists>m. ld_msginfo (load_row i cold sync row st) = g_tree_insert ucmpdata t u m \<and>
              (mi_status m < MESSAGE_STATUS_DELETE \<longleftrightarrow> stays row known))"
proof (cases known)
  case None
  then show ?thesis
    using assms(4) unfolding t_def u_def known_def load_row_def Let_def
    by (auto simp: stays_def messageinfo_zero_def)
next
  case (Some m)
  then have "\<not> cold" "g_tree_lookup ucmpdata (ld_msginfo st) (row_id row) = Some m"
    by (auto simp: known_def t_def u_def split: if_splits)
  then show ?thesis
    using assms(4) unfolding t_def u_def known_def load_row_def Let_def
    by (auto simp: stays_def)
qed

definition live_after :: "bool \<Rightarrow> msgrow list \<Rightarrow> (u64, messageinfo) gtree \<Rightarrow> u64 \<Rightarrow> bool" where
  "live_after cold rows t u =
     (case find (\<lambda>r. row_id r = u) rows of
        None \<Rightarrow> u \<in> set (live_uids t)
      | Some r \<Rightarrow> stays r (if cold then None else map_of t u))"

lemma load_row_correct:
  fixes row :: msgrow
  defines "u \<equiv> row_id row"
  assumes sorted: "tree_sorted ucmpdata (ld_msginfo st)" and sync: "sync \<noteq> 2"
  shows "tree_sorted ucmpdata (ld_msginfo (load_row i cold sync row st))"
    and "fst ` set (ld_msginfo (load_row i cold sync row st)) \<subseteq> insert u (fst ` set (ld_msginfo st))"
    and "v \<noteq> u \<Longrightarrow> map_of (ld_msginfo (load_row i cold sync row st)) v = map_of (ld_msginfo st) v"
    and "u \<in> set (live_uids (ld_msginfo (load_row i cold sync row st))) \<longleftrightarrow>
           stays row (if cold then None else map_of (ld_msginfo st) u)"
proof -
  let ?t = "ld_msginfo st" and ?t' = "ld_msginfo (load_row i cold sync row st)"
  let ?known = "if cold then None else map_of ?t u"
  consider "?t' = ?t" "\<not> cold" "?known = None" "\<not> stays row ?known"
    | "?t' = g_tree_remove ucmpdata ?t u" "\<not> stays row ?known"
    | m where "?t' = g_tree_insert ucmpdata ?t u m" "mi_status m < MESSAGE_STATUS_DELETE \<longleftrightarrow> stays row ?known"
    using load_row_tree [OF sync, where row = row and st = st and i = i and cold = cold]
    unfolding u_def ucmpdata_order.lookup_map_of [OF sorted] by (elim disjE exE conjE) simp_all
  note cs = this
  show *: "tree_sorted ucmpdata ?t'"
    using cs by cases (simp_all add: sorted ucmpdata_order.remove_sorted ucmpdata_order.insert_sorted)
  show "fst ` set ?t' \<subseteq> insert u (fst ` set ?t)"
    using cs ucmpdata_order.remove_subset [of ?t u]
    by cases (auto simp: ucmpdata_order.insert_set)
  show "map_of ?t' v = map_of ?t v" if "v \<noteq> u"
    using cs that by cases (simp_all add: ucmpdata_order.remove_map_of [OF sorted] ucmpdata_order.insert_map_of [OF sorted])
  show "u \<in> set (live_uids ?t') \<longleftrightarrow> stays row ?known"
    unfolding live_uids_map_of [OF *]
    using cs by cases (auto simp: ucmpdata_order.remove_map_of [OF sorted] ucmpdata_order.insert_map_of [OF sorted])
qed

lemma load_rows_correct:
  assumes "tree_sorted ucmpdata (ld_msginfo st)" "sync \<noteq> 2" "distinct (map row_id rows)"
  shows "tree_sorted ucmpdata (ld_msginfo (fold (load_row i cold sync) rows st)) \<and>
     fst ` set (ld_msginfo (fold (load_row i cold sync) rows st)) \<subseteq>
       row_id ` set rows \<union> fst ` set (ld_msginfo st) \<and>
     (u \<in> set (live_uids (ld_msginfo (fold (load_row i cold sync) rows st))) \<longleftrightarrow>
        live_after cold rows (ld_msginfo st) u)"
  using assms
proof (induction rows arbitrary: st)
  case (Cons row rows)
  let ?st = "load_row i cold sync row st"
  note row = load_row_correct [OF Cons.prems(1,2), where i = i and cold = cold and row = row]
  note IH = Cons.IH [OF row(1) Cons.prems(2)]
  have "live_after cold rows (ld_msginfo ?st) u = live_after cold (row # rows) (ld_msginfo st) u"
  proof (cases "row_id row = u")
    case True
    then have "find (\<lambda>r. row_id r = u) rows = None"
      using Cons.prems(3) by (auto simp: find_None_iff image_iff dest: sym)
    then show ?thesis
      using row(4) True by (simp add: live_after_def)
  next
    case False
    then have same: "map_of (ld_msginfo ?st) u = map_of (ld_msginfo st) u"
      using row(3) by auto
    have "u \<in> set (live_uids (ld_msginfo ?st)) \<longleftrightarrow> u \<in> set (live_uids (ld_msginfo st))"
      unfolding live_uids_map_of [OF row(1)] live_uids_map_of [OF Cons.prems(1)] same ..
    with same show ?thesis
      unfolding live_after_def find.simps if_not_P [OF False] by (simp only:)
  qed
  moreover have "row_id ` set rows \<union> fst ` set (ld_msginfo ?st) \<subseteq>
      row_id ` set (row # rows) \<union> fst ` set (ld_msginfo st)"
    using row(2) by auto
  moreover have "distinct (map row_id rows)" using Cons.prems(3) by simp
  ultimately show ?case
    using IH unfolding fold_simps(2) by (meson order_trans)
qed (simp add: live_after_def)

lemma load_keyword_correct:
  assumes "tree_sorted ucmpdata t"
  shows "tree_sorted ucmpdata (load_keyword k t) \<and> fst ` set (load_keyword k t) = fst ` set t \<and>
    (u \<in> set (live_uids (load_keyword k t)) \<longleftrightarrow> u \<in> set (live_uids t))"
proof -
  obtain i w where k: "k = (i, w)" by (cases k)
  show ?thesis
  proof (cases "w = [] \<or> map_of t i = None")
    case True
    then show ?thesis
      using assms by (auto simp: load_keyword_def k ucmpdata_order.lookup_map_of)
  next
    case False
    then obtain m where m: "map_of t i = Some m" "w \<noteq> []" by auto
    let ?m = "m\<lparr>mi_keywords := mi_keywords m @ [w]\<rparr>"
    have eq: "load_keyword k t = g_tree_insert ucmpdata t i ?m"
      using m by (simp add: load_keyword_def k ucmpdata_order.lookup_map_of assms)
    have "i \<in> fst ` set t" using map_of_SomeD [OF m(1)] by force
    then show ?thesis
      unfolding eq using assms m(1)
      by (auto simp: ucmpdata_order.insert_sorted ucmpdata_order.insert_set live_uids_map_of
          ucmpdata_order.insert_map_of)
  qed
qed

lemma load_keywords_correct:
  assumes "tree_sorted ucmpdata t"
  shows "tree_sorted ucmpdata (fold load_keyword ks t) \<and>
    fst ` set (fold load_keyword ks t) = fst ` set t \<and>
    (u \<in> set (live_uids (fold load_keyword ks t)) \<longleftrightarrow> u \<in> set (live_uids t))"
  using assms
proof (induction ks arbitrary: t)
  case (Cons k ks)
  then show ?case
    using load_keyword_correct [OF Cons.prems, of k u] by simp
qed simp

lemma sorted_length_le:
  assumes "tree_sorted ucmpdata t" "fst ` set t \<subseteq> A" "finite A"
  shows "length t \<le> card A"
proof -
  have "length t = card (fst ` set t)"
    using distinct_card [OF ucmpdata_order.sorted_distinct [OF assms(1)]] by simp
  then show ?thesis using card_mono [OF assms(3,2)] by simp
qed

text \<open>The numbering of a state against a predicate that says which UIDs are live.\<close>

definition numbers_exactly :: "(u64 \<Rightarrow> bool) \<Rightarrow> mailboxstate \<Rightarrow> bool" where
  "numbers_exactly P M \<longleftrightarrow>
     maps_ok M \<and> sorted_wrt (<) (map fst (mb_ids M)) \<and> set (map fst (mb_ids M)) = Collect P \<and>
     map snd (mb_ids M) = map of_nat [1..<Suc (length (mb_ids M))]"

lemma setMsginfo_correct:
  assumes "tree_sorted ucmpdata t" "length t < 2 ^ 64 - 1" "\<And>u. u \<in> set (live_uids t) \<longleftrightarrow> P u"
  shows "\<exists>M'. MailboxState_setMsginfo M t = Some M' \<and> numbers_exactly P M' \<and> mb_msginfo M' = renumber 1 t"
proof -
  let ?M = "M\<lparr>mb_msginfo := t\<rparr>" and ?us = "live_uids t"
  have t: "tree_sorted ucmpdata (mb_msginfo ?M)" "length (mb_msginfo ?M) < 2 ^ 64 - 1"
    using assms by simp_all
  obtain M' where M': "MailboxState_remap ?M = Some M'" "mb_ids M' = zip ?us (numbers 1 (length ?us))"
      "mb_msginfo M' = renumber 1 t"
    using MailboxState_remap_correct [OF t] by auto
  have "set ?us = Collect P" using assms(3) by auto
  then have "numbers_exactly P M'"
    using remap_maps_ok [OF t M'(1)] live_uids_sorted [OF assms(1)] M'(2)
    by (simp add: numbers_exactly_def numbers_def del: upt_Suc)
  then show ?thesis
    using M'(1,3) by (auto simp: MailboxState_setMsginfo_def)
qed

lemma getSeq_msginfo: "mb_msginfo (snd (MailboxState_getSeq q M)) = mb_msginfo M"
  by (auto simp: MailboxState_getSeq_def db_getmailbox_seq_def Let_def split: option.splits)

lemma state_load_messages_correct:
  assumes sorted: "tree_sorted ucmpdata (mb_msginfo M)" and sync: "sync \<noteq> 2"
    and rows: "q_messages db = Some rows" "distinct (map row_id rows)"
    and kws: "q_message_keywords db = Some ks"
    and len: "length (mb_msginfo M) + length rows < 2 ^ 64 - 1"
  shows "\<exists>d M'. state_load_messages sync batch db M cold = Some (d, M') \<and>
     numbers_exactly (live_after cold rows (mb_msginfo M)) M' \<and>
     fst ` set (mb_msginfo M') \<subseteq> row_id ` set rows \<union> fst ` set (mb_msginfo M)"
proof -
  obtain s M1 where seq: "MailboxState_getSeq (q_seq db) M = (s, M1)" by force
  have M1: "mb_msginfo M1 = mb_msginfo M"
    using getSeq_msginfo [of "q_seq db" M] by (simp add: seq)
  define st where "st = fold (load_row (mb_id M1) cold sync) rows
      \<lparr>ld_msginfo = mb_msginfo M, ld_batch = batch, ld_deleted = []\<rparr>"
  define t where "t = (if rows = [] then ld_msginfo st else fold load_keyword ks (ld_msginfo st))"
  have st: "tree_sorted ucmpdata (ld_msginfo st)"
      "fst ` set (ld_msginfo st) \<subseteq> row_id ` set rows \<union> fst ` set (mb_msginfo M)"
      "u \<in> set (live_uids (ld_msginfo st)) \<longleftrightarrow> live_after cold rows (mb_msginfo M) u" for u
    using load_rows_correct [OF _ sync rows(2),
        of "\<lparr>ld_msginfo = mb_msginfo M, ld_batch = batch, ld_deleted = []\<rparr>"] sorted
    by (simp_all add: st_def)
  have t: "tree_sorted ucmpdata t" "fst ` set t = fst ` set (ld_msginfo st)"
      "u \<in> set (live_uids t) \<longleftrightarrow> live_after cold rows (mb_msginfo M) u" for u
    using load_keywords_correct [OF st(1), of ks] st by (simp_all add: t_def)
  have "length t \<le> card (row_id ` set rows \<union> fst ` set (mb_msginfo M))"
    using st(2) t(2) by (intro sorted_length_le [OF t(1)]) simp_all
  also have "\<dots> \<le> length rows + length (mb_msginfo M)"
    using card_Un_le [of "row_id ` set rows" "fst ` set (mb_msginfo M)"]
      card_length [of "map row_id rows"] card_length [of "map fst (mb_msginfo M)"] by simp
  finally have "length t < 2 ^ 64 - 1" using len by simp
  from setMsginfo_correct [OF t(1) this t(3), of "M1\<lparr>mb_state_seq := s\<rparr>"]
  obtain M' where "MailboxState_setMsginfo (M1\<lparr>mb_state_seq := s\<rparr>) t = Some M'"
      "numbers_exactly (live_after cold rows (mb_msginfo M)) M'" "mb_msginfo M' = renumber 1 t" by blast
  moreover from this have "fst ` set (mb_msginfo M') = fst ` set t" by (metis list.set_map renumber_keys)
  ultimately show ?thesis
    using st(2) t(2)
    by (simp add: state_load_messages_def seq rows(1) kws MailboxState_getMsginfo_def M1
        flip: st_def) (simp add: t_def split: if_splits)
qed

lemma state_load_metadata_ok:
  assumes "q_seq db = Some a" "q_permission db = Some b" "q_counts db = Some c" "q_maxuid db = Some d"
    "q_keywords db = Some e" "q_info db = Some f" "\<And>x y. q_children db x y \<noteq> None"
  shows "\<exists>M'. state_load_metadata auth db M = Some M' \<and> mb_msginfo M' = mb_msginfo M"
proof -
  have kw: "mb_msginfo (fold (\<lambda>k M. MailboxState_addKeyword M k) ks M) = mb_msginfo M" for ks M
    by (induction ks arbitrary: M) (auto simp: MailboxState_addKeyword_def)
  have info: "mb_msginfo (info_of_row auth r N) = mb_msginfo N" for r N
    by (auto simp: info_of_row_def Let_def MailboxState_setName_def split: prod.splits)
  have 1: "\<exists>M'. db_getmailbox_seq (q_seq db) N = Some M' \<and> mb_msginfo M' = mb_msginfo N" for N
    by (auto simp: db_getmailbox_seq_def assms split: option.splits)
  have 2: "\<exists>M'. db_getmailbox_permission (q_permission db) N = Some M' \<and> mb_msginfo M' = mb_msginfo N" for N
    by (auto simp: db_getmailbox_permission_def assms split: option.splits)
  have 3: "\<exists>M'. committed (db_getmailbox_count db N) = Some M' \<and> mb_msginfo M' = mb_msginfo N" for N
    by (auto simp: db_getmailbox_count_def committed_def assms Let_def split: option.splits prod.splits)
  have 4: "\<exists>M'. db_getmailbox_keywords db N = Some M' \<and> mb_msginfo M' = mb_msginfo N" for N
    by (simp add: db_getmailbox_keywords_def assms kw)
  have 5: "\<exists>M'. committed (db_getmailbox_info auth db N) = Some M' \<and> mb_msginfo M' = mb_msginfo N" for N
    using assms(7) by (auto simp: db_getmailbox_info_def committed_def assms(6) Let_def info split: option.splits)
  obtain M1 where M1: "db_getmailbox_seq (q_seq db) M = Some M1" "mb_msginfo M1 = mb_msginfo M" using 1 by blast
  obtain M2 where M2: "db_getmailbox_permission (q_permission db) M1 = Some M2" "mb_msginfo M2 = mb_msginfo M1" using 2 by blast
  obtain M3 where M3: "committed (db_getmailbox_count db M2) = Some M3" "mb_msginfo M3 = mb_msginfo M2" using 3 by blast
  obtain M4 where M4: "db_getmailbox_keywords db M3 = Some M4" "mb_msginfo M4 = mb_msginfo M3" using 4 by blast
  obtain M5 where M5: "committed (db_getmailbox_info auth db M4) = Some M5" "mb_msginfo M5 = mb_msginfo M4" using 5 by blast
  show ?thesis
    using M1 M2 M3 M4 M5 by (simp add: state_load_metadata_def Let_def)
qed

text \<open>No query raises an exception.\<close>

definition db_answers :: "mbxdb \<Rightarrow> bool" where
  "db_answers db \<longleftrightarrow>
     q_seq db \<noteq> None \<and> q_permission db \<noteq> None \<and> q_counts db \<noteq> None \<and> q_maxuid db \<noteq> None \<and>
     q_keywords db \<noteq> None \<and> q_info db \<noteq> None \<and> (\<forall>x y. q_children db x y \<noteq> None) \<and>
     q_message_keywords db \<noteq> None"

lemma load_answers:
  assumes "db_answers db" "tree_sorted ucmpdata (mb_msginfo M)" "sync \<noteq> 2"
    and "q_messages db = Some rows" "distinct (map row_id rows)"
    and "length (mb_msginfo M) + length rows < 2 ^ 64 - 1"
  shows "\<exists>M1 d M'. state_load_metadata auth db M = Some M1 \<and>
     state_load_messages sync batch db M1 cold = Some (d, M') \<and>
     numbers_exactly (live_after cold rows (mb_msginfo M)) M' \<and>
     fst ` set (mb_msginfo M') \<subseteq> row_id ` set rows \<union> fst ` set (mb_msginfo M)"
proof -
  obtain a b c d e f ks where db: "q_seq db = Some a" "q_permission db = Some b" "q_counts db = Some c"
      "q_maxuid db = Some d" "q_keywords db = Some e" "q_info db = Some f"
      "\<And>x y. q_children db x y \<noteq> None" "q_message_keywords db = Some ks"
    using assms(1) unfolding db_answers_def by blast
  obtain M1 where "state_load_metadata auth db M = Some M1" "mb_msginfo M1 = mb_msginfo M"
    using state_load_metadata_ok [OF db(1-7)] by blast
  then show ?thesis
    using state_load_messages_correct [OF _ assms(3-5) db(8), of M1 batch cold] assms(2,6) by auto
qed

lemma live_after_cold:
  assumes "distinct (map row_id rows)"
  shows "live_after True rows [] = (\<lambda>u. \<exists>r. r \<in> set rows \<and> row_id r = u \<and> row_status r < MESSAGE_STATUS_DELETE)"
proof
  fix u
  have "row_id r = row_id r' \<Longrightarrow> r = r'" if "r \<in> set rows" "r' \<in> set rows" for r r'
    using assms that by (auto simp: distinct_map inj_on_def)
  then show "live_after True rows [] u \<longleftrightarrow>
      (\<exists>r. r \<in> set rows \<and> row_id r = u \<and> row_status r < MESSAGE_STATUS_DELETE)"
    by (auto simp: live_after_def stays_def live_uids_def find_None_iff find_Some_iff split: option.split)
      (metis nth_mem)+
qed

lemma update_answers:
  assumes "mb_id OldM \<noteq> 0" "\<not> (0 < max_iterations \<and> max_iterations - 1 \<le> sint (mb_differential_iterations OldM))"
    and "db_answers db" "q_messages db = Some rows" "distinct (map row_id rows)" "sync \<noteq> 2"
    and "tree_sorted ucmpdata (mb_msginfo OldM)" "length (mb_msginfo OldM) + length rows < 2 ^ 64 - 1"
  shows "\<exists>M. MailboxState_update auth max_iterations sync batch db OldM =
              (Some M, OldM\<lparr>mb_msginfo := [], mb_seq := 0\<rparr>) \<and>
     numbers_exactly (live_after False rows (mb_msginfo OldM)) M"
proof -
  obtain a b where ab: "g_tree_merge ucmpdata [] (mb_msginfo OldM) IST_SUBSEARCH_OR = (0, a, b)"
      "tree_sorted ucmpdata a" "map_of a = map_of (mb_msginfo OldM)" "map_of b = Map.empty"
    using ucmpdata_order.merge_OR [of "[]" "mb_msginfo OldM"] assms(7) by (auto simp: tree_sorted_def)
  have a: "a = mb_msginfo OldM" using ucmpdata_order.sorted_ext [OF ab(2) assms(7) ab(3)] .
  have b: "b = []" using ab(4) by (metis map_of_eq_empty_iff)
  let ?M = "mailbox_zero\<lparr>mb_id := mb_id OldM, mb_msginfo := mb_msginfo OldM,
     mb_differential_iterations := mb_differential_iterations OldM + 1, mb_state_seq := mb_state_seq OldM\<rparr>"
  obtain M1 d M' where "state_load_metadata auth db ?M = Some M1"
      "state_load_messages sync batch db M1 False = Some (d, M')"
      "numbers_exactly (live_after False rows (mb_msginfo OldM)) M'"
    using load_answers [of db ?M sync rows auth batch False] assms by auto
  note M' = this
  have "MailboxState_update auth max_iterations sync batch db OldM =
      (Some M', OldM\<lparr>mb_msginfo := [], mb_seq := 0\<rparr>)"
    unfolding MailboxState_update_def if_not_P [OF assms(2)] if_not_P [OF assms(1)]
    by (simp add: ab(1) a b M' MailboxState_resetSeq_def)
  with M'(3) show ?thesis by blast
qed

section \<open>Properties\<close>

text \<open>
  Opening a mailbox when every query answers gives a state that numbers exactly the
  messages of the database that are not deleted, in the order of their UIDs, with inverse maps;
  it does not matter in which order the rows arrive. The setting \<open>mailbox_sync_deleted\<close> is
  not 2, so the load itself deletes nothing.
\<close>

lemma MailboxState_new_numbers_rows:
  assumes "i \<noteq> 0" "db_answers db" "q_messages db = Some rows" "distinct (map row_id rows)"
    and "length rows < 2 ^ 64 - 1" "sync \<noteq> 2"
  shows "\<exists>M. MailboxState_new auth sync batch db i = Some M \<and>
     numbers_exactly (\<lambda>u. \<exists>r. r \<in> set rows \<and> row_id r = u \<and> row_status r < MESSAGE_STATUS_DELETE) M"
  using load_answers [of db "mailbox_zero\<lparr>mb_id := i\<rparr>" sync rows auth batch True] assms
  by (auto simp: MailboxState_new_def mailbox_zero_def tree_sorted_def live_after_cold)

definition sample_row :: "u64 \<Rightarrow> int \<Rightarrow> msgrow" where
  "sample_row u s = \<lparr>row_flags = replicate 6 False, row_date = None, row_rfcsize = 0, row_seq = 1,
     row_id = u, row_status = s, row_phys_id = 1\<rparr>"

definition sample_db :: "msgrow list \<Rightarrow> mbxdb" where
  "sample_db rows = \<lparr>q_seq = Some (Some (''INBOX'', 4)), q_permission = Some (Some 2),
     q_counts = Some (Some (1, 1, 0)), q_maxuid = Some (Some 10), q_keywords = Some [],
     q_info = Some None, q_children = (\<lambda>_ _. Some None), q_messages = Some rows,
     q_message_keywords = Some [(9, ''work'')]\<rparr>"

lemma sample_row_fields [simp]: "row_id (sample_row u s) = u" "row_status (sample_row u s) = s"
  by (simp_all add: sample_row_def)

lemma sample_db_answers: "db_answers (sample_db rows)" "q_messages (sample_db rows) = Some rows"
  by (simp_all add: db_answers_def sample_db_def)

lemma MailboxState_new_numbers_rows_witness:
  "\<exists>M. MailboxState_new (\<lambda>_. None) 1 64 (sample_db [sample_row 9 0, sample_row 3 1]) 7 = Some M \<and>
     set (map fst (mb_ids M)) = {3, 9}"
proof -
  let ?rows = "[sample_row 9 0, sample_row 3 1]"
  have "\<exists>M. MailboxState_new (\<lambda>_. None) 1 64 (sample_db ?rows) 7 = Some M \<and>
      numbers_exactly (\<lambda>u. \<exists>r. r \<in> set ?rows \<and> row_id r = u \<and> row_status r < MESSAGE_STATUS_DELETE) M"
    by (rule MailboxState_new_numbers_rows)
      (simp_all add: sample_db_answers)
  moreover have "{u. \<exists>r. r \<in> set ?rows \<and> row_id r = u \<and> row_status r < MESSAGE_STATUS_DELETE} = {3, 9}"
    by (auto simp: MESSAGE_STATUS_DELETE_def)
  ultimately show ?thesis
    unfolding numbers_exactly_def by auto
qed

text \<open>
  C2: An incremental update numbers exactly the messages that the rows it reads say are live
  together with the live messages of the old state that no row mentions. A message that a
  client has seen expunged does not come back. The old state gives up its messages and has its
  sequence reset.
\<close>

theorem MailboxState_update_numbers_rows:
  assumes "mb_id OldM \<noteq> 0" "\<not> (0 < max_iterations \<and> max_iterations - 1 \<le> sint (mb_differential_iterations OldM))"
    and "db_answers db" "q_messages db = Some rows" "distinct (map row_id rows)" "sync \<noteq> 2"
    and "tree_sorted ucmpdata (mb_msginfo OldM)" "length (mb_msginfo OldM) + length rows < 2 ^ 64 - 1"
  shows "\<exists>M. MailboxState_update auth max_iterations sync batch db OldM =
              (Some M, OldM\<lparr>mb_msginfo := [], mb_seq := 0\<rparr>) \<and>
     numbers_exactly (\<lambda>u. case find (\<lambda>r. row_id r = u) rows of
          None \<Rightarrow> u \<in> set (live_uids (mb_msginfo OldM))
        | Some r \<Rightarrow> row_status r < MESSAGE_STATUS_DELETE \<and>
            (case map_of (mb_msginfo OldM) u of None \<Rightarrow> True | Some m \<Rightarrow> mi_expunged m \<noteq> 1)) M"
  using update_answers [OF assms, of auth batch] unfolding live_after_def stays_def if_False .

theorem MailboxState_update_numbers_rows_witness:
  "\<exists>M. fst (MailboxState_update (\<lambda>_. None) 300 1 64 (sample_db [sample_row 9 0, sample_row 3 2])
             (mailbox_zero\<lparr>mb_id := 7, mb_msginfo := [(3, messageinfo_zero), (5, messageinfo_zero)]\<rparr>)) = Some M \<and>
     set (map fst (mb_ids M)) = {5, 9}"
proof -
  let ?rows = "[sample_row 9 0, sample_row 3 2]"
  let ?old = "mailbox_zero\<lparr>mb_id := 7, mb_msginfo := [(3, messageinfo_zero), (5, messageinfo_zero)]\<rparr>"
  have "mb_id ?old \<noteq> 0" "\<not> (0 < 300 \<and> (300 :: int) - 1 \<le> sint (mb_differential_iterations ?old))"
      "tree_sorted ucmpdata (mb_msginfo ?old)" "length (mb_msginfo ?old) + length ?rows < 2 ^ 64 - 1"
      "distinct (map row_id ?rows)"
    by (simp_all add: mailbox_zero_def tree_sorted_def)
  note hyps = this
  obtain M where M: "MailboxState_update (\<lambda>_. None) 300 1 64 (sample_db ?rows) ?old =
        (Some M, ?old\<lparr>mb_msginfo := [], mb_seq := 0\<rparr>)"
      "numbers_exactly (\<lambda>u. case find (\<lambda>r. row_id r = u) ?rows of
          None \<Rightarrow> u \<in> set (live_uids (mb_msginfo ?old))
        | Some r \<Rightarrow> row_status r < MESSAGE_STATUS_DELETE \<and>
            (case map_of (mb_msginfo ?old) u of None \<Rightarrow> True | Some m \<Rightarrow> mi_expunged m \<noteq> 1)) M"
    using MailboxState_update_numbers_rows [OF hyps(1,2) sample_db_answers hyps(5) _ hyps(3,4), of 1 "\<lambda>_. None" 64]
    by auto
  define P where "P u = (case find (\<lambda>r. row_id r = u) ?rows of
          None \<Rightarrow> u \<in> set (live_uids (mb_msginfo ?old))
        | Some r \<Rightarrow> row_status r < MESSAGE_STATUS_DELETE \<and>
            (case map_of (mb_msginfo ?old) u of None \<Rightarrow> True | Some m \<Rightarrow> mi_expunged m \<noteq> 1))" for u
  have live: "live_uids (mb_msginfo ?old) = [3, 5]"
    by (simp add: live_uids_def live_def messageinfo_zero_def MESSAGE_STATUS_DELETE_def)
  have "P u \<longleftrightarrow> u \<in> {5, 9}" for u
    unfolding P_def live by (cases "u = 9"; cases "u = 3"; cases "u = 5") (simp_all add: MESSAGE_STATUS_DELETE_def)
  then have "Collect P = {5, 9}" by blast
  moreover have "set (map fst (mb_ids M)) = Collect P"
    using M(2) unfolding numbers_exactly_def P_def by (elim conjE)
  ultimately have "set (map fst (mb_ids M)) = {5, 9}" by (rule trans [rotated])
  with M(1) show ?thesis by simp
qed

text \<open>
  \<open>db_getmailbox_count\<close> sets the next UID to one above the highest UID the database has
  for the mailbox, deleted messages included, but to 1 when every message of the mailbox is
  deleted: then the UIDs of the deleted messages are announced again.
\<close>

lemma uidnext_after_count:
  assumes "mb_id M \<noteq> 0" "q_counts db = Some (Some (unseen, seen, recent))" "q_maxuid db = Some (Some next)"
  shows "db_getmailbox_count db M =
     (True, M\<lparr>mb_exists := word_of_int (unseen + seen), mb_unseen := word_of_int unseen,
             mb_recent := word_of_int recent,
             mb_uidnext := (if (word_of_int (unseen + seen) :: u32) = 0 then 1 else next)\<rparr>)"
  using assms by (simp add: db_getmailbox_count_def)

lemma uidnext_after_count_witness:
  "mb_uidnext (snd (db_getmailbox_count (sample_db [])
      (mailbox_zero\<lparr>mb_id := 7, mb_uidnext := 5\<rparr>))) = 10 \<and>
   mb_uidnext (snd (db_getmailbox_count ((sample_db [])\<lparr>q_counts := Some (Some (0, 0, 0))\<rparr>)
      (mailbox_zero\<lparr>mb_id := 7, mb_uidnext := 10\<rparr>))) = 1"
proof -
  have "mb_id (mailbox_zero\<lparr>mb_id := 7, mb_uidnext := u\<rparr>) \<noteq> 0" for u by simp
  from uidnext_after_count [OF this, of "sample_db []" 1 1 0 10 5]
    uidnext_after_count [OF this, of "(sample_db [])\<lparr>q_counts := Some (Some (0, 0, 0))\<rparr>" 0 0 0 10 10]
  show ?thesis by (simp add: sample_db_def)
qed

end
