(* ===== verification/ClientBase.thy ===== *)
theory ClientBase
  imports CString "HOL-Library.Sublist"
begin

text \<open>
  Client connections (\<open>src/src/clientbase.c\<close>): the read and the write buffer and the calls that
  move bytes between them and the socket. A \<open>String_T\<close> buffer is represented by its contents,
  which is what the theory of growable strings shows its operations to act on.

  What the kernel and OpenSSL answer to the next calls is part of the connection: \<open>cb_writes\<close>
  and \<open>cb_reads\<close> list the results of the coming write and read calls, and a list that is used
  up stands for a socket that would block. \<open>cb_sent\<close> records the bytes that have left.
\<close>

unbundle bit_operations_syntax

section \<open>Data\<close>

definition CLIENT_OK :: u32 where
  "CLIENT_OK = 0"

definition CLIENT_AGAIN :: u32 where
  "CLIENT_AGAIN = 1"

definition CLIENT_ERR :: u32 where
  "CLIENT_ERR = 2"

definition CLIENT_EOF :: u32 where
  "CLIENT_EOF = 4"

definition TLS_SEGMENT :: nat where
  "TLS_SEGMENT = 262144"

definition MAX_LINESIZE :: nat where
  "MAX_LINESIZE = 65536"

definition EAGAIN :: int where
  "EAGAIN = 11"

definition EINTR :: int where
  "EINTR = 4"

text \<open>The answers of \<open>SSL_get_error\<close> that the code distinguishes.\<close>

datatype ssl_error = SSL_ERROR_NONE | SSL_ERROR_ZERO_RETURN | SSL_ERROR_WANT_READ
  | SSL_ERROR_WANT_WRITE | SSL_ERROR_SYSCALL | SSL_ERROR_OTHER

text \<open>
  The results of \<open>write\<close> and \<open>SSL_write\<close>: a number of bytes (at most what was asked for), zero
  bytes, or \<open>-1\<close> with the value of \<open>errno\<close>; of \<open>read\<close> and \<open>SSL_read\<close> likewise, with the bytes.
  The last argument is what \<open>SSL_get_error\<close> would say about a result that is not positive.
\<close>

datatype write_result = Wrote nat | WroteZero ssl_error | WriteFailed int ssl_error

datatype read_result = Got string | GotZero ssl_error | ReadFailed int ssl_error

record client_base =
  client_state :: u32
  has_ssl :: bool
  ssl_state :: int
  cb_rx :: int
  bytes_rx :: u64
  bytes_tx :: u64
  tls_wbuf :: string
  rbuff_size :: u64
  read_buffer :: string
  read_buffer_offset :: nat
  write_buffer :: string
  write_buffer_offset :: nat
  cb_len :: nat
  cb_writes :: "write_result list"
  cb_reads :: "read_result list"
  cb_sent :: string

definition in_error :: "client_base \<Rightarrow> bool" where
  "in_error client \<longleftrightarrow> client_state client AND CLIENT_ERR \<noteq> 0"

definition set_state :: "u32 \<Rightarrow> client_base \<Rightarrow> client_base" where
  "set_state bits client = client\<lparr>client_state := client_state client OR bits\<rparr>"

section \<open>Buffers and errors\<close>

definition client_wbuf_clear :: "client_base \<Rightarrow> client_base" where
  "client_wbuf_clear client = client\<lparr>write_buffer := []\<rparr>"

definition client_rbuf_clear :: "client_base \<Rightarrow> client_base" where
  "client_rbuf_clear client = client\<lparr>read_buffer := []\<rparr>"

definition client_rbuf_scale :: "client_base \<Rightarrow> client_base" where
  "client_rbuf_scale client =
     (if read_buffer_offset client = length (read_buffer client)
      then client\<lparr>read_buffer := [], read_buffer_offset := 0\<rparr> else client)"

definition client_wbuf_scale :: "client_base \<Rightarrow> client_base" where
  "client_wbuf_scale client =
     (if write_buffer_offset client = length (write_buffer client)
      then client\<lparr>write_buffer := [], write_buffer_offset := 0\<rparr> else client)"

text \<open>\<open>SSL_get_error\<close> answers \<open>SSL_ERROR_NONE\<close> when its second argument is positive.\<close>

definition SSL_get_error :: "int \<Rightarrow> ssl_error \<Rightarrow> ssl_error" where
  "SSL_get_error ret e = (if 0 < ret then SSL_ERROR_NONE else e)"

definition client_error_cb :: "int \<Rightarrow> ssl_error \<Rightarrow> client_base \<Rightarrow> int \<times> client_base" where
  "client_error_cb error e client =
     (if has_ssl client
      then (case SSL_get_error error e of
              SSL_ERROR_NONE \<Rightarrow> (0, client)
            | SSL_ERROR_ZERO_RETURN \<Rightarrow> (0, set_state CLIENT_EOF client)
            | SSL_ERROR_WANT_READ \<Rightarrow> (0, client)
            | SSL_ERROR_WANT_WRITE \<Rightarrow> (0, client)
            | SSL_ERROR_SYSCALL \<Rightarrow> (- 1, client_wbuf_clear (client_rbuf_clear client))
            | SSL_ERROR_OTHER \<Rightarrow> (- 1, client_wbuf_clear (client_rbuf_clear client)))
      else if error = EAGAIN \<or> error = EINTR then (0, client)
      else (error, client_wbuf_clear (client_rbuf_clear client)))"

text \<open>
  \<open>ci_wbuf_len\<close> is a \<open>size_t\<close>: the subtraction wraps when the offset is beyond the end. The
  first component of the result is the length.
\<close>

definition ci_wbuf_len :: "client_base \<Rightarrow> nat \<times> client_base" where
  "ci_wbuf_len client =
     (if in_error client then (0, client_wbuf_clear client)
      else (nat ((int (length (write_buffer client)) - int (write_buffer_offset client)) mod 2 ^ 64), client))"

section \<open>Writing\<close>

definition next_write :: "client_base \<Rightarrow> write_result \<times> client_base" where
  "next_write client =
     (case cb_writes client of
        [] \<Rightarrow> (WriteFailed EAGAIN SSL_ERROR_WANT_WRITE, client)
      | w # ws \<Rightarrow> (w, client\<lparr>cb_writes := ws\<rparr>))"

text \<open>\<open>strncpy\<close> into a buffer of at least \<open>n\<close> bytes: the string, padded with NULs.\<close>

definition strncpy :: "nat \<Rightarrow> string \<Rightarrow> string" where
  "strncpy n s = take n (c_str s @ replicate n nul)"

text \<open>The retries after \<open>SSL_ERROR_WANT_READ\<close>, at most \<open>tries\<close> of them.\<close>

fun ssl_retry :: "nat \<Rightarrow> write_result \<Rightarrow> write_result list \<Rightarrow> nat \<times> write_result \<times> write_result list" where
  "ssl_retry tries w [] = (tries, w, [])"
| "ssl_retry tries w (w' # ws) =
     (case w of
        WriteFailed _ _ \<Rightarrow>
          (case tries of 0 \<Rightarrow> (0, w, w' # ws) | Suc n \<Rightarrow> ssl_retry n w' ws)
      | _ \<Rightarrow> (tries, w, w' # ws))"

definition attempt :: "nat \<Rightarrow> client_base \<Rightarrow> nat \<times> write_result \<times> client_base" where
  "attempt tries client =
     (case next_write client of (w, client) \<Rightarrow>
        (case w of
           WriteFailed _ SSL_ERROR_WANT_READ \<Rightarrow>
             if has_ssl client
             then (case ssl_retry tries w (cb_writes client) of
                     (tries, w, ws) \<Rightarrow> (tries, w, client\<lparr>cb_writes := ws\<rparr>))
             else (tries, w, client)
         | _ \<Rightarrow> (tries, w, client)))"

text \<open>The bookkeeping after \<open>t\<close> bytes of \<open>data\<close> have been taken by the socket.\<close>

definition advance :: "nat \<Rightarrow> string \<Rightarrow> client_base \<Rightarrow> client_base" where
  "advance t data client =
     (let client = client_wbuf_scale
            (client\<lparr>bytes_tx := bytes_tx client + of_nat t,
                     write_buffer_offset := write_buffer_offset client + t,
                     cb_sent := cb_sent client @ take t data\<rparr>)
      in if has_ssl client then client\<lparr>tls_wbuf := []\<rparr> else client)"

text \<open>
  The data of one pass of the loop: up to \<open>TLS_SEGMENT - 1\<close> bytes of the buffer, or, on a TLS
  connection, the segment kept from an earlier pass. \<open>None\<close> is a read behind the buffer.
\<close>

definition segment :: "nat \<Rightarrow> client_base \<Rightarrow> (string \<times> client_base) option" where
  "segment left client =
     (let n = (if TLS_SEGMENT \<le> left then TLS_SEGMENT - 1 else left)
      in do {
           s \<leftarrow> mem_read (write_buffer client) (write_buffer_offset client) n;
           if has_ssl client
           then (if tls_wbuf client = []
                 then Some (strncpy n s, client\<lparr>tls_wbuf := strncpy n s\<rparr>)
                 else Some (tls_wbuf client, client))
           else Some (s, client)
         })"

lemma ssl_retry_length: "ssl_retry tries w ws = (t, w', ws') \<Longrightarrow> length ws' \<le> length ws"
  by (induction tries w ws arbitrary: w' ws' rule: ssl_retry.induct)
    (fastforce split: write_result.splits nat.splits)+

lemma attempt_decreases:
  assumes "attempt tries client = (t, w, c)"
  shows "length (cb_writes c) < length (cb_writes client) \<or> (\<exists>e x. w = WriteFailed e x)"
  using assms
  by (auto simp: attempt_def next_write_def split: prod.splits list.splits write_result.splits
      ssl_error.splits if_splits dest!: ssl_retry_length)

lemma error_cb_keeps:
  "client_error_cb x e client = (r, c) \<Longrightarrow> cb_writes c = cb_writes client"
  "client_error_cb x e client = (r, c) \<Longrightarrow> cb_sent c = cb_sent client"
  "client_error_cb x e client = (r, c) \<Longrightarrow> has_ssl c = has_ssl client"
  by (auto simp: client_error_cb_def set_state_def client_wbuf_clear_def client_rbuf_clear_def
      split: if_splits ssl_error.splits)

lemma segment_writes: "segment left client = Some (d, c) \<Longrightarrow> cb_writes c = cb_writes client"
  by (auto simp: segment_def Let_def bind_eq_Some_conv split: if_splits)

lemma advance_writes [simp]: "cb_writes (advance t d client) = cb_writes client"
  by (simp add: advance_def client_wbuf_scale_def Let_def)

lemma wbuf_len_writes: "ci_wbuf_len client = (n, c) \<Longrightarrow> cb_writes c = cb_writes client"
  by (auto simp: ci_wbuf_len_def client_wbuf_clear_def split: if_splits)

function ci_write_loop :: "nat \<Rightarrow> client_base \<Rightarrow> (int \<times> client_base) option" where
  "ci_write_loop tries client0 =
     (case ci_wbuf_len client0 of (left, client1) \<Rightarrow>
        if left = 0 then Some (1, client1)
        else (case segment left client1 of
                None \<Rightarrow> None
              | Some (data, client2) \<Rightarrow>
                  (case attempt tries client2 of (tries', w, client) \<Rightarrow>
                     (case w of
                        WriteFailed errno e \<Rightarrow>
                          (case client_error_cb (if has_ssl client then - 1 else errno) e client of
                             (r, client) \<Rightarrow>
                               if r \<noteq> 0 then Some (- 1, set_state CLIENT_ERR client)
                               else Some (0, client))
                      | WroteZero e \<Rightarrow>
                          if has_ssl client
                          then (case client_error_cb 0 e client of (r, client') \<Rightarrow>
                                  if r < 0 then Some (- 1, set_state CLIENT_ERR client')
                                  else ci_write_loop tries' (advance 0 data client'))
                          else ci_write_loop tries' (advance 0 data client)
                      | Wrote k \<Rightarrow>
                          ci_write_loop tries' (advance (min k (length data)) data client)))))"
  by pat_completeness auto

termination
  by (relation "measure (\<lambda>(_, client). length (cb_writes client))")
    (auto dest!: attempt_decreases [OF sym] wbuf_len_writes [OF sym] segment_writes error_cb_keeps(1) [OF sym])

declare ci_write_loop.simps [simp del]

text \<open>\<open>tries\<close> is \<open>server_conf->timeout\<close>; the message is the formatted one.\<close>

definition ci_write :: "nat \<Rightarrow> client_base \<Rightarrow> string option \<Rightarrow> (int \<times> client_base) option" where
  "ci_write tries client msg =
     (if in_error client then Some (- 1, client)
      else ci_write_loop tries
             (case msg of None \<Rightarrow> client | Some m \<Rightarrow> client\<lparr>write_buffer := write_buffer client @ m\<rparr>))"

definition ci_write_cb :: "nat \<Rightarrow> client_base \<Rightarrow> client_base option" where
  "ci_write_cb tries client =
     (case ci_wbuf_len client of (rest, client) \<Rightarrow>
        if rest = 0 then Some client
        else map_option (\<lambda>(result, client). if result = - 1 then client_wbuf_clear client else client)
               (ci_write tries client None))"

section \<open>TLS\<close>

text \<open>
  \<open>ci_starttls\<close>: \<open>setup\<close> is the answer of \<open>tls_setup\<close> and \<open>accept\<close> the one of \<open>SSL_accept\<close>, a
  positive number or a failure; the second component of the result is the connection.
\<close>

definition ci_starttls ::
  "bool \<Rightarrow> write_result \<Rightarrow> nat \<Rightarrow> client_base \<Rightarrow> (int \<times> client_base) option" where
  "ci_starttls setup accept tries client =
     (if has_ssl client \<and> 0 < ssl_state client then Some (DM_EGENERAL, client)
      else if \<not> has_ssl client \<and> \<not> setup then Some (DM_EGENERAL, client\<lparr>ssl_state := 0\<rparr>)
      else let client = (if has_ssl client then client else client\<lparr>ssl_state := 0, has_ssl := True\<rparr>)
           in if ssl_state client \<noteq> 0 then Some (DM_SUCCESS, client)
              else let (e2, client) =
                     (case accept of
                        Wrote _ \<Rightarrow> (0, client)
                      | WroteZero e \<Rightarrow> client_error_cb 0 e client
                      | WriteFailed _ e \<Rightarrow> client_error_cb (- 1) e client)
                   in if e2 \<noteq> 0 then Some (DM_EGENERAL, client\<lparr>has_ssl := False\<rparr>)
                      else map_option (\<lambda>(_, client). (DM_SUCCESS, client))
                             (ci_write tries (client\<lparr>ssl_state := 1\<rparr>) None))"

section \<open>Reading\<close>

fun read_loop :: "read_result list \<Rightarrow> client_base \<Rightarrow> client_base" where
  "read_loop [] client = set_state CLIENT_AGAIN (client\<lparr>cb_reads := []\<rparr>)"
| "read_loop (ReadFailed errno e # rs) client =
     (case client_error_cb errno e (client\<lparr>cb_reads := rs\<rparr>) of (r, client) \<Rightarrow>
        set_state (if r \<noteq> 0 then CLIENT_ERR else CLIENT_AGAIN) client)"
| "read_loop (GotZero e # rs) client =
     (let client = client\<lparr>cb_reads := rs\<rparr>;
          client = (if has_ssl client
                    then (case client_error_cb 0 e client of (r, client) \<Rightarrow>
                            if r \<noteq> 0 then set_state CLIENT_ERR client else client)
                    else set_state CLIENT_ERR client)
      in if has_ssl client \<or> cb_rx client \<noteq> 0 then set_state CLIENT_EOF client else client)"
| "read_loop (Got s # rs) client =
     read_loop rs (client\<lparr>bytes_rx := bytes_rx client + of_nat (length s), client_state := CLIENT_OK,
                          read_buffer := read_buffer client @ s\<rparr>)"

definition ci_read_cb :: "client_base \<Rightarrow> client_base" where
  "ci_read_cb client = read_loop (cb_reads client) client"

text \<open>\<open>ci_read\<close> returns the bytes copied to the buffer of the caller.\<close>

definition ci_read :: "client_base \<Rightarrow> nat \<Rightarrow> string \<times> client_base" where
  "ci_read client n =
     (let client = client\<lparr>cb_len := 0\<rparr>
      in if read_buffer_offset client + n \<le> length (read_buffer client)
         then (take n (drop (read_buffer_offset client) (read_buffer client)),
               client_rbuf_scale (client\<lparr>read_buffer_offset := read_buffer_offset client + n, cb_len := n\<rparr>))
         else ([], client))"

definition stridx :: "string \<Rightarrow> char \<Rightarrow> nat" where
  "stridx s c = length (takeWhile (\<lambda>x. x \<noteq> nul \<and> x \<noteq> c) s)"

abbreviation newline :: char where
  "newline \<equiv> CHR 0x0A"

text \<open>
  \<open>ci_readln\<close> returns the bytes copied to the buffer, the newline included, and an empty list
  where the source returns 0.
\<close>

definition ci_readln :: "client_base \<Rightarrow> string \<times> client_base" where
  "ci_readln client =
     (let client = client\<lparr>cb_len := 0\<rparr>;
          s = c_str (drop (read_buffer_offset client) (read_buffer client))
      in if newline \<in> set s
         then let l = stridx s newline
              in if MAX_LINESIZE \<le> l then ([], set_state CLIENT_ERR client)
                 else (take (l + 1) s,
                       client_rbuf_scale (client\<lparr>read_buffer_offset := read_buffer_offset client + l + 1,
                                                  cb_len := l + 1\<rparr>))
         else ([], client))"

text \<open>
  The callers of \<open>ci_readln\<close> pass a zeroed array of \<open>MAX_LINESIZE\<close> bytes and then use it as a
  C string: \<open>None\<close> when no NUL is left in it.
\<close>

definition line_buffer :: "string \<Rightarrow> string option" where
  "line_buffer line = do {
     b \<leftarrow> mem_write (replicate MAX_LINESIZE nul) 0 line;
     if nul \<in> set b then Some (c_str b) else None
   }"

section \<open>No byte is lost, repeated or reordered\<close>

definition pending :: "client_base \<Rightarrow> string" where
  "pending client = drop (write_buffer_offset client) (write_buffer client)"

definition wbuf_ok :: "client_base \<Rightarrow> bool" where
  "wbuf_ok client \<longleftrightarrow>
     write_buffer_offset client \<le> length (write_buffer client) \<and> length (write_buffer client) < 2 ^ 64 \<and>
     nul \<notin> set (write_buffer client) \<and> (has_ssl client \<longrightarrow> prefix (tls_wbuf client) (pending client)) \<and>
     \<not> in_error client"

lemma in_error_set_state:
  "in_error (set_state bits client) \<longleftrightarrow> in_error client \<or> bits AND CLIENT_ERR \<noteq> 0"
  by (simp add: in_error_def set_state_def bit.conj_disj_distrib2 or_eq_0_iff)

lemma set_state_keeps [simp]:
  "pending (set_state b client) = pending client" "cb_sent (set_state b client) = cb_sent client"
  by (simp_all add: set_state_def pending_def)

lemma wbuf_len_ok: "wbuf_ok client \<Longrightarrow> ci_wbuf_len client = (length (pending client), client)"
  by (auto simp: wbuf_ok_def ci_wbuf_len_def pending_def nat_mod_as_int of_nat_diff)

lemma strncpy_id: "nul \<notin> set s \<Longrightarrow> length s = n \<Longrightarrow> strncpy n s = s"
  by (simp add: strncpy_def)

lemma segment_ok:
  assumes "wbuf_ok client"
  obtains data c where "segment (length (pending client)) client = Some (data, c)"
    "prefix data (pending client)" "c = client\<lparr>tls_wbuf := tls_wbuf c\<rparr>" "wbuf_ok c"
proof -
  let ?left = "length (pending client)"
  define n where "n = (if TLS_SEGMENT \<le> ?left then TLS_SEGMENT - 1 else ?left)"
  define d where "d = take n (pending client)"
  have n: "n \<le> ?left" by (auto simp: n_def)
  have read: "mem_read (write_buffer client) (write_buffer_offset client) n = Some d"
    using assms n by (auto simp: wbuf_ok_def mem_read_def pending_def d_def)
  have "nul \<notin> set d"
    using assms by (auto simp: wbuf_ok_def pending_def d_def dest!: in_set_takeD in_set_dropD)
  then have cpy: "strncpy n d = d" using n by (intro strncpy_id) (simp_all add: d_def)
  have pre: "prefix d (pending client)" unfolding d_def by (rule take_is_prefix)
  have seg: "segment ?left client =
      (if has_ssl client
       then if tls_wbuf client = [] then Some (d, client\<lparr>tls_wbuf := d\<rparr>) else Some (tls_wbuf client, client)
       else Some (d, client))"
    unfolding segment_def Let_def n_def [symmetric] by (simp add: read cpy)
  have new: "wbuf_ok (client\<lparr>tls_wbuf := d\<rparr>)"
    using assms pre by (simp add: wbuf_ok_def pending_def in_error_def)
  have kept: "prefix (tls_wbuf client) (pending client)" if "has_ssl client"
    using assms that by (simp add: wbuf_ok_def)
  consider "has_ssl client" "tls_wbuf client = []" | "has_ssl client" "tls_wbuf client \<noteq> []" | "\<not> has_ssl client"
    by blast
  then show thesis
  proof cases
    case 1
    then show thesis using that [OF _ pre _ new] seg by simp
  next
    case 2
    then show thesis using that [OF _ kept _ assms] seg by simp
  next
    case 3
    then show thesis using that [OF _ pre _ assms] seg by simp
  qed
qed

lemma attempt_keeps:
  "attempt tries client = (t, w, c) \<Longrightarrow> c = client\<lparr>cb_writes := cb_writes c\<rparr>"
  by (auto simp: attempt_def next_write_def split: prod.splits list.splits write_result.splits
      ssl_error.splits if_splits)

lemma wbuf_ok_writes [simp]: "wbuf_ok (client\<lparr>cb_writes := ws\<rparr>) = wbuf_ok client"
  "pending (client\<lparr>cb_writes := ws\<rparr>) = pending client"
  by (simp_all add: wbuf_ok_def pending_def in_error_def)

lemma advance_ok:
  assumes "wbuf_ok client" "prefix data (pending client)" "t \<le> length data"
  shows "wbuf_ok (advance t data client)"
    and "cb_sent (advance t data client) @ pending (advance t data client) = cb_sent client @ pending client"
proof -
  obtain rest where rest: "pending client = data @ rest" using assms(2) by (auto simp: prefix_def)
  have "t \<le> length (pending client)" using rest assms(3) by simp
  then have off: "write_buffer_offset client + t \<le> length (write_buffer client)"
    using assms(1) by (auto simp: pending_def wbuf_ok_def)
  have drop: "drop (write_buffer_offset client + t) (write_buffer client) = drop t data @ rest"
    using rest assms(3) by (simp add: pending_def add.commute flip: drop_drop)
  show "wbuf_ok (advance t data client)"
    using assms(1) off by (auto simp: wbuf_ok_def advance_def client_wbuf_scale_def in_error_def Let_def pending_def)
  have "cb_sent (advance t data client) = cb_sent client @ take t data"
    by (simp add: advance_def client_wbuf_scale_def Let_def)
  moreover have "pending (advance t data client) = drop t data @ rest"
    using drop by (auto simp: advance_def client_wbuf_scale_def Let_def pending_def)
  ultimately show "cb_sent (advance t data client) @ pending (advance t data client) = cb_sent client @ pending client"
    using rest by simp
qed

lemma error_cb_soft:
  assumes "client_error_cb x e client = (0, c)" "has_ssl client \<or> x \<noteq> 0"
  shows "pending c = pending client" "wbuf_ok c = wbuf_ok client"
proof -
  have "CLIENT_EOF AND CLIENT_ERR = 0" by (simp add: CLIENT_EOF_def CLIENT_ERR_def)
  then have eof: "in_error (set_state CLIENT_EOF client) = in_error client"
    by (simp add: in_error_set_state)
  have "c = client \<or> c = set_state CLIENT_EOF client"
    using assms unfolding client_error_cb_def
    by (cases "SSL_get_error x e"; cases "has_ssl client"; cases "x = EAGAIN \<or> x = EINTR") simp_all
  then show "pending c = pending client" "wbuf_ok c = wbuf_ok client"
    using eof by (elim disjE; simp add: wbuf_ok_def; simp add: set_state_def)+
qed

text \<open>A failed \<open>write\<close> sets \<open>errno\<close>.\<close>

fun errno_ok :: "write_result \<Rightarrow> bool" where
  "errno_ok (WriteFailed errno e) \<longleftrightarrow> errno \<noteq> 0"
| "errno_ok _ \<longleftrightarrow> True"

definition errno_set :: "write_result list \<Rightarrow> bool" where
  "errno_set ws \<longleftrightarrow> list_all errno_ok ws"

lemma ssl_retry_set:
  "ssl_retry tries w ws = (t, w', ws') \<Longrightarrow> set ws' \<subseteq> set ws \<and> w' \<in> insert w (set ws)"
proof (induction tries w ws arbitrary: w' ws' rule: ssl_retry.induct)
  case (2 tries w v ws)
  then show ?case
    by (cases w; cases tries) fastforce+
qed simp

lemma attempt_errno:
  assumes "errno_set (cb_writes client)" "attempt tries client = (t, w, c)"
  shows "errno_set (cb_writes c) \<and> errno_ok w"
proof -
  have "set (cb_writes c) \<subseteq> set (cb_writes client) \<and>
      w \<in> insert (WriteFailed EAGAIN SSL_ERROR_WANT_WRITE) (set (cb_writes client))"
    using assms(2)
    by (auto simp: attempt_def next_write_def split: prod.splits list.splits write_result.splits
        ssl_error.splits if_splits dest!: ssl_retry_set)
  moreover have "errno_ok (WriteFailed EAGAIN SSL_ERROR_WANT_WRITE)"
    by (simp add: EAGAIN_def)
  ultimately show ?thesis
    using assms(1) unfolding errno_set_def list_all_iff by blast
qed

text \<open>
  What a write promises about the bytes that have been sent and those that wait: after an error
  the peer has received a prefix of the stream, otherwise the stream is what it was.
\<close>

definition write_outcome :: "client_base \<Rightarrow> int \<Rightarrow> client_base \<Rightarrow> bool" where
  "write_outcome client r c \<longleftrightarrow>
     r = - 1 \<and> in_error c \<and> prefix (cb_sent c) (cb_sent client @ pending client) \<or>
     r \<in> {0, 1} \<and> wbuf_ok c \<and> errno_set (cb_writes c) \<and>
     cb_sent c @ pending c = cb_sent client @ pending client \<and> prefix (cb_sent client) (cb_sent c) \<and>
     (r = 1 \<longrightarrow> pending c = [])"

lemma write_outcome_cong:
  "cb_sent a = cb_sent b \<Longrightarrow> pending a = pending b \<Longrightarrow> write_outcome a r c = write_outcome b r c"
  by (simp add: write_outcome_def)

lemma write_failed_outcome:
  assumes "wbuf_ok c" "errno_set (cb_writes c)" "errno \<noteq> 0"
    and "client_error_cb (if has_ssl c then - 1 else errno) e c = (r, c')"
  shows "if r \<noteq> 0 then write_outcome c (- 1) (set_state CLIENT_ERR c') else write_outcome c 0 c'"
proof (cases "r = 0")
  case True
  then show ?thesis
    using error_cb_soft [of _ e c c'] error_cb_keeps [OF assms(4)] assms by (simp add: write_outcome_def)
next
  case False
  have "in_error (set_state CLIENT_ERR c')" by (simp add: in_error_set_state CLIENT_ERR_def)
  with False show ?thesis
    using error_cb_keeps [OF assms(4)] by (simp add: write_outcome_def)
qed

lemma write_pass:
  assumes wf: "wbuf_ok client" and errno: "errno_set (cb_writes client)"
  obtains data c2 tries' w c3 where "segment (length (pending client)) client = Some (data, c2)"
    "attempt tries c2 = (tries', w, c3)" "prefix data (pending client)" "wbuf_ok c3"
    "pending c3 = pending client" "cb_sent c3 = cb_sent client" "errno_set (cb_writes c3)" "errno_ok w"
proof -
  obtain data c2 where c2: "segment (length (pending client)) client = Some (data, c2)"
      "prefix data (pending client)" "c2 = client\<lparr>tls_wbuf := tls_wbuf c2\<rparr>" "wbuf_ok c2"
    using segment_ok [OF wf] .
  obtain tries' w c3 where att: "attempt tries c2 = (tries', w, c3)" by (metis surj_pair)
  have "wbuf_ok c3" using attempt_keeps [OF att] c2(4) by (metis wbuf_ok_writes(1))
  moreover have p2: "pending c2 = pending client" "cb_sent c2 = cb_sent client"
    by (subst c2(3), simp add: pending_def)+
  moreover have "pending c3 = pending client" "cb_sent c3 = cb_sent client"
    unfolding p2 [symmetric] by (subst attempt_keeps [OF att], simp)+
  moreover have "errno_set (cb_writes c3)" "errno_ok w"
    using attempt_errno [OF _ att] errno segment_writes [OF c2(1)] by auto
  ultimately show thesis using that [OF c2(1) att c2(2)] by blast
qed

lemma advance_outcome:
  assumes "wbuf_ok c" "prefix data (pending c)" "t \<le> length data"
    and "cb_sent c = cb_sent client" "pending c = pending client"
    and "\<exists>r c'. ci_write_loop tries (advance t data c) = Some (r, c') \<and> write_outcome (advance t data c) r c'"
  shows "\<exists>r c'. ci_write_loop tries (advance t data c) = Some (r, c') \<and> write_outcome client r c'"
proof -
  have "prefix (cb_sent client) (cb_sent (advance t data c))"
    using assms(4) by (simp add: advance_def client_wbuf_scale_def Let_def)
  then show ?thesis
    using assms(4-6) advance_ok(2) [OF assms(1-3)] by (auto simp: write_outcome_def dest: prefix_order.trans)
qed

lemma zero_written:
  assumes "client_error_cb 0 e c = (r, c')" "has_ssl c" "wbuf_ok c"
  shows "r < 0 \<and> write_outcome c (- 1) (set_state CLIENT_ERR c') \<or> r = 0 \<and> pending c' = pending c \<and> wbuf_ok c'"
proof (cases "r < 0")
  case True
  have "in_error (set_state CLIENT_ERR c')" by (simp add: in_error_set_state CLIENT_ERR_def)
  with True show ?thesis using error_cb_keeps [OF assms(1)] by (simp add: write_outcome_def)
next
  case False
  then have "r = 0"
    using assms(1,2) by (cases "SSL_get_error 0 e") (auto simp: client_error_cb_def)
  then show ?thesis
    using error_cb_soft [of 0 e c c'] assms by simp
qed

lemma ci_write_loop_correct:
  assumes "wbuf_ok client" "errno_set (cb_writes client)"
  shows "\<exists>r c. ci_write_loop tries client = Some (r, c) \<and> write_outcome client r c"
  using assms
proof (induction tries client rule: ci_write_loop.induct)
  case (1 tries client)
  note len = wbuf_len_ok [OF "1.prems"(1)]
  show ?case
  proof (cases "pending client = []")
    case True
    then show ?thesis
      using "1.prems" by (subst ci_write_loop.simps) (simp add: len write_outcome_def)
  next
    case False
    obtain data c2 tries' w c where c: "segment (length (pending client)) client = Some (data, c2)"
        "attempt tries c2 = (tries', w, c)" "prefix data (pending client)" "wbuf_ok c"
        "pending c = pending client" "cb_sent c = cb_sent client" "errno_set (cb_writes c)" "errno_ok w"
      using write_pass [OF "1.prems"] .
    have out: "write_outcome c r c' = write_outcome client r c'" for r c'
      by (rule write_outcome_cong) (simp_all add: c)
    have ne: "length (pending client) \<noteq> 0" using False by simp
    note IH = "1.IH" [OF len [symmetric] ne c(1) refl c(2) [symmetric] refl]
    note loop = ci_write_loop.simps [of tries client] len False c(1,2)
    show ?thesis
    proof (cases w)
      case (WriteFailed en e)
      obtain r c' where c': "client_error_cb (if has_ssl c then - 1 else en) e c = (r, c')" by force
      then show ?thesis
        using write_failed_outcome [OF c(4,7) _ c'] c(8) by (auto simp: loop WriteFailed out)
    next
      case (Wrote k)
      have t: "min k (length data) \<le> length data" by simp
      show ?thesis
        using advance_outcome [OF c(4) _ t c(6,5) IH(1) [OF Wrote]] advance_ok(1) [OF c(4) _ t] c
        by (simp add: loop Wrote)
    next
      case (WroteZero e)
      obtain r c' where c': "client_error_cb 0 e c = (r, c')" by force
      show ?thesis
      proof (cases "has_ssl c")
        case True
        then show ?thesis
          using zero_written [OF c' True c(4)] advance_outcome [of c' data 0 client tries'] advance_ok(1) [of c' data 0]
            IH(2) [OF WroteZero True c' [symmetric]] error_cb_keeps [OF c'] c
          by (auto simp: loop WroteZero c' out)
      next
        case plain: False
        then show ?thesis
          using advance_outcome [OF c(4) _ le0 c(6,5) IH(3) [OF WroteZero plain]] advance_ok(1) [OF c(4) _ le0] c
          by (simp add: loop WroteZero)
      qed
    qed
  qed
qed

lemma wbuf_steps_shrink:
  "ci_wbuf_len client = (n, c) \<Longrightarrow> length (write_buffer c) \<le> length (write_buffer client)"
  "segment left client = Some (d, c) \<Longrightarrow> write_buffer c = write_buffer client"
  "attempt tries client = (t, w, c) \<Longrightarrow> write_buffer c = write_buffer client"
  "client_error_cb x e client = (r, c) \<Longrightarrow> length (write_buffer c) \<le> length (write_buffer client)"
  "length (write_buffer (advance k data client)) \<le> length (write_buffer client)"
  "write_buffer (set_state b client) = write_buffer client"
  by (auto simp: ci_wbuf_len_def client_wbuf_clear_def segment_def Let_def bind_eq_Some_conv client_error_cb_def
      advance_def client_wbuf_scale_def set_state_def client_rbuf_clear_def split: if_splits ssl_error.splits)
    (metis attempt_keeps client_base.select_convs(11) client_base.surjective client_base.update_convs(14))

text \<open>A write never makes the buffer longer than it was with the new message.\<close>

lemma ci_write_loop_shrinks:
  "ci_write_loop tries client = Some (r, c) \<Longrightarrow> length (write_buffer c) \<le> length (write_buffer client)"
proof (induction tries client rule: ci_write_loop.induct)
  case (1 tries client)
  obtain left c1 where len: "ci_wbuf_len client = (left, c1)" by force
  note le1 = wbuf_steps_shrink(1) [OF len]
  show ?case
  proof (cases "left = 0")
    case True
    then show ?thesis using "1.prems" le1 by (subst (asm) ci_write_loop.simps) (simp add: len)
  next
    case False
    then obtain data c2 where seg: "segment left c1 = Some (data, c2)"
      using "1.prems" by (subst (asm) ci_write_loop.simps) (auto simp: len split: option.splits)
    obtain t w c3 where att: "attempt tries c2 = (t, w, c3)" by (metis surj_pair)
    have le3: "length (write_buffer c3) \<le> length (write_buffer client)"
      using le1 wbuf_steps_shrink(2) [OF seg] wbuf_steps_shrink(3) [OF att] by simp
    note IH = "1.IH" [OF len [symmetric] False seg refl att [symmetric] refl]
    note prems = "1.prems" [unfolded ci_write_loop.simps [of tries client]]
    show ?thesis
    proof (cases w)
      case (WriteFailed en e)
      obtain q c4 where q: "client_error_cb (if has_ssl c3 then - 1 else en) e c3 = (q, c4)" by force
      then have "write_buffer c = write_buffer c4"
        using prems by (auto simp: len False seg att WriteFailed wbuf_steps_shrink(6) split: if_splits)
      then show ?thesis using wbuf_steps_shrink(4) [OF q] le3 by simp
    next
      case (Wrote k)
      then have "ci_write_loop t (advance (min k (length data)) data c3) = Some (r, c)"
        using prems by (simp add: len False seg att)
      then show ?thesis using IH(1) [OF Wrote] wbuf_steps_shrink(5) le3 le_trans by blast
    next
      case (WroteZero e)
      obtain q c4 where q: "client_error_cb 0 e c3 = (q, c4)" by force
      consider "write_buffer c = write_buffer c4" | "has_ssl c3" "\<not> q < 0" "ci_write_loop t (advance 0 data c4) = Some (r, c)"
        | "\<not> has_ssl c3" "ci_write_loop t (advance 0 data c3) = Some (r, c)"
        using prems by (auto simp: len False seg att WroteZero q wbuf_steps_shrink(6) split: if_splits)
      then show ?thesis
      proof cases
        case 2
        then show ?thesis
          using IH(2) [OF WroteZero 2(1) q [symmetric]] wbuf_steps_shrink(5) wbuf_steps_shrink(4) [OF q] le3 le_trans by blast
      next
        case 3
        then show ?thesis using IH(3) [OF WroteZero 3(1)] wbuf_steps_shrink(5) le3 le_trans by blast
      qed (use wbuf_steps_shrink(4) [OF q] le3 in simp)
    qed
  qed
qed

lemma ci_write_correct:
  assumes "wbuf_ok client" "errno_set (cb_writes client)"
    and "nul \<notin> set m" "length (write_buffer client) + length m < 2 ^ 64"
  shows "\<exists>r c. ci_write tries client (Some m) = Some (r, c) \<and>
     (r = - 1 \<and> in_error c \<and> prefix (cb_sent c) (cb_sent client @ pending client @ m) \<or>
      r \<in> {0, 1} \<and> wbuf_ok c \<and> errno_set (cb_writes c) \<and>
      cb_sent c @ pending c = cb_sent client @ pending client @ m \<and>
      length (write_buffer c) \<le> length (write_buffer client) + length m \<and> (r = 1 \<longrightarrow> pending c = []))"
proof -
  let ?c = "client\<lparr>write_buffer := write_buffer client @ m\<rparr>"
  have p: "pending ?c = pending client @ m" "cb_sent ?c = cb_sent client"
    using assms(1) by (simp_all add: pending_def wbuf_ok_def)
  have "wbuf_ok ?c"
    using assms p by (auto simp: wbuf_ok_def in_error_def)
  then obtain r c where c: "ci_write_loop tries ?c = Some (r, c)" "write_outcome ?c r c"
    using ci_write_loop_correct [of ?c tries] assms(2) by auto
  moreover have "\<not> in_error client" using assms(1) by (simp add: wbuf_ok_def)
  ultimately show ?thesis
    using ci_write_loop_shrinks [OF c(1)] unfolding write_outcome_def p by (auto simp: ci_write_def)
qed

lemma ci_write_cb_correct:
  assumes "wbuf_ok client" "errno_set (cb_writes client)"
  shows "\<exists>c. ci_write_cb tries client = Some c \<and>
     (in_error c \<or> wbuf_ok c \<and> errno_set (cb_writes c) \<and> length (pending c) \<le> length (pending client) \<and>
        cb_sent c @ pending c = cb_sent client @ pending client)"
proof (cases "pending client = []")
  case True
  then show ?thesis using assms by (simp add: ci_write_cb_def wbuf_len_ok)
next
  case False
  obtain r c where c: "ci_write_loop tries client = Some (r, c)" "write_outcome client r c"
    using ci_write_loop_correct [OF assms] by blast
  have "ci_write_cb tries client = Some (if r = - 1 then client_wbuf_clear c else c)"
    using False assms(1) c(1) by (simp add: ci_write_cb_def wbuf_len_ok ci_write_def wbuf_ok_def)
  moreover have "in_error (client_wbuf_clear c) = in_error c"
    by (simp add: in_error_def client_wbuf_clear_def)
  moreover have "length (pending c) \<le> length (pending client)" if "r \<noteq> - 1"
  proof -
    have "length (cb_sent c) + length (pending c) = length (cb_sent client) + length (pending client)"
        "length (cb_sent client) \<le> length (cb_sent c)"
      using c(2) that by (auto simp: write_outcome_def prefix_length_le simp flip: length_append)
    then show ?thesis by linarith
  qed
  ultimately show ?thesis using c(2) by (auto simp: write_outcome_def)
qed

section \<open>Lines arrive whole, however the bytes are split\<close>

definition rpending :: "client_base \<Rightarrow> string" where
  "rpending client = drop (read_buffer_offset client) (read_buffer client)"

definition rbuf_ok :: "client_base \<Rightarrow> bool" where
  "rbuf_ok client \<longleftrightarrow> read_buffer_offset client \<le> length (read_buffer client)"

lemma readln_shrinks:
  assumes "ci_readln client = (line, c)" "line \<noteq> []"
  shows "length (rpending c) < length (rpending client)"
proof -
  let ?s = "c_str (rpending client)"
  have "newline \<in> set ?s"
    using assms by (auto simp: ci_readln_def rpending_def Let_def split: if_splits)
  then have "rpending client \<noteq> []" by (auto simp: c_str_def)
  then show ?thesis
    using assms by (auto simp: ci_readln_def rpending_def Let_def client_rbuf_scale_def split: if_splits)
qed

text \<open>All lines that are complete, and the connection after they have been read.\<close>

function read_lines :: "client_base \<Rightarrow> string list \<times> client_base" where
  "read_lines client =
     (case ci_readln client of (line, client') \<Rightarrow>
        if line = [] then ([], client')
        else (case read_lines client' of (ls, c) \<Rightarrow> (line # ls, c)))"
  by pat_completeness auto

termination
  by (relation "measure (length \<circ> rpending)") (auto dest: readln_shrinks [OF sym])

declare read_lines.simps [simp del]

fun split_lines :: "string \<Rightarrow> string \<Rightarrow> string list \<times> string" where
  "split_lines acc [] = ([], acc)"
| "split_lines acc (c # cs) =
     (if c = newline then (case split_lines [] cs of (ls, r) \<Rightarrow> ((acc @ [c]) # ls, r))
      else split_lines (acc @ [c]) cs)"

lemma split_lines_append:
  "split_lines acc (a @ b) =
     (case split_lines acc a of (la, ra) \<Rightarrow> case split_lines ra b of (lb, rb) \<Rightarrow> (la @ lb, rb))"
  by (induction acc a rule: split_lines.induct) (auto split: prod.splits)

lemma split_lines_no_newline: "newline \<notin> set s \<Longrightarrow> split_lines acc s = ([], acc @ s)"
  by (induction s arbitrary: acc) auto

lemma split_lines_line:
  "newline \<notin> set l \<Longrightarrow> split_lines acc (l @ newline # t) =
     (case split_lines [] t of (ls, r) \<Rightarrow> ((acc @ l @ [newline]) # ls, r))"
  by (induction l arbitrary: acc) (auto split: prod.splits)

lemma split_lines_rest:
  "split_lines acc s = (ls, r) \<Longrightarrow> newline \<notin> set acc \<Longrightarrow> newline \<notin> set r \<and> set r \<subseteq> set acc \<union> set s"
  by (induction acc s arbitrary: ls r rule: split_lines.induct) (auto split: if_splits prod.splits)

lemma readln_none:
  assumes "newline \<notin> set (rpending client)"
  shows "ci_readln client = ([], client\<lparr>cb_len := 0\<rparr>)"
proof -
  have "newline \<notin> set (c_str (rpending client))"
    using assms by (auto simp: c_str_def dest: set_takeWhileD)
  then show ?thesis by (simp add: ci_readln_def rpending_def Let_def)
qed

lemma readln_line:
  assumes "rpending client = l @ newline # t" "newline \<notin> set l" "nul \<notin> set (rpending client)"
    and "length l < MAX_LINESIZE" "rbuf_ok client"
  obtains c where "ci_readln client = (l @ [newline], c)" "rpending c = t" "rbuf_ok c"
proof -
  let ?o = "read_buffer_offset client"
  have s: "c_str (drop ?o (read_buffer client)) = l @ newline # t"
    using assms(1,3) by (simp add: rpending_def)
  have "stridx (l @ newline # t) newline = length l"
    using assms(1-3) by (auto simp: stridx_def takeWhile_append intro!: arg_cong [of _ _ length] takeWhile_eq_all_conv [THEN iffD2])
  moreover have "drop (Suc (?o + length l)) (read_buffer client) = t"
  proof -
    have "drop (Suc (length l)) (drop ?o (read_buffer client)) = t"
      using assms(1) by (simp add: rpending_def)
    then show ?thesis by (simp add: add.commute)
  qed
  moreover have "?o + Suc (length l) \<le> length (read_buffer client)"
    using arg_cong [OF assms(1), of length] assms(5) by (simp add: rpending_def rbuf_ok_def)
  ultimately show thesis
    using assms(4) s that
    by (auto simp: ci_readln_def Let_def client_rbuf_scale_def rpending_def rbuf_ok_def)
qed

lemma read_lines_correct:
  assumes "rbuf_ok client" "nul \<notin> set (rpending client)" "split_lines [] (rpending client) = (ls, r)"
    and "list_all (\<lambda>l. length l \<le> MAX_LINESIZE) ls"
  shows "\<exists>c. read_lines client = (ls, c) \<and> rpending c = r \<and> rbuf_ok c"
  using assms
proof (induction ls arbitrary: client)
  case Nil
  have "newline \<notin> set (rpending client)"
  proof
    assume "newline \<in> set (rpending client)"
    then obtain l t where "rpending client = l @ newline # t" "newline \<notin> set l"
      by (metis split_list_first)
    then show False using Nil.prems(3) by (auto simp: split_lines_line split: prod.splits)
  qed
  then show ?case
    using Nil.prems readln_none [of client] split_lines_no_newline [of "rpending client" "[]"]
    by (subst read_lines.simps) (simp add: rpending_def rbuf_ok_def)
next
  case (Cons x ls)
  have "newline \<in> set (rpending client)"
    using Cons.prems(3) split_lines_no_newline [of "rpending client" "[]"] by auto
  then obtain l t where lt: "rpending client = l @ newline # t" "newline \<notin> set l"
    by (metis split_list_first)
  then have x: "x = l @ [newline]" "split_lines [] t = (ls, r)"
    using Cons.prems(3) by (auto simp: split_lines_line split: prod.splits)
  have len: "length l < MAX_LINESIZE" using Cons.prems(4) x(1) by simp
  obtain c where c: "ci_readln client = (l @ [newline], c)" "rpending c = t" "rbuf_ok c"
    using readln_line [OF lt Cons.prems(2) len Cons.prems(1)] .
  have "nul \<notin> set t" using Cons.prems(2) lt(1) by auto
  then obtain c' where "read_lines c = (ls, c')" "rpending c' = r" "rbuf_ok c'"
    using Cons.IH [of c] c x(2) Cons.prems(4) by auto
  then show ?case
    by (subst read_lines.simps) (simp add: c x(1))
qed

text \<open>
  The bytes arrive in chunks; after each of them the complete lines are read.
\<close>

fun feed :: "string list \<Rightarrow> client_base \<Rightarrow> string list \<times> client_base" where
  "feed [] client = ([], client)"
| "feed (s # ss) client =
     (case read_lines (ci_read_cb (client\<lparr>cb_reads := [Got s]\<rparr>)) of (ls, c) \<Rightarrow>
        case feed ss c of (ls', c') \<Rightarrow> (ls @ ls', c'))"

lemma feed_correct:
  assumes "rbuf_ok client" "newline \<notin> set (rpending client)" "nul \<notin> set (rpending client @ concat ss)"
    and "split_lines (rpending client) (concat ss) = (ls, r)"
    and "list_all (\<lambda>l. length l \<le> MAX_LINESIZE) ls"
  shows "\<exists>c. feed ss client = (ls, c) \<and> rpending c = r \<and> rbuf_ok c"
  using assms
proof (induction ss arbitrary: client ls)
  case (Cons s ss)
  let ?c = "ci_read_cb (client\<lparr>cb_reads := [Got s]\<rparr>)"
  have c: "rpending ?c = rpending client @ s" "rbuf_ok ?c"
    using Cons.prems(1) by (simp_all add: ci_read_cb_def rpending_def rbuf_ok_def set_state_def)
  obtain la ra where a: "split_lines (rpending client) s = (la, ra)" by force
  obtain lb where b: "split_lines ra (concat ss) = (lb, r)" "ls = la @ lb"
    using Cons.prems(4) by (auto simp: split_lines_append a split: prod.splits)
  have "split_lines [] (rpending client @ s) = (la, ra)"
    using Cons.prems(2) by (simp add: split_lines_append split_lines_no_newline a)
  then obtain c1 where c1: "read_lines ?c = (la, c1)" "rpending c1 = ra" "rbuf_ok c1"
    using read_lines_correct [OF c(2), of la ra] c(1) Cons.prems(3,5) b(2) by auto
  have "newline \<notin> set ra" "set ra \<subseteq> set (rpending client) \<union> set s"
    using split_lines_rest [OF a Cons.prems(2)] by blast+
  then obtain c' where "feed ss c1 = (lb, c')" "rpending c' = r" "rbuf_ok c'"
    using Cons.IH [of c1 lb] c1 b Cons.prems(3,5) by auto
  then show ?case by (simp add: c1(1) b(2))
qed simp

lemma line_buffer_eq:
  assumes "nul \<notin> set line" "length line \<le> MAX_LINESIZE"
  shows "line_buffer line = (if length line = MAX_LINESIZE then None else Some line)"
proof -
  have b: "mem_write (replicate MAX_LINESIZE nul) 0 line =
      Some (line @ replicate (MAX_LINESIZE - length line) nul)"
    using assms(2) by (simp add: mem_write_def)
  show ?thesis
  proof (cases "length line = MAX_LINESIZE")
    case True
    then show ?thesis using assms(1) by (simp add: line_buffer_def b)
  next
    case False
    then obtain k where "MAX_LINESIZE - length line = Suc k"
      using assms(2) by (metis Suc_diff_Suc le_neq_implies_less)
    then show ?thesis using False assms(1) by (simp add: line_buffer_def b)
  qed
qed

section \<open>Properties\<close>

text \<open>
  C21: writing to a connection. Unless the connection fails, the bytes sent so far followed by
  those that wait in the buffer are exactly the bytes before the call followed by the message,
  whatever parts of them the socket (plain or TLS) accepts; the result 1 means that nothing is
  left to send. After a failure the peer has received a prefix of that stream.
\<close>

theorem ci_write_keeps_the_stream:
  assumes "wbuf_ok client" "errno_set (cb_writes client)"
    and "nul \<notin> set m" "length (write_buffer client) + length m < 2 ^ 64"
  shows "\<exists>r c. ci_write tries client (Some m) = Some (r, c) \<and>
     (r = - 1 \<and> in_error c \<and> prefix (cb_sent c) (cb_sent client @ pending client @ m) \<or>
      r \<in> {0, 1} \<and> wbuf_ok c \<and> cb_sent c @ pending c = cb_sent client @ pending client @ m \<and>
      (r = 1 \<longrightarrow> pending c = []))"
  using ci_write_correct [OF assms, of tries] by blast

definition fresh_client :: client_base where
  "fresh_client =
     \<lparr>client_state = CLIENT_OK, has_ssl = False, ssl_state = 0, cb_rx = 5, bytes_rx = 0, bytes_tx = 0,
      tls_wbuf = [], rbuff_size = 0, read_buffer = [], read_buffer_offset = 0, write_buffer = [],
      write_buffer_offset = 0, cb_len = 0, cb_writes = [], cb_reads = [], cb_sent = []\<rparr>"

lemma fresh_client_ok: "wbuf_ok (fresh_client\<lparr>cb_writes := ws\<rparr>)" "rbuf_ok fresh_client"
  by (simp_all add: fresh_client_def wbuf_ok_def rbuf_ok_def in_error_def CLIENT_OK_def pending_def)

theorem ci_write_keeps_the_stream_witness:
  "\<exists>r c. ci_write 300 (fresh_client\<lparr>cb_writes := [Wrote 2, Wrote 1]\<rparr>) (Some ''+OK'') = Some (r, c) \<and>
     (r = - 1 \<or> cb_sent c @ pending c = ''+OK'')"
  using ci_write_keeps_the_stream [of "fresh_client\<lparr>cb_writes := [Wrote 2, Wrote 1]\<rparr>" "''+OK''" 300]
    fresh_client_ok(1)
  by (auto simp: errno_set_def fresh_client_def pending_def)

text \<open>
  C22: lines are reassembled from the bytes of the client however these are split over the
  reads: after any sequence of chunks the lines read are the complete lines of the whole
  stream, in order, and what follows the last newline waits in the buffer. The bytes contain
  no NUL and no line is longer than \<open>MAX_LINESIZE\<close>.
\<close>

theorem lines_independent_of_chunks:
  assumes "rbuf_ok client" "newline \<notin> set (rpending client)" "nul \<notin> set (rpending client @ concat ss)"
    and "list_all (\<lambda>l. length l \<le> MAX_LINESIZE) (fst (split_lines (rpending client) (concat ss)))"
  shows "fst (feed ss client) = fst (split_lines (rpending client) (concat ss)) \<and>
         rpending (snd (feed ss client)) = snd (split_lines (rpending client) (concat ss)) \<and>
         rbuf_ok (snd (feed ss client))"
proof -
  obtain ls r where lr: "split_lines (rpending client) (concat ss) = (ls, r)" by force
  then obtain c where "feed ss client = (ls, c)" "rpending c = r" "rbuf_ok c"
    using feed_correct [OF assms(1-3) lr] assms(4) by auto
  then show ?thesis using lr by simp
qed

theorem lines_independent_of_chunks_witness:
  "fst (feed [''ST'', ''AT'' @ [newline] @ ''QU'', ''IT'' @ [newline]] fresh_client) =
     [''STAT'' @ [newline], ''QUIT'' @ [newline]]"
proof -
  have "rpending fresh_client = []" by (simp add: fresh_client_def rpending_def)
  then show ?thesis
    using lines_independent_of_chunks [OF fresh_client_ok(2),
        of "[''ST'', ''AT'' @ [newline] @ ''QU'', ''IT'' @ [newline]]"]
    by (simp add: MAX_LINESIZE_def)
qed

text \<open>
  The longest line that \<open>ci_readln\<close> accepts, \<open>MAX_LINESIZE\<close> bytes with its newline, fills
  the array of the caller and leaves no room for the terminating NUL; every shorter line is
  terminated.
\<close>

lemma longest_line_is_unterminated:
  assumes "nul \<notin> set line" "length line \<le> MAX_LINESIZE"
  shows "line_buffer line = (if length line = MAX_LINESIZE then None else Some line)"
  using assms by (rule line_buffer_eq)

lemma longest_line_is_unterminated_witness:
  "line_buffer (replicate MAX_LINESIZE CHR ''A'') = None \<and> line_buffer ''QUIT'' = Some ''QUIT''"
  using longest_line_is_unterminated [of "replicate MAX_LINESIZE CHR ''A''"]
    longest_line_is_unterminated [of "''QUIT''"]
  by (auto simp: MAX_LINESIZE_def set_replicate_conv_if)

text \<open>
  C28: a failed write empties the write buffer but keeps its offset, and the next successful read
  clears the error. When part of the buffer had been sent, the next message is then written from
  behind the end of the buffer unless it is at least as long as that part.
\<close>

theorem write_after_error_overruns:
  assumes "\<not> in_error client" "\<not> has_ssl client" "0 < write_buffer_offset client"
    and "write_buffer_offset client < length (write_buffer client)" "length (write_buffer client) < 2 ^ 63"
    and "cb_writes client = WriteFailed errno e # ws" "errno \<notin> {0, EAGAIN, EINTR}"
    and "length m < write_buffer_offset client" "s \<noteq> []"
  shows "\<exists>c. ci_write tries client None = Some (- 1, c) \<and> in_error c \<and>
     \<not> in_error (ci_read_cb (c\<lparr>cb_reads := [Got s]\<rparr>)) \<and>
     ci_write tries (ci_read_cb (c\<lparr>cb_reads := [Got s]\<rparr>)) (Some m) = None"
proof -
  let ?o = "write_buffer_offset client" and ?b = "write_buffer client"
  have len: "ci_wbuf_len client = (length ?b - ?o, client)"
    using assms(1,4,5) by (simp add: ci_wbuf_len_def nat_mod_as_int of_nat_diff)
  have seg: "\<exists>d. segment (length ?b - ?o) client = Some (d, client)"
    using assms(2,4) by (auto simp: segment_def mem_read_def Let_def)
  define c where "c = set_state CLIENT_ERR (client\<lparr>cb_writes := ws, read_buffer := [], write_buffer := []\<rparr>)"
  have att: "attempt tries client = (tries, WriteFailed errno e, client\<lparr>cb_writes := ws\<rparr>)"
    using assms(2,6) by (auto simp: attempt_def next_write_def split: ssl_error.split)
  have "ci_write tries client None = Some (- 1, c)"
    using seg assms(1,2,4,7) unfolding ci_write_def
    by (subst ci_write_loop.simps)
      (auto simp: len att client_error_cb_def client_wbuf_clear_def client_rbuf_clear_def c_def)
  moreover have "in_error c" by (simp add: c_def in_error_set_state CLIENT_ERR_def)
  moreover define c' where "c' = ci_read_cb (c\<lparr>cb_reads := [Got s]\<rparr>)"
  have c': "\<not> in_error c'" "write_buffer c' = []" "write_buffer_offset c' = ?o"
    by (simp_all add: c'_def c_def ci_read_cb_def set_state_def in_error_def CLIENT_OK_def CLIENT_AGAIN_def CLIENT_ERR_def)
  have "ci_write tries c' (Some m) = None"
  proof -
    let ?c = "c'\<lparr>write_buffer := m\<rparr>"
    let ?left = "nat ((int (length m) - int ?o) mod 2 ^ 64)"
    have "(int (length m) - int ?o) mod 2 ^ 64 = int (length m) - int ?o + 2 ^ 64"
      using assms(4,5,8) mod_add_self2 [of "int (length m) - int ?o" "2 ^ 64"]
        mod_pos_pos_trivial [of "int (length m) - int ?o + 2 ^ 64" "2 ^ 64"] by simp
    then have left: "TLS_SEGMENT \<le> ?left" using assms(4,5,8) by (simp add: TLS_SEGMENT_def)
    then have "segment ?left ?c = None"
      using assms(8) by (simp add: segment_def mem_read_def c'(3) Let_def TLS_SEGMENT_def)
    then show ?thesis
      using left c' by (simp add: ci_write_def ci_write_loop.simps [of tries ?c] ci_wbuf_len_def in_error_def TLS_SEGMENT_def)
  qed
  ultimately show ?thesis using c'(1) unfolding c'_def by blast
qed

theorem write_after_error_overruns_witness:
  "\<exists>c. ci_write 300 (fresh_client\<lparr>write_buffer := ''+OK ready'', write_buffer_offset := 7,
          cb_writes := [WriteFailed 32 SSL_ERROR_NONE]\<rparr>) None = Some (- 1, c) \<and>
     ci_write 300 (ci_read_cb (c\<lparr>cb_reads := [Got ''NOOP'']\<rparr>)) (Some ''+OK'') = None"
  using write_after_error_overruns [of "fresh_client\<lparr>write_buffer := ''+OK ready'', write_buffer_offset := 7,
      cb_writes := [WriteFailed 32 SSL_ERROR_NONE]\<rparr>" 32 SSL_ERROR_NONE "[]" "''+OK''" "''NOOP''" 300]
  by (auto simp: fresh_client_def in_error_def CLIENT_OK_def EAGAIN_def EINTR_def)

end
