(* ===== verification/Dsn.thy ===== *)
theory Dsn
  imports Names
begin

text \<open>
  Delivery status and address resolution (\<open>src/src/dm_dsn.c\<close>), with the alias lookup of the SQL
  authentication module (\<open>auth_check_user_ext\<close> in \<open>src/src/modules/authsql.c\<close>). The alias
  table and the user table are arguments.
\<close>

section \<open>Data\<close>

datatype dsn_class_t = DSN_CLASS_NONE | DSN_CLASS_OK | DSN_CLASS_TEMP | DSN_CLASS_FAIL | DSN_CLASS_QUOTA

fun dsn_class_code :: "dsn_class_t \<Rightarrow> int" where
  "dsn_class_code DSN_CLASS_NONE = 0"
| "dsn_class_code DSN_CLASS_OK = 2"
| "dsn_class_code DSN_CLASS_TEMP = 4"
| "dsn_class_code DSN_CLASS_FAIL = 5"
| "dsn_class_code DSN_CLASS_QUOTA = 6"

record delivery_status_t =
  dsn_class :: dsn_class_t
  dsn_subject :: int
  dsn_detail :: int

datatype mailbox_source = BOX_NONE | BOX_UNKNOWN | BOX_ADDRESSPART | BOX_BRUTEFORCE | BOX_COMMANDLINE
  | BOX_SORTING | BOX_DEFAULT | BOX_IMAP

record delivery =
  d_useridnr :: u64
  d_address :: "string option"
  d_mailbox :: "string option"
  d_source :: mailbox_source
  d_userids :: "u64 list"
  d_forwards :: "string list"
  d_dsn :: delivery_status_t

section \<open>Descriptions\<close>

definition DSN_STRINGS_CLASS :: "string list" where
  "DSN_STRINGS_CLASS =
     [[], [], ''Success'', [], ''Persistent Transient Failure'', ''Permanent Failure'']"

definition DSN_STRINGS_SUBJECT :: "string list" where
  "DSN_STRINGS_SUBJECT =
     [[], ''Address Status'', ''Mailbox Status'', ''Mail System Status'', ''Network and Routing Status'',
      ''Mail Delivery Protocol Status'', ''Message Content or Message Media Status'',
      ''Security or Policy Status'']"

definition DSN_STRINGS_DETAIL :: "string list list" where
  "DSN_STRINGS_DETAIL =
     [[[]],
      [''Other address status'', ''Bad destination mailbox address'', ''Bad destination system address'',
       ''Bad destination mailbox address syntax'', ''Destination mailbox address ambiguous'',
       ''Destination mailbox address valid'', ''Mailbox has moved'',
       ''Bad sender'' @ [CHR 0x27] @ ''s mailbox address syntax'',
       ''Bad sender'' @ [CHR 0x27] @ ''s system address''],
      [''Other or undefined mailbox status'', ''Mailbox disabled, not accepting messages'', ''Mailbox full'',
       ''Message length exceeds administrative limit'', ''Mailing list expansion problem''],
      [''Other or undefined mail system status'', ''Mail system full'',
       ''System not accepting network messages'', ''System not capable of selected features'',
       ''Message too big for system''],
      [''Other or undefined network or routing status'', ''No answer from host'', ''Bad connection'',
       ''Routing server failure'', ''Unable to route'', ''Network congestion'', ''Routing loop detected'',
       ''Delivery time expired''],
      [''Other or undefined protocol status'', ''Invalid command'', ''Syntax error'',
       ''Too many recipients'', ''Invalid command arguments'', ''Wrong protocol version''],
      [''Other or undefined media error'', ''Media not supported'', ''Conversion required and prohibited'',
       ''Conversion required but not supported'', ''Conversion with loss performed'', ''Conversion failed''],
      [''Other or undefined security status'', ''Delivery not authorized, message refused'',
       ''Mailing list expansion prohibited'', ''Security conversion required but not possible'',
       ''Security features not supported'', ''Cryptographic failure'',
       ''Cryptographic algorithm not supported'', ''Message integrity failure'']]"

definition DSN_STRINGS_DETAIL_VALID :: "int list" where
  "DSN_STRINGS_DETAIL_VALID = [0, 8, 4, 4, 7, 5, 5, 7]"

text \<open>An access to an array: \<open>None\<close> outside it.\<close>

definition elem :: "'a list \<Rightarrow> int \<Rightarrow> 'a option" where
  "elem xs i = (if 0 \<le> i \<and> nat i < length xs then Some (xs ! nat i) else None)"

text \<open>
  The three strings are options inside the function, where \<open>NULL\<close> marks an unknown code.
\<close>

definition dsn_tostring ::
  "delivery_status_t \<Rightarrow> (int \<times> string \<times> string \<times> string) option" where
  "dsn_tostring dsn =
     (let c = dsn_class_code (dsn_class dsn); s = dsn_subject dsn; d = dsn_detail dsn
      in do {
           cls \<leftarrow> (if c = 2 \<or> c = 4 \<or> c = 5 then map_option Some (elem DSN_STRINGS_CLASS c) else Some None);
           subj \<leftarrow> (if 0 \<le> s \<and> s \<le> 7 then map_option Some (elem DSN_STRINGS_SUBJECT s) else Some None);
           det \<leftarrow> (if 0 \<le> s \<and> s \<le> 7 \<and> 0 \<le> d
                   then do {
                     valid \<leftarrow> elem DSN_STRINGS_DETAIL_VALID s;
                     if d \<le> valid
                     then do { row \<leftarrow> elem DSN_STRINGS_DETAIL s; map_option Some (elem row d) }
                     else Some None
                   }
                   else Some None);
           Some (case (cls, subj, det) of
                   (Some a, Some b, Some e) \<Rightarrow> (0, a, b, e) | _ \<Rightarrow> (- 1, [], [], []))
         })"

definition set_dsn :: "delivery \<Rightarrow> dsn_class_t \<Rightarrow> int \<Rightarrow> int \<Rightarrow> delivery" where
  "set_dsn delivery foo bar qux =
     delivery\<lparr>d_dsn := \<lparr>dsn_class = foo, dsn_subject = bar, dsn_detail = qux\<rparr>\<rparr>"

definition dsnuser_init :: delivery where
  "dsnuser_init =
     \<lparr>d_useridnr = 0, d_address = None, d_mailbox = None, d_source = BOX_NONE, d_userids = [],
      d_forwards = [], d_dsn = \<lparr>dsn_class = DSN_CLASS_NONE, dsn_subject = 0, dsn_detail = 0\<rparr>\<rparr>"

section \<open>Aliases\<close>

text \<open>
  \<open>deliver_to\<close> is \<open>user_get_deliver_to\<close> and \<open>active\<close> is \<open>db_user_active\<close>; the two lists are the
  user ids and the forwards found so far. The recursion is bounded by the number of checks.
\<close>

function auth_check_user_ext ::
  "(string \<Rightarrow> string list) \<Rightarrow> (u64 \<Rightarrow> bool) \<Rightarrow> string \<Rightarrow> u64 list \<times> string list \<Rightarrow> nat \<Rightarrow>
     int \<times> u64 list \<times> string list" where
  "auth_check_user_ext deliver_to active username st checks =
     (if 20 < checks then (0, st)
      else let d = deliver_to username
           in if d = []
              then if checks = 0 then (0, st)
                   else (case strtoull username of (i, endptr) \<Rightarrow>
                           if endptr = []
                           then (if active i then (1, i # fst st, snd st) else (0, st))
                           else (0, fst st, username # snd st))
              else fold (\<lambda>u (occurences, st).
                          case auth_check_user_ext deliver_to active u st (checks + 1) of
                            (n, st') \<Rightarrow> (occurences + n, st')) d (0, st))"
  by pat_completeness auto

termination
  by (relation "measure (\<lambda>(_, _, _, _, checks). 21 - checks)") auto

declare auth_check_user_ext.simps [simp del]

section \<open>Resolving an address\<close>

text \<open>
  \<open>auth_check_user_ext\<close>, \<open>auth_user_exists\<close> and \<open>auth_check_userid\<close> of the authentication
  module in use.
\<close>

type_synonym resolver = "string \<Rightarrow> u64 list \<times> string list \<Rightarrow> int \<times> u64 list \<times> string list"

record auth_env =
  a_check_user_ext :: resolver
  a_user_exists :: "string \<Rightarrow> u64 option"
  a_check_userid :: "u64 \<Rightarrow> int"

definition check_ext :: "auth_env \<Rightarrow> string \<Rightarrow> delivery \<Rightarrow> int \<times> delivery" where
  "check_ext env name delivery =
     (case a_check_user_ext env name (d_userids delivery, d_forwards delivery) of
        (n, us, fs) \<Rightarrow> (n, delivery\<lparr>d_userids := us, d_forwards := fs\<rparr>))"

definition address_has_alias :: "auth_env \<Rightarrow> delivery \<Rightarrow> bool \<times> delivery" where
  "address_has_alias env delivery =
     (case d_address delivery of
        None \<Rightarrow> (False, delivery)
      | Some address \<Rightarrow>
          (case check_ext env address delivery of (alias_count, delivery) \<Rightarrow> (0 < alias_count, delivery)))"

definition address_has_alias_mailbox :: "auth_env \<Rightarrow> delivery \<Rightarrow> (bool \<times> delivery) option" where
  "address_has_alias_mailbox env delivery =
     (case d_address delivery of
        None \<Rightarrow> Some (False, delivery)
      | Some address \<Rightarrow>
          (case zap_between address (- 43) 64 of
             None \<Rightarrow> None
           | Some (_, None) \<Rightarrow> Some (False, delivery)
           | Some (_, Some (newaddress, _)) \<Rightarrow>
               (case check_ext env newaddress delivery of
                  (alias_count, delivery) \<Rightarrow> Some (0 < alias_count, delivery))))"

definition add_userid :: "u64 \<Rightarrow> delivery \<Rightarrow> delivery" where
  "add_userid uid delivery = delivery\<lparr>d_userids := uid # d_userids delivery\<rparr>"

definition address_is_username_mailbox :: "auth_env \<Rightarrow> delivery \<Rightarrow> (bool \<times> delivery) option" where
  "address_is_username_mailbox env delivery =
     (case d_address delivery of
        None \<Rightarrow> Some (False, delivery)
      | Some address \<Rightarrow>
          (case zap_between address (- 43) 64 of
             None \<Rightarrow> None
           | Some (_, None) \<Rightarrow> Some (False, delivery)
           | Some (_, Some (newaddress, _)) \<Rightarrow>
               (case a_user_exists env newaddress of
                  None \<Rightarrow> Some (False, delivery)
                | Some userid \<Rightarrow> Some (True, add_userid userid delivery))))"

definition address_is_username :: "auth_env \<Rightarrow> delivery \<Rightarrow> bool \<times> delivery" where
  "address_is_username env delivery =
     (case d_address delivery of
        None \<Rightarrow> (False, delivery)
      | Some address \<Rightarrow>
          (case a_user_exists env address of
             None \<Rightarrow> (False, delivery)
           | Some userid \<Rightarrow> (True, add_userid userid delivery)))"

text \<open>
  The loop of \<open>address_is_domain_catchall\<close>: the offset of the next dot, and the string after
  the \<open>memmove\<close> that puts the part from that dot behind the at-sign.
\<close>

definition next_domain :: "string \<Rightarrow> string option" where
  "next_domain my_domain =
     (case strchr my_domain CHR ''.'' of
        None \<Rightarrow> None
      | Some i \<Rightarrow>
          if i = 0 then None
          else if i = 1
          then (case strchr (drop 2 my_domain) CHR ''.'' of
                  None \<Rightarrow> None
                | Some j \<Rightarrow> Some (take 1 my_domain @ drop (2 + j) my_domain))
          else Some (take 1 my_domain @ drop i my_domain))"

lemma next_domain_shorter: "next_domain d = Some d' \<Longrightarrow> length d' < length d"
  by (auto simp: next_domain_def split: option.splits if_splits dest!: strchr_less)

function catchall_loop :: "auth_env \<Rightarrow> string \<Rightarrow> delivery \<Rightarrow> int \<times> delivery" where
  "catchall_loop env my_domain delivery =
     (case check_ext env my_domain delivery of
        (domain_count, delivery) \<Rightarrow>
          if 0 < domain_count then (domain_count, delivery)
          else (case next_domain my_domain of
                  None \<Rightarrow> (domain_count, delivery)
                | Some my_domain' \<Rightarrow> catchall_loop env my_domain' delivery))"
  by pat_completeness auto

termination
  by (relation "measure (\<lambda>(_, my_domain, _). length my_domain)") (auto dest: next_domain_shorter)

declare catchall_loop.simps [simp del]

definition address_is_domain_catchall :: "auth_env \<Rightarrow> delivery \<Rightarrow> bool \<times> delivery" where
  "address_is_domain_catchall env delivery =
     (case d_address delivery of
        None \<Rightarrow> (False, delivery)
      | Some address \<Rightarrow>
          (case strchr address CHR ''@'' of
             None \<Rightarrow> (False, delivery)
           | Some i \<Rightarrow>
               (case catchall_loop env (drop i address) delivery of
                  (domain_count, delivery) \<Rightarrow> (0 < domain_count, delivery))))"

definition address_is_userpart_catchall :: "auth_env \<Rightarrow> delivery \<Rightarrow> bool \<times> delivery" where
  "address_is_userpart_catchall env delivery =
     (case d_address delivery of
        None \<Rightarrow> (False, delivery)
      | Some address \<Rightarrow>
          (case strchr address CHR ''@'' of
             None \<Rightarrow> (False, delivery)
           | Some i \<Rightarrow>
               (case check_ext env (take (i + 1) address) delivery of
                  (userpart_count, delivery) \<Rightarrow> (userpart_count \<noteq> 0, delivery))))"

text \<open>\<open>NULL\<close> deliveries do not occur in the lists of this model; a \<open>NULL\<close> address does.\<close>

definition dsnuser_resolve :: "auth_env \<Rightarrow> delivery \<Rightarrow> (int \<times> delivery) option" where
  "dsnuser_resolve env delivery =
     (let success = (\<lambda>d. Some (0, set_dsn d DSN_CLASS_OK 1 5))
      in if d_useridnr delivery \<noteq> 0
         then let r = a_check_userid env (d_useridnr delivery)
              in if r = - 1 then Some (0, set_dsn delivery DSN_CLASS_TEMP 1 1)
                 else if r = 1 then Some (0, set_dsn delivery DSN_CLASS_FAIL 1 1)
                 else if r = 0 then success (add_userid (d_useridnr delivery) delivery)
                 else Some (0, delivery)
         else do {
           address \<leftarrow> d_address delivery;
           if address = [] then Some (- 1, delivery)
           else case address_has_alias env delivery of (found, delivery) \<Rightarrow>
             if found then success delivery
             else do {
               (found, delivery) \<leftarrow> address_has_alias_mailbox env delivery;
               if found then success delivery
               else case address_is_username env delivery of (found, delivery) \<Rightarrow>
                 if found then success delivery
                 else do {
                   (found, delivery) \<leftarrow> address_is_username_mailbox env delivery;
                   if found then success delivery
                   else case address_is_domain_catchall env delivery of (found, delivery) \<Rightarrow>
                     if found then success delivery
                     else case address_is_userpart_catchall env delivery of (found, delivery) \<Rightarrow>
                       if found then success delivery
                       else Some (0, set_dsn delivery DSN_CLASS_FAIL 1 1)
                 }
             }
         })"

fun resolve_loop :: "auth_env \<Rightarrow> delivery list \<Rightarrow> (int \<times> delivery list) option" where
  "resolve_loop env [] = Some (0, [])"
| "resolve_loop env (d # ds) =
     do {
       (ret, d') \<leftarrow> dsnuser_resolve env d;
       if ret \<noteq> 0 then Some (ret, d' # ds)
       else do { (r, ds') \<leftarrow> resolve_loop env ds; Some (r, d' # ds') }
     }"

text \<open>An empty \<open>List_T\<close> is one node without data, for which \<open>dsnuser_resolve\<close> answers -1.\<close>

definition dsnuser_resolve_list :: "auth_env \<Rightarrow> delivery list \<Rightarrow> (int \<times> delivery list) option" where
  "dsnuser_resolve_list env ds = (if ds = [] then Some (- 1, []) else resolve_loop env ds)"

section \<open>The worst case of several deliveries\<close>

definition dsnuser_worstcase_int :: "bool \<Rightarrow> bool \<Rightarrow> bool \<Rightarrow> bool \<Rightarrow> dsn_class_t" where
  "dsnuser_worstcase_int ok temp fail fail_quota =
     (if temp then DSN_CLASS_TEMP
      else if fail then DSN_CLASS_FAIL
      else if fail_quota then DSN_CLASS_QUOTA
      else if ok then DSN_CLASS_OK
      else DSN_CLASS_NONE)"

fun worstcase_step :: "delivery \<Rightarrow> bool \<times> bool \<times> bool \<times> bool \<Rightarrow> bool \<times> bool \<times> bool \<times> bool" where
  "worstcase_step d (ok, temp, fail, fail_quota) =
     (case dsn_class (d_dsn d) of
        DSN_CLASS_OK \<Rightarrow> (True, temp, fail, fail_quota)
      | DSN_CLASS_TEMP \<Rightarrow> (ok, True, fail, fail_quota)
      | DSN_CLASS_NONE \<Rightarrow> (ok, temp, fail, fail_quota)
      | _ \<Rightarrow> if dsn_subject (d_dsn d) = 2 then (ok, temp, fail, True) else (ok, temp, True, fail_quota))"

text \<open>The node without data of an empty list is dereferenced.\<close>

definition dsnuser_worstcase_list :: "delivery list \<Rightarrow> dsn_class_t option" where
  "dsnuser_worstcase_list deliveries =
     (if deliveries = [] then None
      else Some (case fold worstcase_step deliveries (False, False, False, False) of
        (ok, temp, fail, fail_quota) \<Rightarrow> dsnuser_worstcase_int ok temp fail fail_quota))"

section \<open>What alias lookup finds\<close>

text \<open>The ends of the alias chains of a name, up to the depth that the lookup visits.\<close>

function alias_leaves :: "(string \<Rightarrow> string list) \<Rightarrow> string \<Rightarrow> nat \<Rightarrow> string list" where
  "alias_leaves deliver_to name checks =
     (if 20 < checks then []
      else if deliver_to name = [] then (if checks = 0 then [] else [name])
      else concat (map (\<lambda>u. alias_leaves deliver_to u (checks + 1)) (deliver_to name)))"
  by pat_completeness auto

termination
  by (relation "measure (\<lambda>(_, _, checks). 21 - checks)") auto

declare alias_leaves.simps [simp del]

definition leaf_userids :: "(u64 \<Rightarrow> bool) \<Rightarrow> string list \<Rightarrow> u64 list" where
  "leaf_userids active ls =
     filter active (map (fst \<circ> strtoull) (filter (\<lambda>l. snd (strtoull l) = []) ls))"

definition leaf_forwards :: "string list \<Rightarrow> string list" where
  "leaf_forwards ls = filter (\<lambda>l. snd (strtoull l) \<noteq> []) ls"

lemma leaf_append [simp]:
  "leaf_userids active (a @ b) = leaf_userids active a @ leaf_userids active b"
  "leaf_forwards (a @ b) = leaf_forwards a @ leaf_forwards b"
  by (simp_all add: leaf_userids_def leaf_forwards_def)

lemma leaf_Nil [simp]: "leaf_userids active [] = []" "leaf_forwards [] = []"
  by (simp_all add: leaf_userids_def leaf_forwards_def)

lemma check_fold:
  assumes "\<And>u us fs. u \<in> set d \<Longrightarrow> f u (us, fs) = (int (length (g u)), rev (g u) @ us, rev (h u) @ fs)"
  shows "fold (\<lambda>u (n, st). case f u st of (k, st') \<Rightarrow> (n + k, st')) d (m, us, fs) =
    (m + int (length (concat (map g d))), rev (concat (map g d)) @ us, rev (concat (map h d)) @ fs)"
  using assms
proof (induction d arbitrary: m us fs)
  case (Cons u d)
  then show ?case by (simp add: Cons.prems)
qed simp

lemma leaf_concat:
  "leaf_userids active (concat ls) = concat (map (leaf_userids active) ls)"
  "leaf_forwards (concat ls) = concat (map leaf_forwards ls)"
  by (induction ls) simp_all

lemma check_user_ext_leaves:
  fixes name :: string
  shows "auth_check_user_ext deliver_to active name (us, fs) checks =
    (let ls = alias_leaves deliver_to name checks
     in (int (length (leaf_userids active ls)), rev (leaf_userids active ls) @ us, rev (leaf_forwards ls) @ fs))"
proof (induction deliver_to name checks arbitrary: us fs rule: alias_leaves.induct)
  case (1 deliver_to name checks)
  show ?case
  proof (cases "20 < checks \<or> deliver_to name = []")
    case True
    then show ?thesis
      by (subst auth_check_user_ext.simps, subst alias_leaves.simps)
        (auto simp: leaf_userids_def leaf_forwards_def split: prod.split)
  next
    case False
    let ?g = "\<lambda>u. leaf_userids active (alias_leaves deliver_to u (checks + 1))"
    let ?h = "\<lambda>u. leaf_forwards (alias_leaves deliver_to u (checks + 1))"
    have "auth_check_user_ext deliver_to active u (us, fs) (checks + 1) =
        (int (length (?g u)), rev (?g u) @ us, rev (?h u) @ fs)" if "u \<in> set (deliver_to name)" for u us fs
      using 1 [OF _ _ that, of us fs] False by (simp add: Let_def)
    from check_fold [of "deliver_to name" "\<lambda>u st. auth_check_user_ext deliver_to active u st (checks + 1)" ?g ?h, OF this]
    show ?thesis
      using False by (subst auth_check_user_ext.simps, subst alias_leaves.simps)
        (simp add: Let_def leaf_concat comp_def)
  qed
qed

lemma check_user_ext_adds:
  "\<exists>new newf. auth_check_user_ext deliver_to active name (us, fs) checks =
     (int (length new), new @ us, newf @ fs)"
proof -
  let ?ls = "alias_leaves deliver_to name checks"
  have "auth_check_user_ext deliver_to active name (us, fs) checks =
     (int (length (rev (leaf_userids active ?ls))), rev (leaf_userids active ?ls) @ us, rev (leaf_forwards ?ls) @ fs)"
    by (simp add: check_user_ext_leaves Let_def)
  then show ?thesis by blast
qed

section \<open>The contract of an alias lookup\<close>

text \<open>
  What address resolution needs from the authentication module: a lookup only adds to the two
  lists, and its result is the number of user ids it has added.
\<close>

definition adds :: "delivery \<Rightarrow> bool \<times> delivery \<Rightarrow> bool" where
  "adds d r \<longleftrightarrow>
     (fst r \<longleftrightarrow> length (d_userids d) < length (d_userids (snd r))) \<and>
     length (d_userids d) \<le> length (d_userids (snd r)) \<and>
     d_address (snd r) = d_address d \<and> d_useridnr (snd r) = d_useridnr d"

lemma adds_add_userid: "adds d (True, add_userid u d)"
  by (simp add: adds_def add_userid_def)

lemma adds_refl: "adds d (False, d)"
  by (simp add: adds_def)

lemma adds_trans: "adds d (False, d1) \<Longrightarrow> adds d1 (found, d2) \<Longrightarrow> adds d (found, d2)"
  by (auto simp: adds_def)

lemma zap_plus_safe:
  assumes "case (strchr a CHR ''+'', strrchr a CHR ''@'') of (Some i, Some j) \<Rightarrow> i \<le> j | _ \<Rightarrow> True"
  shows "zap_between a (- 43) 64 \<noteq> None"
proof -
  have c: "char_of (43 :: nat) = CHR ''+''" "char_of (64 :: nat) = CHR ''@''" by code_simp+
  have less: "j < length a" if "strrchr a CHR ''@'' = Some j" for j
    using that by (simp add: strrchr_Some_iff)
  show ?thesis
  proof (cases "strchr a CHR ''+'' = None \<or> strrchr a CHR ''@'' = None")
    case True
    then show ?thesis
      by (auto simp: zap_between_def c Let_def split: option.splits simp del: strchr_None_iff strrchr_None_iff)
  next
    case False
    then obtain i j where ij: "strchr a CHR ''+'' = Some i" "strrchr a CHR ''@'' = Some j"
      by (metis not_None_eq)
    then have "i \<le> j" "j < length a" using assms less by simp_all
    then show ?thesis by (simp add: zap_between_def c Let_def ij mem_write_def)
  qed
qed

locale alias_resolver =
  fixes lookup :: resolver
  assumes lookup_adds: "\<exists>new newf. lookup name (us, fs) = (int (length new), new @ us, newf @ fs)"
begin

lemma check_ext_adds:
  assumes "a_check_user_ext env = lookup" "check_ext env name d = (n, d')"
  shows "adds d (0 < n, d')" "0 \<le> n"
proof -
  obtain new newf where "lookup name (d_userids d, d_forwards d) =
      (int (length new), new @ d_userids d, newf @ d_forwards d)"
    using lookup_adds by blast
  then show "adds d (0 < n, d')" "0 \<le> n" using assms by (auto simp: check_ext_def adds_def)
qed

lemma catchall_loop_adds:
  assumes "a_check_user_ext env = lookup" "catchall_loop env domain d = (n, d')"
  shows "adds d (0 < n, d')"
  using assms
proof (induction env domain d arbitrary: n d' rule: catchall_loop.induct)
  case (1 env domain d)
  obtain k e where k: "check_ext env domain d = (k, e)" by force
  note step = check_ext_adds [OF "1.prems"(1) k]
  show ?case
  proof (cases "0 < k \<or> next_domain domain = None")
    case True
    then show ?thesis
      using "1.prems"(2) step by (subst (asm) catchall_loop.simps) (auto simp: k split: if_splits)
  next
    case False
    then obtain domain' where d': "next_domain domain = Some domain'" "\<not> 0 < k" by auto
    then have "catchall_loop env domain' e = (n, d')"
      using "1.prems"(2) by (subst (asm) catchall_loop.simps) (simp add: k)
    then have "adds e (0 < n, d')"
      using "1.IH" [OF k [symmetric] d'(2,1) "1.prems"(1)] by simp
    then show ?thesis using adds_trans step d'(2) by auto
  qed
qed

lemma steps_add:
  assumes "a_check_user_ext env = lookup"
  shows "adds d (address_has_alias env d)" "adds d (address_is_username env d)"
    and "adds d (address_is_domain_catchall env d)" "adds d (address_is_userpart_catchall env d)"
    and "address_has_alias_mailbox env d = Some r \<Longrightarrow> adds d r"
    and "address_is_username_mailbox env d = Some r \<Longrightarrow> adds d r"
proof -
  have ext: "adds d (case check_ext env a d of (n, d') \<Rightarrow> (0 < n, d'))"
      "adds d (case check_ext env a d of (n, d') \<Rightarrow> (n \<noteq> 0, d'))" for a
  proof -
    obtain n d' where n: "check_ext env a d = (n, d')" by force
    have "n \<noteq> 0 \<longleftrightarrow> 0 < n" using check_ext_adds(2) [OF assms n] by linarith
    then show "adds d (case check_ext env a d of (n, d') \<Rightarrow> (0 < n, d'))"
        "adds d (case check_ext env a d of (n, d') \<Rightarrow> (n \<noteq> 0, d'))"
      using check_ext_adds(1) [OF assms n] by (simp_all add: n)
  qed
  have loop: "adds d (case catchall_loop env a d of (n, d') \<Rightarrow> (0 < n, d'))" for a
    using catchall_loop_adds [OF assms, of a d] by (auto split: prod.split)
  show "adds d (address_has_alias env d)"
    unfolding address_has_alias_def using ext(1) by (auto simp: adds_refl split: option.split)
  show "adds d (address_is_username env d)"
    by (auto simp: address_is_username_def adds_refl adds_add_userid split: option.split)
  show "adds d (address_is_domain_catchall env d)"
    unfolding address_is_domain_catchall_def using loop by (auto simp: adds_refl split: option.split)
  show "adds d (address_is_userpart_catchall env d)"
    unfolding address_is_userpart_catchall_def using ext(2) by (auto simp: adds_refl split: option.split)
  show "address_has_alias_mailbox env d = Some r \<Longrightarrow> adds d r"
    unfolding address_has_alias_mailbox_def using check_ext_adds(1) [OF assms]
    by (auto simp: adds_refl split: option.splits prod.splits)
  show "address_is_username_mailbox env d = Some r \<Longrightarrow> adds d r"
    by (auto simp: address_is_username_mailbox_def adds_refl adds_add_userid split: option.splits prod.splits)
qed

lemma resolve_adds:
  assumes env: "a_check_user_ext env = lookup" and d: "d_useridnr d = 0" "d_address d = Some a" "a \<noteq> []"
    and safe: "zap_between a (- 43) 64 \<noteq> None"
  shows "\<exists>found d' cls. adds d (found, d') \<and> cls = (if found then (DSN_CLASS_OK, 1, 5) else (DSN_CLASS_FAIL, 1, 1)) \<and>
     dsnuser_resolve env d = Some (0, set_dsn d' (fst cls) (fst (snd cls)) (snd (snd cls)))"
proof -
  note add = steps_add [OF env]
  have mb: "address_has_alias_mailbox env e \<noteq> None" "address_is_username_mailbox env e \<noteq> None"
    if "d_address e = Some a" for e
    using safe that by (auto simp: address_has_alias_mailbox_def address_is_username_mailbox_def
        split: option.splits prod.splits)
  obtain f1 d1 where 1: "address_has_alias env d = (f1, d1)" by force
  note s1 = add(1) [of d, unfolded 1]
  obtain f2 d2 where 2: "address_has_alias_mailbox env d1 = Some (f2, d2)"
    using mb(1) [of d1] s1 d(2) by (auto simp: adds_def)
  note s2 = add(5) [OF 2]
  obtain f3 d3 where 3: "address_is_username env d2 = (f3, d3)" by force
  note s3 = add(2) [of d2, unfolded 3]
  obtain f4 d4 where 4: "address_is_username_mailbox env d3 = Some (f4, d4)"
    using mb(2) [of d3] s1 s2 s3 d(2) by (auto simp: adds_def)
  note s4 = add(6) [OF 4]
  obtain f5 d5 where 5: "address_is_domain_catchall env d4 = (f5, d5)" by force
  note s5 = add(3) [of d4, unfolded 5]
  obtain f6 d6 where 6: "address_is_userpart_catchall env d5 = (f6, d6)" by force
  note s6 = add(4) [of d5, unfolded 6]
  note res = dsnuser_resolve_def [of env d] d 1 2 3 4 5 6
  consider f1 | "\<not> f1" f2 | "\<not> f1" "\<not> f2" f3 | "\<not> f1" "\<not> f2" "\<not> f3" f4
    | "\<not> f1" "\<not> f2" "\<not> f3" "\<not> f4" f5 | "\<not> f1" "\<not> f2" "\<not> f3" "\<not> f4" "\<not> f5" by blast
  then show ?thesis
  proof cases
    case c: 1
    then show ?thesis using s1 by (intro exI [of _ True] exI [of _ d1]) (simp add: res)
  next
    case c: 2
    then show ?thesis using adds_trans [of d d1] s1 s2 by (intro exI [of _ True] exI [of _ d2]) (simp add: res)
  next
    case c: 3
    then have "adds d (f3, d3)" using s1 s2 s3 by (metis (full_types) adds_trans)
    then show ?thesis using c by (intro exI [of _ True] exI [of _ d3]) (simp add: res)
  next
    case c: 4
    then have "adds d (f4, d4)" using s1 s2 s3 s4 by (metis (full_types) adds_trans)
    then show ?thesis using c by (intro exI [of _ True] exI [of _ d4]) (simp add: res)
  next
    case c: 5
    then have "adds d (f5, d5)" using s1 s2 s3 s4 s5 by (metis (full_types) adds_trans)
    then show ?thesis using c by (intro exI [of _ True] exI [of _ d5]) (simp add: res)
  next
    case c: 6
    then have "adds d (f6, d6)" using s1 s2 s3 s4 s5 s6 by (metis (full_types) adds_trans)
    then show ?thesis using c by (intro exI [of _ f6] exI [of _ d6]) (simp add: res)
  qed
qed

end

interpretation sql_alias: alias_resolver "\<lambda>name st. auth_check_user_ext deliver_to active name st 0"
  for deliver_to active
  by unfold_locales (rule check_user_ext_adds)

section \<open>The domains of a catch-all lookup\<close>

text \<open>The names that \<open>address_is_domain_catchall\<close> looks up until one is found.\<close>

function catchall_domains :: "string \<Rightarrow> string list" where
  "catchall_domains d =
     d # (case next_domain d of None \<Rightarrow> [] | Some d' \<Rightarrow> catchall_domains d')"
  by pat_completeness auto

termination
  by (relation "measure length") (auto dest: next_domain_shorter)

declare catchall_domains.simps [simp del]

lemma strchr_append_hit: "c \<notin> set s \<Longrightarrow> strchr (s @ c # t) c = Some (length s)"
  by (simp add: strchr_Some_iff nth_append)

lemma next_domain_first:
  assumes "CHR ''.'' \<notin> set l" "l \<noteq> []"
  shows "next_domain (CHR ''@'' # l @ CHR ''.'' # t) = Some (''@.'' @ t)"
proof -
  have "strchr (CHR ''@'' # l @ CHR ''.'' # t) CHR ''.'' = Some (Suc (length l))"
    using strchr_append_hit [of "CHR ''.''" "CHR ''@'' # l" t] assms(1) by simp
  then show ?thesis using assms(2) by (simp add: next_domain_def)
qed

lemma next_domain_next:
  assumes "CHR ''.'' \<notin> set l"
  shows "next_domain (''@.'' @ l @ CHR ''.'' # t) = Some (''@.'' @ t)"
    and "next_domain (''@.'' @ l) = None"
proof -
  have dot: "strchr (''@.'' @ x) CHR ''.'' = Some 1" for x
    using strchr_append_hit [of "CHR ''.''" "''@''" x] by simp
  show "next_domain (''@.'' @ l @ CHR ''.'' # t) = Some (''@.'' @ t)"
    using dot [of "l @ CHR ''.'' # t"] strchr_append_hit [OF assms, of t] by (simp add: next_domain_def)
  show "next_domain (''@.'' @ l) = None"
    using dot [of l] strchr_None_iff [THEN iffD2, OF assms]
    by (simp add: next_domain_def del: strchr_None_iff)
qed

lemma catchall_tail:
  assumes "list_all (\<lambda>l. CHR ''.'' \<notin> set l) ls" "ls \<noteq> []"
  shows "catchall_domains (''@.'' @ join_with ''.'' ls) =
     map (\<lambda>k. ''@.'' @ join_with ''.'' (drop k ls)) [0..<length ls]"
  using assms
proof (induction ls)
  case (Cons l ls)
  then have l: "CHR ''.'' \<notin> set l" by simp
  show ?case
  proof (cases ls)
    case Nil
    then show ?thesis
      using next_domain_next(2) [OF l] by (subst catchall_domains.simps) simp
  next
    case (Cons m ms)
    then have "catchall_domains (''@.'' @ join_with ''.'' (l # ls)) =
        (''@.'' @ join_with ''.'' (l # ls)) # catchall_domains (''@.'' @ join_with ''.'' ls)"
      using next_domain_next(1) [OF l, of "join_with ''.'' ls"] by (subst catchall_domains.simps) simp
    then show ?thesis
      using Cons.IH Cons.prems Cons
      by (simp add: upt_conv_Cons map_Suc_upt [symmetric] comp_def del: upt_Suc)
  qed
qed simp

definition sql_env ::
  "(string \<Rightarrow> string list) \<Rightarrow> (u64 \<Rightarrow> bool) \<Rightarrow> (string \<Rightarrow> u64 option) \<Rightarrow> (u64 \<Rightarrow> int) \<Rightarrow> auth_env" where
  "sql_env deliver_to active exists check =
     \<lparr>a_check_user_ext = (\<lambda>name st. auth_check_user_ext deliver_to active name st 0),
      a_user_exists = exists, a_check_userid = check\<rparr>"

text \<open>A name has a local recipient when one of its alias chains ends in an active user id.\<close>

definition has_recipient :: "(string \<Rightarrow> string list) \<Rightarrow> (u64 \<Rightarrow> bool) \<Rightarrow> string \<Rightarrow> bool" where
  "has_recipient deliver_to active name \<longleftrightarrow> leaf_userids active (alias_leaves deliver_to name 0) \<noteq> []"

lemma check_ext_sql:
  "\<exists>d'. check_ext (sql_env deliver_to active ex ch) name d =
     (int (length (leaf_userids active (alias_leaves deliver_to name 0))), d')"
  by (simp add: check_ext_def sql_env_def check_user_ext_leaves Let_def)

lemma catchall_loop_found:
  "0 < fst (catchall_loop (sql_env deliver_to active ex ch) domain d) \<longleftrightarrow>
     list_ex (has_recipient deliver_to active) (catchall_domains domain)"
proof (induction domain arbitrary: d rule: catchall_domains.induct)
  case (1 domain)
  obtain d' where d': "check_ext (sql_env deliver_to active ex ch) domain d =
      (int (length (leaf_userids active (alias_leaves deliver_to domain 0))), d')"
    using check_ext_sql by blast
  have rec: "has_recipient deliver_to active domain \<longleftrightarrow> leaf_userids active (alias_leaves deliver_to domain 0) \<noteq> []"
    by (simp add: has_recipient_def)
  show ?case
    using 1 by (subst catchall_loop.simps, subst catchall_domains.simps)
      (auto simp: d' rec split: option.split)
qed

section \<open>Properties\<close>


definition sample_aliases :: "string \<Rightarrow> string list" where
  "sample_aliases name =
     (if name = ''list@a.org'' then [''bob@b.org'']
      else if name = ''@.org'' then [''12''] else [])"

lemma sample_leaves:
  "alias_leaves sample_aliases ''list@a.org'' 0 = [''bob@b.org'']"
  "alias_leaves sample_aliases ''@.org'' 0 = [''12'']"
  "alias_leaves sample_aliases ''@a.org'' 0 = []"
  "alias_leaves sample_aliases ''x@a.org'' 0 = []"
  by (simp_all add: alias_leaves.simps sample_aliases_def)


text \<open>
  The catch-all lookup of a domain \<open>@a.b.c\<close> tries \<open>@a.b.c\<close>, \<open>@.b.c\<close> and \<open>@.c\<close>: it finds a
  recipient exactly if one of the names, the domain and its parents with a leading dot, has an
  alias chain that ends in an active user.
\<close>

lemma domain_catchall_tries_parents:
  assumes "d_address d = Some (user @ ''@'' @ join_with ''.'' (l # ls))" "CHR ''@'' \<notin> set user"
    and "list_all (\<lambda>x. CHR ''.'' \<notin> set x) (l # ls)" "l \<noteq> []"
  shows "fst (address_is_domain_catchall (sql_env deliver_to active ex ch) d) \<longleftrightarrow>
     has_recipient deliver_to active (''@'' @ join_with ''.'' (l # ls)) \<or>
     list_ex (\<lambda>k. has_recipient deliver_to active (''@.'' @ join_with ''.'' (drop k ls))) [0..<length ls]"
proof -
  let ?dom = "''@'' @ join_with ''.'' (l # ls)"
  have at: "strchr (user @ ?dom) CHR ''@'' = Some (length user)"
    using strchr_append_hit [OF assms(2)] by simp
  have doms: "catchall_domains ?dom =
      ?dom # map (\<lambda>k. ''@.'' @ join_with ''.'' (drop k ls)) [0..<length ls]"
  proof (cases ls)
    case Nil
    have "strchr (CHR ''@'' # l) CHR ''.'' = None" using assms(3) by simp
    then show ?thesis
      using Nil by (subst catchall_domains.simps) (simp add: next_domain_def del: strchr_None_iff)
  next
    case (Cons m ms)
    then have dom: "?dom = CHR ''@'' # l @ CHR ''.'' # join_with ''.'' ls" by simp
    have "next_domain ?dom = Some (''@.'' @ join_with ''.'' ls)"
      using next_domain_first [of l "join_with ''.'' ls"] assms(3,4) unfolding dom by simp
    then show ?thesis
      using catchall_tail [of ls] assms(3) Cons by (subst catchall_domains.simps) simp
  qed
  have "fst (address_is_domain_catchall (sql_env deliver_to active ex ch) d) \<longleftrightarrow>
      0 < fst (catchall_loop (sql_env deliver_to active ex ch) ?dom d)"
    using assms(1) at by (simp add: address_is_domain_catchall_def split: prod.split)
  then show ?thesis
    unfolding catchall_loop_found doms by (simp add: list_ex_iff)
qed

lemma domain_catchall_tries_parents_witness:
  "fst (address_is_domain_catchall (sql_env sample_aliases (\<lambda>_. True) (\<lambda>_. None) (\<lambda>_. 1))
     (dsnuser_init\<lparr>d_address := Some ''x@a.org''\<rparr>))"
proof -
  have "strtoull ''12'' = (12, [])" by (simp add: strtoull_def strto_scan_def ctype_defs)
  then have "has_recipient sample_aliases (\<lambda>_. True) ''@.org''"
    by (simp add: has_recipient_def sample_leaves leaf_userids_def)
  then show ?thesis
    using domain_catchall_tries_parents [of "dsnuser_init\<lparr>d_address := Some ''x@a.org''\<rparr>" "''x''" "''a''" "[''org'']"]
    by (simp add: dsnuser_init_def)
qed

text \<open>
  C25: looking up a name in the alias table visits the table to a depth of 20 and stops, also in
  a loop of aliases. It adds the active user ids and the forward addresses at the ends of the
  chains to the two lists and returns the number of user ids.
\<close>

theorem alias_lookup_collects_leaves:
  "auth_check_user_ext deliver_to active name (us, fs) 0 =
    (let ls = alias_leaves deliver_to name 0
     in (int (length (leaf_userids active ls)), rev (leaf_userids active ls) @ us, rev (leaf_forwards ls) @ fs))"
  by (rule check_user_ext_leaves)

lemma detail_tables:
  assumes "0 \<le> s" "s \<le> 7"
  shows "elem DSN_STRINGS_DETAIL_VALID s = Some (int (length (DSN_STRINGS_DETAIL ! nat s)) - 1)"
    and "elem DSN_STRINGS_DETAIL s = Some (DSN_STRINGS_DETAIL ! nat s)"
    and "elem DSN_STRINGS_SUBJECT s \<noteq> None"
proof -
  have "s \<in> {0, 1, 2, 3, 4, 5, 6, 7}" using assms by auto
  then show "elem DSN_STRINGS_DETAIL_VALID s = Some (int (length (DSN_STRINGS_DETAIL ! nat s)) - 1)"
      "elem DSN_STRINGS_DETAIL s = Some (DSN_STRINGS_DETAIL ! nat s)" "elem DSN_STRINGS_SUBJECT s \<noteq> None"
    by (auto simp: elem_def DSN_STRINGS_DETAIL_VALID_def DSN_STRINGS_DETAIL_def DSN_STRINGS_SUBJECT_def)
qed

text \<open>
  \<open>dsn_tostring\<close> never reads outside its tables, and it knows exactly the codes of class 2, 4
  and 5 with a subject up to 7 and a detail up to the length of the table of that subject.
\<close>

lemma dsn_tostring_in_bounds:
  "\<exists>r c s d. dsn_tostring dsn = Some (r, c, s, d) \<and>
     (r = 0 \<longleftrightarrow> dsn_class dsn \<in> {DSN_CLASS_OK, DSN_CLASS_TEMP, DSN_CLASS_FAIL} \<and>
        0 \<le> dsn_subject dsn \<and> dsn_subject dsn \<le> 7 \<and>
        0 \<le> dsn_detail dsn \<and> dsn_detail dsn < int (length (DSN_STRINGS_DETAIL ! nat (dsn_subject dsn))))"
proof -
  let ?s = "dsn_subject dsn" and ?d = "dsn_detail dsn"
  define clsv where "clsv =
      (if dsn_class dsn \<in> {DSN_CLASS_OK, DSN_CLASS_TEMP, DSN_CLASS_FAIL}
       then Some (DSN_STRINGS_CLASS ! nat (dsn_class_code (dsn_class dsn))) else None)"
  have clsv: "(if dsn_class_code (dsn_class dsn) = 2 \<or> dsn_class_code (dsn_class dsn) = 4 \<or>
        dsn_class_code (dsn_class dsn) = 5
      then map_option Some (elem DSN_STRINGS_CLASS (dsn_class_code (dsn_class dsn))) else Some None) = Some clsv"
    unfolding clsv_def by (cases "dsn_class dsn") (simp_all add: elem_def DSN_STRINGS_CLASS_def)
  have known: "dsn_class dsn \<in> {DSN_CLASS_OK, DSN_CLASS_TEMP, DSN_CLASS_FAIL} \<longleftrightarrow> clsv \<noteq> None"
    by (simp add: clsv_def)
  show ?thesis
  proof (cases "0 \<le> ?s \<and> ?s \<le> 7")
    case True
    then have tables: "elem DSN_STRINGS_DETAIL_VALID ?s = Some (int (length (DSN_STRINGS_DETAIL ! nat ?s)) - 1)"
        "elem DSN_STRINGS_DETAIL ?s = Some (DSN_STRINGS_DETAIL ! nat ?s)"
      using detail_tables by blast+
    obtain sv where sv: "elem DSN_STRINGS_SUBJECT ?s = Some sv" using detail_tables(3) True by blast
    have row: "elem (DSN_STRINGS_DETAIL ! nat ?s) ?d = Some (DSN_STRINGS_DETAIL ! nat ?s ! nat ?d)"
      if "0 \<le> ?d" "?d \<le> int (length (DSN_STRINGS_DETAIL ! nat ?s)) - 1"
      using that by (simp add: elem_def nat_less_iff)
    show ?thesis
      unfolding dsn_tostring_def Let_def clsv known
      using True row by (cases clsv; cases "0 \<le> ?d"; cases "?d \<le> int (length (DSN_STRINGS_DETAIL ! nat ?s)) - 1")
        (simp_all add: tables sv)
  next
    case False
    then show ?thesis
      unfolding dsn_tostring_def Let_def clsv known by (auto split: option.split)
  qed
qed

end
