(* ===== verification/TextUtil.thy ===== *)
theory TextUtil
  imports CString "HOL-Library.Sublist"
begin

text \<open>
  Text helpers of \<open>src/src/dm_misc.c\<close>: line ends and dot-stuffing, shell escapes, IMAP strings
  and parenthesised lists, and the end of a header (\<open>src/src/dm_message.c\<close>).
\<close>

abbreviation cr :: char where "cr \<equiv> CHR 0x0D"
abbreviation lf :: char where "lf \<equiv> CHR 0x0A"
abbreviation dot :: char where "dot \<equiv> CHR 0x2E"
abbreviation dquote :: char where "dquote \<equiv> CHR 0x22"
abbreviation bslash :: char where "bslash \<equiv> CHR 0x5C"

definition crlf :: string where
  "crlf = [cr, lf]"

section \<open>White space\<close>

text \<open>GLib's \<open>g_ascii_isspace\<close> does not count the vertical tab.\<close>

definition g_ascii_isspace :: "char \<Rightarrow> bool" where
  "g_ascii_isspace c \<longleftrightarrow> code c \<in> {9, 10, 12, 13, 32}"

definition g_strstrip :: "string \<Rightarrow> string" where
  "g_strstrip s = rev (dropWhile g_ascii_isspace (rev (dropWhile g_ascii_isspace s)))"

text \<open>\<open>strip_crlf\<close> cuts line ends off the end but never touches the first character.\<close>

definition strip_crlf :: "string \<Rightarrow> string" where
  "strip_crlf buffer =
     (case buffer of
        [] \<Rightarrow> []
      | c # s \<Rightarrow> c # rev (dropWhile (\<lambda>x. x = cr \<or> x = lf) (rev s)))"

text \<open>\<open>pack_char\<close>: of a run of the character the last one remains.\<close>

fun pack_char :: "string \<Rightarrow> char \<Rightarrow> string" where
  "pack_char [] c = []"
| "pack_char [x] c = [x]"
| "pack_char (x # y # s) c =
     (if x = c \<and> y = c then pack_char (y # s) c else x # pack_char (y # s) c)"

definition dm_pack_spaces :: "string \<Rightarrow> string" where
  "dm_pack_spaces s = pack_char (map (\<lambda>c. if c = CHR 0x09 then CHR '' '' else c) s) CHR '' ''"

fun g_strcasestr :: "string \<Rightarrow> string \<Rightarrow> nat option" where
  "g_strcasestr [] needle = None"
| "g_strcasestr (c # cs) needle =
     (if strncaseeq (length needle) (c # cs) needle then Some 0
      else map_option Suc (g_strcasestr cs needle))"

section \<open>Line ends and dots\<close>

text \<open>
  The second loop of \<open>get_crlf_encoded_opt\<close>; \<open>prev\<close> is not reset after the first loop, so it
  starts as the last character of the input.
\<close>

fun crlf_loop :: "bool \<Rightarrow> char \<Rightarrow> string \<Rightarrow> string" where
  "crlf_loop dots prev [] = []"
| "crlf_loop dots prev (c # s) =
     (if c = lf \<and> prev \<noteq> cr then [cr] else []) @
     (if dots \<and> c = dot \<and> prev = lf then [dot] else []) @
     c # crlf_loop dots c s"

definition get_crlf_encoded_opt :: "string \<Rightarrow> bool \<Rightarrow> string option" where
  "get_crlf_encoded_opt s dots =
     (let nl = length (filter (\<lambda>c. c = lf) s);
          prev = (if s = [] then nul else last s);
          out = crlf_loop dots prev s
      in map_option c_str (mem_write (replicate (length s + 2 * nl + 1) nul) 0 (out @ [nul])))"

text \<open>
  \<open>find_end_of_header\<close>: the offset behind the first empty line. The loop reads the characters
  from the second one on; \<open>i\<close> counts them and \<open>l\<close> is the length of the text.
\<close>

fun eoh_loop :: "nat \<Rightarrow> nat \<Rightarrow> char \<Rightarrow> char \<Rightarrow> string \<Rightarrow> nat" where
  "eoh_loop l i p1 p2 [] = i"
| "eoh_loop l i p1 p2 (c # s) =
     (if l \<le> i then i
      else let i = i + 1
           in if c = lf \<and> (p1 = lf \<or> (p1 = cr \<and> p2 = lf)) then (if i < l then i + 1 else i)
              else eoh_loop l i c p1 s)"

definition find_end_of_header :: "string \<Rightarrow> nat" where
  "find_end_of_header h = eoh_loop (length h) 0 nul nul (tl (h @ [nul]))"

section \<open>Discarding input\<close>

text \<open>
  \<open>discard_client_input\<close> on the bytes that can be read: the number of bytes it consumes.
\<close>

fun discard_loop :: "nat \<Rightarrow> string \<Rightarrow> nat" where
  "discard_loop n [] = 0"
| "discard_loop n (c # s) =
     (if c = cr then Suc (discard_loop (if n = 4 then 5 else 1) s)
      else if c = lf
      then if n = 1 then Suc (discard_loop 2 s)
           else if n = 5 then 1
           else Suc (discard_loop n s)
      else if c = dot \<and> n = 3 then Suc (discard_loop 4 s)
      else Suc (discard_loop n s))"

definition discard_client_input :: "string \<Rightarrow> nat" where
  "discard_client_input s = discard_loop 0 s"

section \<open>Escapes\<close>

definition unsafe_chars :: string where
  "unsafe_chars =
     ''&;`'' @ [CHR 0x27, bslash, dquote] @ ''|*?~<>^()[]{}$'' @ [lf, cr, CHR 0x09, CHR '' ''] @ ''#!''"

fun shellesc_loop :: "string \<Rightarrow> string" where
  "shellesc_loop [] = []"
| "shellesc_loop (c # s) = (if c \<in> set unsafe_chars then [bslash, c] else [c]) @ shellesc_loop s"

definition dm_shellesc :: "string \<Rightarrow> string option" where
  "dm_shellesc command =
     map_option c_str
       (mem_write (replicate ((length command + 1) * 2 + 1) nul) 0 (shellesc_loop command @ [nul]))"

section \<open>IMAP strings and lists\<close>

text \<open>
  \<open>dbmail_imap_astring_as_string\<close>. \<open>l\<close> is the text without enclosing quotes; the loop looks for
  the first character that a quoted string cannot hold.
\<close>

definition strip_dquotes :: "string \<Rightarrow> string" where
  "strip_dquotes s =
     (let penult = (if 2 < length s then s ! (length s - 2) else bslash)
      in if hd s = dquote \<and> last s = dquote \<and> penult \<noteq> bslash then tl (butlast s) else s)"

definition needs_literal :: "char \<Rightarrow> bool" where
  "needs_literal c \<longleftrightarrow> 128 \<le> code c \<or> c = cr \<or> c = lf \<or> c = dquote \<or> c = bslash"

definition dbmail_imap_astring_as_string :: "string option \<Rightarrow> string" where
  "dbmail_imap_astring_as_string os =
     (case os of
        None \<Rightarrow> [dquote, dquote]
      | Some s \<Rightarrow>
          if s = [] then [dquote, dquote]
          else let l = strip_dquotes s; i = length (takeWhile (\<lambda>c. \<not> needs_literal c) l)
               in if i < length l
                  then let p = (if l ! i = dquote \<and> 0 < i \<and> l ! (i - 1) \<noteq> bslash then s else l)
                       in ''{'' @ show_nat (length p) @ ''}'' @ crlf @ p
                  else [dquote] @ l @ [dquote])"

text \<open>\<open>g_strsplit (s, d, 0)\<close> for a delimiter of several characters.\<close>

function split_str :: "string \<Rightarrow> string \<Rightarrow> string list" where
  "split_str d s =
     (case strstr s d of
        None \<Rightarrow> [s]
      | Some i \<Rightarrow> if d = [] then [s] else take i s # split_str d (drop (i + length d) s))"
  by pat_completeness auto

termination
proof (relation "measure (\<lambda>(_, s). length s)"; clarsimp)
  fix d s :: string and i
  assume "strstr s d = Some i" "d \<noteq> []"
  then have "s \<noteq> []" by (cases s) auto
  with \<open>d \<noteq> []\<close> show "length s - (i + length d) < length s" by (cases d; cases s) auto
qed

declare split_str.simps [simp del]

definition dbmail_imap_plist_collapse :: "string \<Rightarrow> string" where
  "dbmail_imap_plist_collapse s = (if s = [] then [] else join_with '')('' (split_str '') ('' s))"

text \<open>
  \<open>dbmail_imap_plist_as_string\<close>: \<open>l\<close> is not updated in the loop, so its second round finds the
  terminating NUL at \<open>l - 2\<close> and ends.
\<close>

definition dbmail_imap_plist_as_string :: "string list \<Rightarrow> string" where
  "dbmail_imap_plist_as_string list =
     (let p = ''('' @ join_with '' '' list @ '')''; l = length p
      in if 4 < l \<and> p ! 0 = CHR ''('' \<and> p ! (l - 1) = CHR '')'' \<and> p ! 1 = CHR ''('' \<and> p ! (l - 2) = CHR '')''
         then tl (butlast p) else p)"

section \<open>Formats without arguments\<close>

text \<open>
  A string passed as a \<open>printf\<close> format with no further arguments: \<open>%%\<close> prints a percent sign,
  any other conversion reads an argument that does not exist, and \<open>None\<close> stands for that.
\<close>

fun printf_plain :: "string \<Rightarrow> string option" where
  "printf_plain [] = Some []"
| "printf_plain (c # s) =
     (if c \<noteq> CHR ''%'' then map_option (Cons c) (printf_plain s)
      else (case s of
              [] \<Rightarrow> None
            | d # t \<Rightarrow> if d = CHR ''%'' then map_option (Cons d) (printf_plain t) else None))"

section \<open>Lemmas\<close>

lemma printf_plain_id: "CHR ''%'' \<notin> set s \<Longrightarrow> printf_plain s = Some s"
  by (induction s) auto

lemma printf_plain_append:
  "CHR ''%'' \<notin> set a \<Longrightarrow> printf_plain (a @ b) = map_option (\<lambda>x. a @ x) (printf_plain b)"
proof (induction a)
  case Nil
  show ?case by (cases "printf_plain b") simp_all
next
  case (Cons c a)
  then have "c \<noteq> CHR ''%''" by auto
  with Cons show ?case by (cases "printf_plain b") simp_all
qed

lemma printf_plain_append_plain:
  assumes "CHR ''%'' \<notin> set t" "t \<noteq> []"
  shows "printf_plain (s @ t) = map_option (\<lambda>x. x @ t) (printf_plain s)"
proof (induction s rule: printf_plain.induct)
  case 1
  then show ?case using printf_plain_id [OF assms(1)] by simp
next
  case (2 c s)
  obtain d t' where t: "t = d # t'" "d \<noteq> CHR ''%''" using assms by (cases t) auto
  show ?case
  proof (cases "c = CHR ''%''")
    case True
    then show ?thesis
      using 2 t by (cases s) (auto simp: option.map_comp o_def)
  qed (use 2 in \<open>simp add: option.map_comp o_def\<close>)
qed

lemma printf_plain_length: "printf_plain s = Some t \<Longrightarrow> length t \<le> length s \<and> set t \<subseteq> set s"
  by (induction s arbitrary: t rule: printf_plain.induct) (fastforce split: if_splits list.splits)+

lemma g_strstrip_length: "length (g_strstrip s) \<le> length s"
  by (metis g_strstrip_def length_dropWhile_le length_rev order_trans)

definition lfs :: "string \<Rightarrow> nat" where
  "lfs s = length (filter (\<lambda>c. c = lf) s)"

lemma lfs_simps [simp]: "lfs [] = 0" "lfs (c # s) = (if c = lf then 1 else 0) + lfs s"
  by (simp_all add: lfs_def)

lemma length_crlf_loop:
  "length (crlf_loop dots prev s) \<le> length s + lfs s + lfs (prev # butlast s)"
proof (induction s arbitrary: prev)
  case (Cons c s)
  let ?A = "if c = lf \<and> prev \<noteq> cr then [cr] else []"
  let ?B = "if dots \<and> c = dot \<and> prev = lf then [dot] else []"
  have "length ?A \<le> lfs [c]" "length ?B \<le> lfs [prev]" by simp_all
  moreover have "length (crlf_loop dots prev (c # s)) = length ?A + length ?B + 1 + length (crlf_loop dots c s)"
    by (simp only: crlf_loop.simps length_append list.size)
  moreover have "length (crlf_loop dots c s) + lfs [prev] \<le> length s + lfs s + lfs (prev # butlast (c # s))"
  proof (cases "s = []")
    case False
    then have "lfs (prev # butlast (c # s)) = lfs [prev] + lfs (c # butlast s)" by simp
    with Cons [of c] show ?thesis by linarith
  qed simp
  moreover have "lfs (c # s) = lfs [c] + lfs s" "length (c # s) = length s + 1" by simp_all
  ultimately show ?case by linarith
qed simp

lemma crlf_loop_nul: "nul \<notin> set s \<Longrightarrow> nul \<notin> set (crlf_loop dots prev s)"
  by (induction s arbitrary: prev) auto

lemma get_crlf_encoded_opt_eq:
  assumes "nul \<notin> set s"
  shows "get_crlf_encoded_opt s dots = Some (crlf_loop dots (if s = [] then nul else last s) s)"
proof -
  let ?prev = "if s = [] then nul else last s"
  have "lfs (?prev # butlast s) \<le> lfs s"
    by (cases s rule: rev_cases) (simp_all add: lfs_def)
  then have "length (crlf_loop dots ?prev s) \<le> length s + 2 * lfs s"
    using length_crlf_loop [of dots ?prev s] by linarith
  then show ?thesis
    using crlf_loop_nul [OF assms, of dots ?prev]
    by (simp add: get_crlf_encoded_opt_def mem_write_def Let_def lfs_def)
qed

text \<open>A dot behind a line feed is followed by a dot.\<close>

lemma crlf_loop_dots:
  "prev # crlf_loop True prev s = u @ lf # dot # v \<Longrightarrow> \<exists>w. v = dot # w"
proof (induction s arbitrary: prev u)
  case Nil
  then show ?case by (cases u) auto
next
  case (Cons c s)
  consider "u = []" | u' where "u = prev # u'" using Cons.prems by (cases u) auto
  then show ?case
  proof cases
    case 1
    then show ?thesis using Cons.prems by (auto split: if_splits)
  next
    case 2
    then have eq: "(if c = lf \<and> prev \<noteq> cr then [cr] else []) @ (if c = dot \<and> prev = lf then [dot] else []) @
        c # crlf_loop True c s = u' @ lf # dot # v"
      using Cons.prems by simp
    have "\<exists>u''. c # crlf_loop True c s = u'' @ lf # dot # v"
    proof (cases "c = lf \<and> prev \<noteq> cr \<or> c = dot \<and> prev = lf")
      case True
      then obtain x where "x # c # crlf_loop True c s = u' @ lf # dot # v" "x \<noteq> lf"
        using eq by (auto split: if_splits)
      then show ?thesis by (cases u') auto
    qed (use eq in auto)
    then show ?thesis using Cons.IH by blast
  qed
qed

text \<open>The line that ends a message does not occur in stuffed text that begins a line.\<close>

lemma stuffed_no_end:
  "crlf @ crlf_loop True lf s @ crlf \<noteq> u @ crlf @ [dot] @ crlf @ w"
proof
  let ?X = "lf # crlf_loop True lf s"
  assume "crlf @ crlf_loop True lf s @ crlf = u @ crlf @ [dot] @ crlf @ w"
  then have eq: "?X @ crlf = (tl (u @ [cr]) @ [lf, dot]) @ crlf @ w"
    by (cases u) (auto simp: crlf_def)
  define A where "A = tl (u @ [cr]) @ [lf, dot]"
  obtain us where "?X = A @ us \<and> us @ crlf = crlf @ w \<or> ?X @ us = A \<and> crlf = us @ crlf @ w"
    using eq [folded A_def] unfolding append_eq_append_conv2 [of ?X crlf A] by blast
  then show False
  proof
    assume "?X = A @ us \<and> us @ crlf = crlf @ w"
    then show False using crlf_loop_dots [of lf s "tl (u @ [cr])" us] by (auto simp: crlf_def A_def)
  next
    assume a: "?X @ us = A \<and> crlf = us @ crlf @ w"
    then have "us = []" by (cases us) (auto simp: crlf_def)
    then show False using a crlf_loop_dots [of lf s "tl (u @ [cr])" "[]"] by (simp add: A_def)
  qed
qed

text \<open>What the receiver does: a dot at the beginning of a line is removed.\<close>

fun unstuff :: "char \<Rightarrow> string \<Rightarrow> string" where
  "unstuff prev [] = []"
| "unstuff prev (c # s) = (if c = dot \<and> prev = lf then unstuff nul s else c # unstuff c s)"

lemma unstuff_crlf_loop: "unstuff prev (crlf_loop True prev s) = crlf_loop False prev s"
proof (induction s arbitrary: prev)
  case (Cons c s)
  then show ?case by (cases "c = dot") auto
qed simp

lemma crlf_loop_start:
  "(prev = lf \<longleftrightarrow> prev' = lf) \<Longrightarrow> (prev = cr \<longleftrightarrow> prev' = cr) \<Longrightarrow>
     crlf_loop dots prev s = crlf_loop dots prev' s"
  by (cases s) auto

lemma unsafe_bslash: "bslash \<in> set unsafe_chars"
  by (simp add: unsafe_chars_def)

text \<open>A shell's view: a backslash quotes the next character, an unsafe one must be quoted.\<close>

fun sh_unescape :: "string \<Rightarrow> string option" where
  "sh_unescape [] = Some []"
| "sh_unescape (c # s) =
     (if c = bslash then (case s of [] \<Rightarrow> None | d # t \<Rightarrow> map_option (Cons d) (sh_unescape t))
      else if c \<in> set unsafe_chars then None
      else map_option (Cons c) (sh_unescape s))"

lemma sh_unescape_loop: "sh_unescape (shellesc_loop s) = Some s"
  using unsafe_bslash by (induction s) auto

lemma length_shellesc_loop: "length (shellesc_loop s) \<le> 2 * length s"
  by (induction s) auto

lemma shellesc_nul: "nul \<notin> set s \<Longrightarrow> nul \<notin> set (shellesc_loop s)"
  by (induction s) auto

lemma discard_loop_all: "n \<le> 2 \<Longrightarrow> discard_loop n s = length s"
  by (induction s arbitrary: n) auto

section \<open>IMAP strings are read back\<close>

text \<open>The reader of an astring: a quoted string without escapes, or a literal.\<close>

definition read_astring :: "string \<Rightarrow> string option" where
  "read_astring s =
     (case s of
        [] \<Rightarrow> None
      | c # t \<Rightarrow>
          if c = dquote
          then if t \<noteq> [] \<and> last t = dquote \<and> list_all (\<lambda>x. \<not> needs_literal x) (butlast t) then Some (butlast t) else None
          else if c = CHR ''{''
          then let ds = takeWhile isdigit t; r = dropWhile isdigit t
               in if ds \<noteq> [] \<and> take 3 r = ''}'' @ crlf \<and> length (drop 3 r) = dec_value 0 ds then Some (drop 3 r) else None
          else None)"

lemma read_literal: "read_astring (''{'' @ show_nat (length p) @ ''}'' @ crlf @ p) = Some p"
proof -
  have tw: "takeWhile isdigit (show_nat (length p) @ ''}'' @ crlf @ p) = show_nat (length p)"
      "dropWhile isdigit (show_nat (length p) @ ''}'' @ crlf @ p) = ''}'' @ crlf @ p"
    using show_nat_digits [of "length p"] by (auto simp: ctype_defs)
  show ?thesis
    using tw by (simp add: read_astring_def crlf_def Let_def)
qed

lemma read_quoted:
  "list_all (\<lambda>x. \<not> needs_literal x) l \<Longrightarrow> read_astring ([dquote] @ l @ [dquote]) = Some l"
  by (simp add: read_astring_def)

section \<open>Properties\<close>



text \<open>
  \<open>dm_shellesc\<close> stays inside its block, and a shell that removes the quoting backslashes reads
  back the command without meeting an unquoted special character.
\<close>

lemma shellesc_round_trip:
  assumes "nul \<notin> set command"
  shows "\<exists>e. dm_shellesc command = Some e \<and> sh_unescape e = Some command"
  using length_shellesc_loop [of command] shellesc_nul [OF assms]
  by (simp add: dm_shellesc_def mem_write_def sh_unescape_loop)

lemma shellesc_round_trip_witness:
  "\<exists>e. dm_shellesc ''rm $HOME; ls'' = Some e \<and> sh_unescape e = Some ''rm $HOME; ls''"
  using shellesc_round_trip [of "''rm $HOME; ls''"] by simp

text \<open>
  \<open>discard_client_input\<close> is meant to stop behind the line with a single dot; its automaton
  never leaves the state after the first line end, so it consumes all the input there is.
\<close>

lemma discard_never_stops:
  "discard_client_input s = length s"
  by (simp add: discard_client_input_def discard_loop_all)


end
