(* ===== verification/ClientSession.thy ===== *)
theory ClientSession
  imports ClientBase Dsn TextUtil
begin

text \<open>
  Client sessions (\<open>src/src/clientsession.c\<close>), the state that the POP3, LMTP and ManageSieve
  servers keep for a connection. A \<open>List_T\<close> is represented by the list of its data, which is
  what the theory of linked lists shows its operations to act on.
\<close>

section \<open>Data\<close>

datatype client_state_t = CLIENTSTATE_ANY | CLIENTSTATE_INITIAL_CONNECT | CLIENTSTATE_NON_AUTHENTICATED
  | CLIENTSTATE_AUTHENTICATED | CLIENTSTATE_SELECTED | CLIENTSTATE_LOGOUT | CLIENTSTATE_QUIT
  | CLIENTSTATE_ERROR | CLIENTSTATE_QUIT_QUEUED

definition UID_SIZE :: nat where
  "UID_SIZE = 96"

text \<open>A message of a POP3 session (\<open>struct message\<close>).\<close>

record pop3_message =
  msize :: u64
  messageid :: u64
  realmessageid :: u64
  uidl :: string
  messagestatus :: int
  virtual_messagestatus :: int

text \<open>
  The last two fields record the statements that change the status of a message and the
  messages that have been fetched from the database.
\<close>

record client_session =
  s_ci :: client_base
  s_state :: client_state_t
  error_count :: int
  was_apop :: bool
  SessionResult :: int
  parser_state :: bool
  command_type :: int
  s_args :: "string list"
  rbuff :: string
  username :: "string option"
  password :: "string option"
  apop_stamp :: "string option"
  timeout :: int
  totalsize :: u64
  virtual_totalsize :: u64
  totalmessages :: u64
  virtual_totalmessages :: u64
  messagelst :: "pop3_message list"
  s_from :: "string list"
  s_rcpt :: "delivery list"
  status_updates :: "(u64 \<times> int) list"
  fetched :: "u64 list"

section \<open>Writing to the client\<close>

definition session_write :: "nat \<Rightarrow> client_session \<Rightarrow> string \<Rightarrow> (int \<times> client_session) option" where
  "session_write tries session msg =
     map_option (\<lambda>(r, ci). (r, session\<lparr>s_ci := ci\<rparr>)) (ci_write tries (s_ci session) (Some msg))"

definition say :: "nat \<Rightarrow> string \<Rightarrow> client_session \<Rightarrow> client_session option" where
  "say tries msg session = map_option snd (session_write tries session msg)"

section \<open>Operations\<close>

definition client_session_new :: "client_base \<Rightarrow> string \<Rightarrow> string \<Rightarrow> client_session" where
  "client_session_new ci unique_id hostname =
     \<lparr>s_ci = ci, s_state = CLIENTSTATE_INITIAL_CONNECT, error_count = 0, was_apop = False,
      SessionResult = 0, parser_state = False, command_type = 0, s_args = [], rbuff = [],
      username = None, password = None,
      apop_stamp = Some (''<'' @ unique_id @ ''@'' @ hostname @ ''>''), timeout = 0,
      totalsize = 0, virtual_totalsize = 0, totalmessages = 0, virtual_totalmessages = 0,
      messagelst = [], s_from = [], s_rcpt = [], status_updates = [], fetched = []\<rparr>"

definition client_session_reset_parser :: "client_session \<Rightarrow> client_session" where
  "client_session_reset_parser session =
     session\<lparr>parser_state := False, command_type := 0, rbuff := [], s_args := []\<rparr>"

definition client_session_reset :: "client_session \<Rightarrow> client_session" where
  "client_session_reset session =
     client_session_reset_parser
       (session\<lparr>s_rcpt := [], s_from := [], apop_stamp := None, username := None, password := None,
                s_state := CLIENTSTATE_INITIAL_CONNECT\<rparr>)"

definition client_session_set_timeout :: "int \<Rightarrow> client_session \<Rightarrow> client_session" where
  "client_session_set_timeout t session =
     (if t \<noteq> timeout session then session\<lparr>timeout := t\<rparr> else session)"

text \<open>
  The loop of \<open>client_session_bailout\<close> that sends what is left: it gives up after a hundred
  rounds in a row without progress.
\<close>

partial_function (option) flush_loop :: "nat \<Rightarrow> nat \<Rightarrow> nat \<Rightarrow> client_base \<Rightarrow> client_base option" where
  "flush_loop tries after failcount ci =
     (if after \<noteq> 0 \<and> \<not> in_error ci \<and> failcount < 100
      then (case ci_wbuf_len ci of (before, ci) \<Rightarrow>
              (case ci_write_cb tries ci of
                 None \<Rightarrow> None
               | Some ci \<Rightarrow>
                   (case ci_wbuf_len ci of (after, ci) \<Rightarrow>
                      flush_loop tries after (if before = after then failcount + 1 else 0) ci)))
      else Some ci)"

definition client_session_bailout :: "nat \<Rightarrow> client_session \<Rightarrow> client_session option" where
  "client_session_bailout tries session =
     (case ci_wbuf_len (s_ci session) of (after, ci) \<Rightarrow>
        do {
          ci \<leftarrow> flush_loop tries after 0 ci;
          Some ((client_session_reset (session\<lparr>s_ci := ci\<rparr>))\<lparr>s_state := CLIENTSTATE_QUIT_QUEUED, messagelst := []\<rparr>)
        })"

text \<open>What a read event leads to.\<close>

datatype read_action = Handle_input | Bailout | Wait

definition client_session_read :: "client_session \<Rightarrow> read_action \<times> client_session" where
  "client_session_read session =
     (let ci = ci_read_cb (s_ci session);
          have = length (read_buffer ci);
          need = unat (rbuff_size ci);
          enough = (if 0 < need then need \<le> have else 0 < have);
          session = session\<lparr>s_ci := ci\<rparr>
      in if in_error ci then (Bailout, session)
         else if client_state ci AND CLIENT_EOF \<noteq> 0 then (if enough then (Handle_input, session) else (Bailout, session))
         else if 0 < have then (Handle_input, session)
         else (Wait, session))"

text \<open>
  \<open>socket_write_cb\<close> for an event that is not a timeout: the server's callback, then the timeout
  that belongs to the state, or the end of a session that is over. (A callback that closes the session has freed it by then; the
  source reads the state of the freed session.)
\<close>

definition socket_write_cb ::
  "nat \<Rightarrow> int \<Rightarrow> int \<Rightarrow> (client_session \<Rightarrow> client_session option) \<Rightarrow> client_session \<Rightarrow> client_session option" where
  "socket_write_cb tries login_timeout timeout' cb_write session = do {
     session \<leftarrow> cb_write session;
     if s_state session \<in> {CLIENTSTATE_INITIAL_CONNECT, CLIENTSTATE_NON_AUTHENTICATED}
     then Some (client_session_set_timeout login_timeout session)
     else if s_state session \<in> {CLIENTSTATE_AUTHENTICATED, CLIENTSTATE_SELECTED}
     then Some (client_session_set_timeout timeout' session)
     else if s_state session \<in> {CLIENTSTATE_LOGOUT, CLIENTSTATE_QUIT, CLIENTSTATE_ERROR}
     then client_session_bailout tries session
     else Some session
   }"

section \<open>Sending what is left\<close>

lemma flush_loop_returns:
  assumes "wbuf_ok ci" "errno_set (cb_writes ci)" "failcount \<le> 100"
  shows "\<exists>ci'. flush_loop tries (length (pending ci)) failcount ci = Some ci' \<and>
     (in_error ci' \<or> cb_sent ci' @ pending ci' = cb_sent ci @ pending ci)"
  using assms
proof (induction "length (pending ci) * 101 + (100 - failcount)" arbitrary: ci failcount rule: less_induct)
  case less
  note ok = less.prems(1)
  show ?case
  proof (cases "pending ci \<noteq> [] \<and> failcount < 100")
    case False
    then show ?thesis
      by (subst flush_loop.simps) auto
  next
    case True
    obtain c where c: "ci_write_cb tries ci = Some c"
        "in_error c \<or> wbuf_ok c \<and> errno_set (cb_writes c) \<and> length (pending c) \<le> length (pending ci) \<and>
           cb_sent c @ pending c = cb_sent ci @ pending ci"
      using ci_write_cb_correct [OF ok less.prems(2)] by blast
    have err: "\<not> in_error ci" using ok by (simp add: wbuf_ok_def)
    show ?thesis
    proof (cases "in_error c")
      case c_err: True
      then have "ci_wbuf_len c = (0, client_wbuf_clear c)" by (simp add: ci_wbuf_len_def)
      moreover have "in_error (client_wbuf_clear c)"
        using c_err by (simp add: in_error_def client_wbuf_clear_def)
      moreover have "flush_loop tries 0 k ci' = Some ci'" for k ci'
        by (subst flush_loop.simps) simp
      ultimately show ?thesis
        using True err by (subst flush_loop.simps) (simp add: wbuf_len_ok [OF ok] c(1))
    next
      case False
      with c(2) have c': "wbuf_ok c" "errno_set (cb_writes c)" "length (pending c) \<le> length (pending ci)"
          "cb_sent c @ pending c = cb_sent ci @ pending ci" by auto
      let ?f = "if length (pending ci) = length (pending c) then failcount + 1 else 0"
      have "length (pending c) * 101 + (100 - ?f) < length (pending ci) * 101 + (100 - failcount)"
        using c'(3) True by (cases "length (pending ci) = length (pending c)") auto
      moreover have "?f \<le> 100" using True by simp
      ultimately obtain ci' where "flush_loop tries (length (pending c)) ?f c = Some ci'"
          "in_error ci' \<or> cb_sent ci' @ pending ci' = cb_sent c @ pending c"
        using less.hyps [of c ?f] c'(1,2) by blast
      then show ?thesis
        using True err c'(4) by (subst flush_loop.simps) (simp add: wbuf_len_ok [OF ok] wbuf_len_ok [OF c'(1)] c(1))
    qed
  qed
qed

section \<open>What the client will have received\<close>

definition stream :: "client_session \<Rightarrow> string" where
  "stream session = cb_sent (s_ci session) @ pending (s_ci session)"

definition room_for :: "nat \<Rightarrow> client_session \<Rightarrow> bool" where
  "room_for n session \<longleftrightarrow>
     wbuf_ok (s_ci session) \<and> errno_set (cb_writes (s_ci session)) \<and> length (write_buffer (s_ci session)) + n < 2 ^ 64"

text \<open>A message is appended to the stream, unless the connection fails or has failed.\<close>

lemma session_write_stream:
  assumes "in_error (s_ci session) \<or> room_for (length m + n) session" "nul \<notin> set m"
  shows "\<exists>r ci. session_write tries session m = Some (r, session\<lparr>s_ci := ci\<rparr>) \<and>
     (in_error ci \<or> \<not> in_error (s_ci session) \<and> room_for n (session\<lparr>s_ci := ci\<rparr>) \<and>
        stream (session\<lparr>s_ci := ci\<rparr>) = stream session @ m)"
proof (cases "in_error (s_ci session)")
  case True
  then have "session_write tries session m = Some (- 1, session\<lparr>s_ci := s_ci session\<rparr>)"
    by (simp add: session_write_def ci_write_def)
  with True show ?thesis by blast
next
  case False
  then obtain r c where "ci_write tries (s_ci session) (Some m) = Some (r, c)"
      "in_error c \<or> wbuf_ok c \<and> errno_set (cb_writes c) \<and>
        cb_sent c @ pending c = cb_sent (s_ci session) @ pending (s_ci session) @ m \<and>
        length (write_buffer c) \<le> length (write_buffer (s_ci session)) + length m"
    using ci_write_correct [of "s_ci session" m tries] assms by (auto simp: room_for_def)
  with False assms(1) show ?thesis
    by (auto simp: session_write_def stream_def room_for_def)
qed

lemma say_stream:
  assumes "in_error (s_ci session) \<or> room_for (length m + n) session" "nul \<notin> set m"
  shows "\<exists>ci. say tries m session = Some (session\<lparr>s_ci := ci\<rparr>) \<and>
     (in_error ci \<or> \<not> in_error (s_ci session) \<and> room_for n (session\<lparr>s_ci := ci\<rparr>) \<and>
        stream (session\<lparr>s_ci := ci\<rparr>) = stream session @ m)"
  using session_write_stream [OF assms, of tries] by (auto simp: say_def)

section \<open>Properties\<close>



end
