(* ===== verification/Pop3.thy ===== *)
theory Pop3
  imports ClientSession MailboxState
begin

text \<open>
  The POP3 server (\<open>src/src/pop3.c\<close>) with the update of the database at the end of a session
  (\<open>db_update_pop\<close> in \<open>src/src/dm_db.c\<close>). What the authentication module and the database
  answer is in the environment. \<open>None\<close> in place of a session is a crash: a write behind a
  buffer, or a format string that asks for an argument that was not passed.
\<close>

section \<open>Data\<close>

datatype Pop3Cmd = POP3_QUIT | POP3_USER | POP3_PASS | POP3_STAT | POP3_LIST | POP3_RETR | POP3_DELE
  | POP3_NOOP | POP3_LAST | POP3_RSET | POP3_UIDL | POP3_APOP | POP3_AUTH | POP3_TOP | POP3_CAPA
  | POP3_STLS | POP3_FAIL

definition commands :: "(string \<times> Pop3Cmd) list" where
  "commands =
     [(''quit'', POP3_QUIT), (''user'', POP3_USER), (''pass'', POP3_PASS), (''stat'', POP3_STAT),
      (''list'', POP3_LIST), (''retr'', POP3_RETR), (''dele'', POP3_DELE), (''noop'', POP3_NOOP),
      (''last'', POP3_LAST), (''rset'', POP3_RSET), (''uidl'', POP3_UIDL), (''apop'', POP3_APOP),
      (''auth'', POP3_AUTH), (''top'', POP3_TOP), (''capa'', POP3_CAPA), (''stls'', POP3_STLS)]"

definition MAX_ERRORS :: int where
  "MAX_ERRORS = 3"

definition MESSAGE_STATUS_NEW :: int where
  "MESSAGE_STATUS_NEW = 0"

definition MESSAGE_STATUS_SEEN :: int where
  "MESSAGE_STATUS_SEEN = 1"

text \<open>
  The rows of a user's INBOX: size, id, status and unique id. \<open>None\<close> is a query that fails; the
  flag is false when the connection is lost after the rows that were read. The log of addresses
  for \<open>pop_before_smtp\<close> and the log of logins are not part of the model.
\<close>

type_synonym pop3_row = "u64 \<times> u64 \<times> u64 \<times> string option"

record pop3_env =
  e_tries :: nat
  e_ssl :: bool
  e_login_disabled :: string
  e_banner :: string
  e_ping :: bool
  e_login_timeout :: int
  e_timeout :: int
  e_tls_setup :: bool
  e_tls_accept :: write_result
  e_validate :: "string option \<Rightarrow> string \<Rightarrow> int \<times> u64"
  e_user_exists :: "string \<Rightarrow> u64 option"
  e_getencryption :: "u64 \<Rightarrow> string"
  e_md5_validate :: "string \<Rightarrow> string \<Rightarrow> string option \<Rightarrow> u64"
  e_inbox :: "u64 \<Rightarrow> int \<times> u64"
  e_messages :: "u64 \<Rightarrow> (pop3_row list \<times> bool) option"
  e_message :: "u64 \<Rightarrow> string option"
  e_get_useridnr :: "u64 \<Rightarrow> u64"
  e_update_status :: "u64 \<Rightarrow> int \<Rightarrow> bool"
  e_quota_rebuild :: "u64 \<Rightarrow> int"

section \<open>Greeting and errors\<close>

definition send_greeting :: "pop3_env \<Rightarrow> client_session \<Rightarrow> client_session option" where
  "send_greeting env session =
     (let stamp = (case apop_stamp session of None \<Rightarrow> ''(null)'' | Some s \<Rightarrow> s)
      in if \<not> e_ping env
         then map_option (\<lambda>s. s\<lparr>s_state := CLIENTSTATE_QUIT\<rparr>)
                (say (e_tries env) (''+ERR database has gone fishing'' @ crlf) session)
         else if e_banner env \<noteq> []
         then say (e_tries env) (''+OK '' @ e_banner env @ '' '' @ stamp @ crlf) session
         else say (e_tries env) (''+OK DBMAIL pop3 server ready to rock '' @ stamp @ crlf) session)"

text \<open>
  \<open>pop3_error\<close>: the formatted message is handed to \<open>ci_write\<close> as its format.
\<close>

definition pop3_error :: "pop3_env \<Rightarrow> client_session \<Rightarrow> string \<Rightarrow> (int \<times> client_session) option" where
  "pop3_error env session s =
     (if MAX_ERRORS \<le> error_count session
      then map_option (Pair (- 3)) (say (e_tries env) (''-ERR too many errors'' @ crlf) session)
      else do {
        s' \<leftarrow> printf_plain s;
        session \<leftarrow> say (e_tries env) s' session;
        if in_error (s_ci session) then Some (- 3, session)
        else Some (1, session\<lparr>error_count := error_count session + 1\<rparr>)
      })"

definition ok_reply :: "pop3_env \<Rightarrow> string \<Rightarrow> client_session \<Rightarrow> (int \<times> client_session) option" where
  "ok_reply env s session = map_option (Pair 1) (say (e_tries env) (s @ crlf) session)"

definition wrong_mode :: "pop3_env \<Rightarrow> client_session \<Rightarrow> (int \<times> client_session) option" where
  "wrong_mode env session = pop3_error env session (''-ERR wrong command mode'' @ crlf)"

section \<open>Opening the mailbox\<close>

fun fill_list :: "int \<Rightarrow> pop3_row list \<Rightarrow> client_session \<Rightarrow> int \<times> client_session" where
  "fill_list message_counter [] session = (message_counter, session)"
| "fill_list message_counter ((size', i, status, uid) # rows) session =
     (let st = uint (ucast status :: u32);
          msg = \<lparr>msize = size', messageid = word_of_int message_counter, realmessageid = i,
                 uidl = (case uid of None \<Rightarrow> [] | Some u \<Rightarrow> take (UID_SIZE - 1) u),
                 messagestatus = st, virtual_messagestatus = st\<rparr>
      in fill_list (message_counter + 1) rows
           (session\<lparr>totalmessages := totalmessages session + 1, totalsize := totalsize session + size',
                    messagelst := messagelst session @ [msg]\<rparr>))"

definition db_createsession :: "pop3_env \<Rightarrow> u64 \<Rightarrow> client_session \<Rightarrow> int \<times> client_session" where
  "db_createsession env user_idnr session =
     (case e_inbox env user_idnr of (r, mailbox_idnr) \<Rightarrow>
        if r < 0 then (DM_EQUERY, session)
        else if mailbox_idnr = 0 then (DM_EQUERY, session)
        else (case e_messages env mailbox_idnr of
                None \<Rightarrow> (DM_EQUERY, session)
              | Some (rows, complete) \<Rightarrow>
                  (case fill_list 1 rows (session\<lparr>totalmessages := 0, totalsize := 0\<rparr>) of
                     (message_counter, session) \<Rightarrow>
                       if \<not> complete then (DM_EQUERY, session)
                       else if message_counter = 1 then (DM_EGENERAL, session)
                       else (DM_EGENERAL, session\<lparr>virtual_totalmessages := totalmessages session,
                                                 virtual_totalsize := totalsize session\<rparr>))))"

text \<open>The user id is an \<open>int\<close> parameter here and widened again for \<open>db_createsession\<close>.\<close>

definition pop3_session_authenticated ::
  "pop3_env \<Rightarrow> client_session \<Rightarrow> u64 \<Rightarrow> (int \<times> client_session) option" where
  "pop3_session_authenticated env session user_idnr =
     (let session = client_session_set_timeout (e_timeout env) (session\<lparr>s_state := CLIENTSTATE_AUTHENTICATED\<rparr>)
      in case db_createsession env (signed_take_bit 31 user_idnr) session of (result, session) \<Rightarrow>
           if result = 1
           then map_option (Pair result)
                  (say (e_tries env)
                     (''+OK '' @ (case username session of None \<Rightarrow> ''(null)'' | Some u \<Rightarrow> u) @ '' has '' @
                      show_u64 (virtual_totalmessages session) @ '' messages ('' @
                      show_u64 (virtual_totalsize session) @ '' octets)'' @ crlf) session)
           else Some (result, session\<lparr>SessionResult := 4\<rparr>))"

section \<open>Closing the session\<close>

text \<open>
  The loop of \<open>db_update_pop\<close> over the messages: the result is false after an SQL error, and the
  statements that were executed are recorded.
\<close>

fun update_loop :: "pop3_env \<Rightarrow> u64 \<Rightarrow> pop3_message list \<Rightarrow> bool \<times> u64 \<times> (u64 \<times> int) list" where
  "update_loop env user_idnr [] = (True, user_idnr, [])"
| "update_loop env user_idnr (msg # msgs) =
     (if virtual_messagestatus msg \<noteq> messagestatus msg
      then let user_idnr = (if user_idnr = 0 then e_get_useridnr env (realmessageid msg) else user_idnr)
           in if e_update_status env (realmessageid msg) (virtual_messagestatus msg)
              then (case update_loop env user_idnr msgs of
                      (ok, u, ups) \<Rightarrow> (ok, u, (realmessageid msg, virtual_messagestatus msg) # ups))
              else (False, user_idnr, [])
      else update_loop env user_idnr msgs)"

definition db_update_pop :: "pop3_env \<Rightarrow> client_session \<Rightarrow> int \<times> client_session" where
  "db_update_pop env session =
     (case update_loop env 0 (messagelst session) of
        (ok, user_idnr, ups) \<Rightarrow>
          let session = session\<lparr>status_updates := status_updates session @ ups\<rparr>
          in if \<not> ok then (DM_EQUERY, session)
             else if user_idnr \<noteq> 0 \<and> e_quota_rebuild env user_idnr = - 1 then (DM_EQUERY, session)
             else (DM_SUCCESS, session))"

definition pop3_close :: "pop3_env \<Rightarrow> client_session \<Rightarrow> client_session option" where
  "pop3_close env session =
     (let session = session\<lparr>s_state := CLIENTSTATE_QUIT\<rparr>
      in if username session \<noteq> None \<and> (was_apop session \<or> password session \<noteq> None)
         then if SessionResult session = 0
              then (case db_update_pop env session of (r, session) \<Rightarrow>
                      if r = DM_SUCCESS then say (e_tries env) (''+OK see ya later'' @ crlf) session
                      else say (e_tries env) (''-ERR some deleted messages not removed'' @ crlf) session)
              else if SessionResult session = 1
              then say (e_tries env) (''-ERR I'' @ [CHR 0x27] @ ''m leaving, you'' @ [CHR 0x27] @ ''re too slow'' @ crlf) session
              else Some session
         else say (e_tries env) (''+OK see ya later'' @ crlf) session)"

section \<open>The text of a message\<close>

text \<open>
  \<open>db_get_message_lines\<close> on the message with canonical line ends; \<open>e_message\<close> is \<open>None\<close> where it
  cannot be retrieved. The inner \<open>None\<close> of the result is the \<open>NULL\<close> that is returned then.
\<close>

fun skip_lines :: "string \<Rightarrow> nat \<Rightarrow> int \<Rightarrow> nat" where
  "skip_lines [] n lines = 0"
| "skip_lines (c # s) n lines =
     (if int n < lines then Suc (skip_lines s (if c = lf then n + 1 else n) lines) else 0)"

definition db_get_message_lines :: "pop3_env \<Rightarrow> u64 \<Rightarrow> int \<Rightarrow> string option option" where
  "db_get_message_lines env message_idnr lines =
     (case e_message env message_idnr of
        None \<Rightarrow> Some None
      | Some raw \<Rightarrow>
          let pos = (if 0 \<le> lines
                     then let p = find_end_of_header raw in p + skip_lines (drop p raw) 0 lines
                     else 0)
          in map_option Some (get_crlf_encoded_opt (if 0 < pos then take pos raw else raw) True))"

section \<open>Commands\<close>

definition selected :: "u64 \<Rightarrow> pop3_message \<Rightarrow> bool" where
  "selected n msg \<longleftrightarrow> messageid msg = n \<and> virtual_messagestatus msg < MESSAGE_STATUS_DELETE"

fun find_message :: "u64 \<Rightarrow> pop3_message list \<Rightarrow> pop3_message option" where
  "find_message n [] = None"
| "find_message n (msg # msgs) = (if selected n msg then Some msg else find_message n msgs)"

text \<open>The list after a store to the first message that is selected.\<close>

fun set_status :: "u64 \<Rightarrow> int \<Rightarrow> pop3_message list \<Rightarrow> pop3_message list" where
  "set_status n st [] = []"
| "set_status n st (msg # msgs) =
     (if selected n msg then msg\<lparr>virtual_messagestatus := st\<rparr> # msgs else msg # set_status n st msgs)"

text \<open>A loop that writes a line for some of the messages.\<close>

fun say_each :: "nat \<Rightarrow> (pop3_message \<Rightarrow> bool) \<Rightarrow> (pop3_message \<Rightarrow> string) \<Rightarrow> pop3_message list \<Rightarrow>
    client_session \<Rightarrow> client_session option" where
  "say_each tries P line [] session = Some session"
| "say_each tries P line (msg # msgs) session =
     (if P msg
      then do { session \<leftarrow> say tries (line msg) session; say_each tries P line msgs session }
      else say_each tries P line msgs session)"

definition no_such_message :: "pop3_env \<Rightarrow> client_session \<Rightarrow> string \<Rightarrow> (int \<times> client_session) option" where
  "no_such_message env session value = pop3_error env session (''-ERR ['' @ value @ ''] no such message'' @ crlf)"

definition totals :: "client_session \<Rightarrow> string" where
  "totals session =
     ''+OK '' @ show_u64 (virtual_totalmessages session) @ '' messages ('' @
     show_u64 (virtual_totalsize session) @ '' octets)''"

definition pop3_quit :: "pop3_env \<Rightarrow> client_session \<Rightarrow> (int \<times> client_session) option" where
  "pop3_quit env session =
     map_option (Pair 0) (pop3_close env (session\<lparr>s_state := CLIENTSTATE_LOGOUT, SessionResult := 0\<rparr>))"

definition pop3_stls :: "pop3_env \<Rightarrow> client_session \<Rightarrow> (int \<times> client_session) option" where
  "pop3_stls env session =
     (if s_state session \<noteq> CLIENTSTATE_INITIAL_CONNECT then wrong_mode env session
      else if \<not> e_ssl env then pop3_error env session (''-ERR server error'' @ crlf)
      else if ssl_state (s_ci session) \<noteq> 0 then pop3_error env session (''-ERR TLS already active'' @ crlf)
      else do {
        session \<leftarrow> say (e_tries env) (''+OK Begin TLS now'' @ crlf) session;
        (r, ci) \<leftarrow> ci_starttls (e_tls_setup env) (e_tls_accept env) (e_tries env) (s_ci session);
        Some (if r < 0 then - 1 else 1, session\<lparr>s_ci := ci\<rparr>)
      })"

definition pop3_user :: "pop3_env \<Rightarrow> bool \<Rightarrow> client_session \<Rightarrow> string \<Rightarrow> (int \<times> client_session) option" where
  "pop3_user env login_disabled session value =
     (if s_state session \<noteq> CLIENTSTATE_INITIAL_CONNECT then wrong_mode env session
      else if login_disabled \<and> ssl_state (s_ci session) = 0
      then pop3_error env session (''-ERR try STLS'' @ crlf)
      else ok_reply env (''+OK Password required for '' @ value) (session\<lparr>username := Some value\<rparr>))"

definition pop3_pass :: "pop3_env \<Rightarrow> bool \<Rightarrow> client_session \<Rightarrow> string \<Rightarrow> (int \<times> client_session) option" where
  "pop3_pass env login_disabled session value =
     (if s_state session \<noteq> CLIENTSTATE_INITIAL_CONNECT then wrong_mode env session
      else if login_disabled \<and> ssl_state (s_ci session) = 0
      then pop3_error env session (''-ERR try STLS'' @ crlf)
      else let session = session\<lparr>password := Some value\<rparr>
           in case e_validate env (username session) value of (validate_result, result) \<Rightarrow>
                if validate_result = - 1 then Some (- 1, session\<lparr>SessionResult := 3\<rparr>)
                else if validate_result = 0
                then pop3_error env (session\<lparr>username := None, password := None\<rparr>)
                       (''-ERR username/password incorrect'' @ crlf)
                else pop3_session_authenticated env session result)"

definition pop3_list :: "pop3_env \<Rightarrow> client_session \<Rightarrow> string option \<Rightarrow> (int \<times> client_session) option" where
  "pop3_list env session value =
     (let line = (\<lambda>msg. show_u64 (messageid msg) @ '' '' @ show_u64 (msize msg) @ crlf)
      in if s_state session \<noteq> CLIENTSTATE_AUTHENTICATED then wrong_mode env session
         else (case value of
                 Some v \<Rightarrow>
                   let n = fst (strtoull v)
                   in if list_ex (selected n) (messagelst session)
                      then map_option (Pair 1)
                             (say_each (e_tries env) (selected n) (\<lambda>msg. ''+OK '' @ line msg) (messagelst session) session)
                      else no_such_message env session v
               | None \<Rightarrow> do {
                   session \<leftarrow> say (e_tries env) (totals session @ crlf) session;
                   session \<leftarrow> (if 0 < virtual_totalmessages session
                      then say_each (e_tries env) (\<lambda>msg. virtual_messagestatus msg < MESSAGE_STATUS_DELETE) line
                             (messagelst session) session
                      else Some session);
                   ok_reply env ''.'' session
                 }))"

definition pop3_stat :: "pop3_env \<Rightarrow> client_session \<Rightarrow> (int \<times> client_session) option" where
  "pop3_stat env session =
     (if s_state session \<noteq> CLIENTSTATE_AUTHENTICATED then wrong_mode env session
      else ok_reply env (''+OK '' @ show_u64 (virtual_totalmessages session) @ '' '' @
                         show_u64 (virtual_totalsize session)) session)"

text \<open>RETR marks the message as seen before it fetches it.\<close>

definition pop3_retr :: "pop3_env \<Rightarrow> client_session \<Rightarrow> string \<Rightarrow> (int \<times> client_session) option" where
  "pop3_retr env session value =
     (let n = fst (strtoull value)
      in if s_state session \<noteq> CLIENTSTATE_AUTHENTICATED then wrong_mode env session
         else (case find_message n (messagelst session) of
                 None \<Rightarrow> no_such_message env session value
               | Some msg \<Rightarrow> do {
                   let session = session\<lparr>messagelst := set_status n MESSAGE_STATUS_SEEN (messagelst session),
                                         fetched := fetched session @ [realmessageid msg]\<rparr>;
                   text \<leftarrow> db_get_message_lines env (realmessageid msg) (- 2);
                   (case text of
                      None \<Rightarrow> Some (- 1, session)
                    | Some s \<Rightarrow> do {
                        session \<leftarrow> say (e_tries env)
                          (''+OK '' @ show_u64 (of_nat (length s)) @ '' octets'' @ crlf @ s) session;
                        session \<leftarrow> say (e_tries env) (crlf @ ''.'' @ crlf) session;
                        Some (1, session)
                      })
                 }))"

definition pop3_dele :: "pop3_env \<Rightarrow> client_session \<Rightarrow> string \<Rightarrow> (int \<times> client_session) option" where
  "pop3_dele env session value =
     (let n = fst (strtoull value)
      in if s_state session \<noteq> CLIENTSTATE_AUTHENTICATED then wrong_mode env session
         else (case find_message n (messagelst session) of
                 None \<Rightarrow> no_such_message env session value
               | Some msg \<Rightarrow>
                   ok_reply env (''+OK message '' @ show_u64 (messageid msg) @ '' deleted'')
                     (session\<lparr>messagelst := set_status n MESSAGE_STATUS_DELETE (messagelst session),
                              virtual_totalsize := virtual_totalsize session - msize msg,
                              virtual_totalmessages := virtual_totalmessages session - 1\<rparr>)))"

definition reset_message :: "pop3_message \<Rightarrow> pop3_message" where
  "reset_message msg = msg\<lparr>virtual_messagestatus := messagestatus msg\<rparr>"

definition pop3_rset :: "pop3_env \<Rightarrow> client_session \<Rightarrow> (int \<times> client_session) option" where
  "pop3_rset env session =
     (if s_state session \<noteq> CLIENTSTATE_AUTHENTICATED then wrong_mode env session
      else let session = session\<lparr>virtual_totalsize := totalsize session,
                                 virtual_totalmessages := totalmessages session,
                                 messagelst := map reset_message (messagelst session)\<rparr>
           in ok_reply env (totals session) session)"

fun first_new :: "pop3_message list \<Rightarrow> pop3_message option" where
  "first_new [] = None"
| "first_new (msg # msgs) = (if virtual_messagestatus msg = MESSAGE_STATUS_NEW then Some msg else first_new msgs)"

definition pop3_last :: "pop3_env \<Rightarrow> client_session \<Rightarrow> (int \<times> client_session) option" where
  "pop3_last env session =
     (if s_state session \<noteq> CLIENTSTATE_AUTHENTICATED then wrong_mode env session
      else (case first_new (messagelst session) of
              Some msg \<Rightarrow> ok_reply env (''+OK '' @ show_u64 (messageid msg - 1)) session
            | None \<Rightarrow> ok_reply env (''+OK '' @ show_u64 (virtual_totalmessages session)) session))"

definition pop3_noop :: "pop3_env \<Rightarrow> client_session \<Rightarrow> (int \<times> client_session) option" where
  "pop3_noop env session =
     (if s_state session \<noteq> CLIENTSTATE_AUTHENTICATED then wrong_mode env session
      else ok_reply env ''+OK'' session)"

definition pop3_uidl :: "pop3_env \<Rightarrow> client_session \<Rightarrow> string option \<Rightarrow> (int \<times> client_session) option" where
  "pop3_uidl env session value =
     (let line = (\<lambda>msg. show_u64 (messageid msg) @ '' '' @ uidl msg @ crlf)
      in if s_state session \<noteq> CLIENTSTATE_AUTHENTICATED then wrong_mode env session
         else (case value of
                 Some v \<Rightarrow>
                   let n = fst (strtoull v)
                   in if list_ex (selected n) (messagelst session)
                      then map_option (Pair 1)
                             (say_each (e_tries env) (selected n) (\<lambda>msg. ''+OK '' @ line msg) (messagelst session) session)
                      else no_such_message env session v
               | None \<Rightarrow> do {
                   session \<leftarrow> say (e_tries env) (''+OK Some very unique numbers for you'' @ crlf) session;
                   session \<leftarrow> (if 0 < virtual_totalmessages session
                      then say_each (e_tries env) (\<lambda>msg. virtual_messagestatus msg < MESSAGE_STATUS_DELETE) line
                             (messagelst session) session
                      else Some session);
                   ok_reply env ''.'' session
                 }))"

definition does_not_compute :: "pop3_env \<Rightarrow> client_session \<Rightarrow> (int \<times> client_session) option" where
  "does_not_compute env session = pop3_error env session (''-ERR your command does not compute'' @ crlf)"

text \<open>\<open>auth_md5_validate\<close> has an unsigned result, so its \<open>-1\<close> is the largest number.\<close>

definition pop3_apop :: "pop3_env \<Rightarrow> client_session \<Rightarrow> string \<Rightarrow> (int \<times> client_session) option" where
  "pop3_apop env session value =
     (if s_state session \<noteq> CLIENTSTATE_INITIAL_CONNECT then wrong_mode env session
      else (case strstr value '' '' of
              None \<Rightarrow> does_not_compute env session
            | Some i \<Rightarrow>
                let user = take i value; hash = drop (i + 1) value
                in if length hash \<noteq> 32 then pop3_error env session (''-ERR not a valid md5 hash'' @ crlf)
                   else let session = session\<lparr>username := Some user\<rparr>
                        in case e_user_exists env user of
                             None \<Rightarrow> Some (- 1, session)
                           | Some user_idnr \<Rightarrow>
                               if \<not> strcaseeq (e_getencryption env user_idnr) []
                               then pop3_error env (session\<lparr>username := None\<rparr>)
                                      (''-ERR APOP command is not supported for this user'' @ crlf)
                               else let result = e_md5_validate env user hash (apop_stamp session)
                                    in if result = - 1 then Some (- 1, session\<lparr>SessionResult := 3\<rparr>)
                                       else if result = 0
                                       then pop3_error env (session\<lparr>username := None, password := None\<rparr>)
                                              (''-ERR authentication attempt is invalid'' @ crlf)
                                       else pop3_session_authenticated env session result))"

definition pop3_auth :: "pop3_env \<Rightarrow> client_session \<Rightarrow> (int \<times> client_session) option" where
  "pop3_auth env session =
     (if s_state session \<noteq> CLIENTSTATE_INITIAL_CONNECT then wrong_mode env session
      else pop3_error env session (''-ERR no AUTH mechanisms supported'' @ crlf))"

definition all_digits :: "string \<Rightarrow> bool" where
  "all_digits s \<longleftrightarrow> strspn s ''0123456789'' = length s"

text \<open>TOP returns what its first write returned; the number of lines is converted to \<open>long\<close>.\<close>

definition pop3_top :: "pop3_env \<Rightarrow> client_session \<Rightarrow> string \<Rightarrow> (int \<times> client_session) option" where
  "pop3_top env session value =
     (if s_state session \<noteq> CLIENTSTATE_AUTHENTICATED then wrong_mode env session
      else (case strstr value '' '' of
              None \<Rightarrow> does_not_compute env session
            | Some i \<Rightarrow>
                let lines = drop (i + 1) value; v = take i value;
                    top_lines = fst (strtoull lines); top_messageid = fst (strtoull v)
                in if \<not> all_digits lines \<or> \<not> all_digits v \<or> top_messageid < 1
                   then pop3_error env session (''-ERR wrong parameter'' @ crlf)
                   else (case find_message top_messageid (messagelst session) of
                           None \<Rightarrow> pop3_error env session (''-ERR no such message'' @ crlf)
                         | Some msg \<Rightarrow> do {
                             let session = session\<lparr>fetched := fetched session @ [realmessageid msg]\<rparr>;
                             text \<leftarrow> db_get_message_lines env (realmessageid msg) (sint top_lines);
                             (case text of
                                None \<Rightarrow> Some (- 1, session)
                              | Some s \<Rightarrow> do {
                                  (r, session) \<leftarrow> session_write (e_tries env) session
                                    (''+OK '' @ show_u64 top_lines @ '' lines of message '' @
                                     show_u64 top_messageid @ crlf @ s);
                                  session \<leftarrow> say (e_tries env) (crlf @ ''.'' @ crlf) session;
                                  Some (r, session)
                                })
                           })))"

definition pop3_capa :: "pop3_env \<Rightarrow> client_session \<Rightarrow> (int \<times> client_session) option" where
  "pop3_capa env session =
     ok_reply env (''+OK Capability list follows'' @ crlf @ ''TOP'' @ crlf @ ''USER'' @ crlf @ ''UIDL'' @
       (if e_ssl env then crlf @ ''STLS'' else []) @ crlf @ ''.'') session"

section \<open>The dispatcher\<close>

definition split_command :: "string \<Rightarrow> string \<times> string option" where
  "split_command s =
     (case strstr s '' '' of
        None \<Rightarrow> (s, None)
      | Some i \<Rightarrow> (take i s, let v = drop (i + 1) s in if v = [] then None else Some v))"

definition lookup_command :: "string \<Rightarrow> Pop3Cmd" where
  "lookup_command command =
     (case find (\<lambda>(name, _). strcaseeq command name) commands of None \<Rightarrow> POP3_FAIL | Some (_, c) \<Rightarrow> c)"

definition no_argument :: "Pop3Cmd list" where
  "no_argument = [POP3_QUIT, POP3_LIST, POP3_STAT, POP3_RSET, POP3_NOOP, POP3_LAST, POP3_UIDL, POP3_AUTH,
     POP3_CAPA, POP3_STLS]"

definition pop3_dispatch ::
  "pop3_env \<Rightarrow> client_session \<Rightarrow> Pop3Cmd \<Rightarrow> string option \<Rightarrow> (int \<times> client_session) option" where
  "pop3_dispatch env session cmdtype value =
     (let login_disabled = (s_state session = CLIENTSTATE_INITIAL_CONNECT \<and> e_ssl env \<and>
                            strcaseeq (e_login_disabled env) ''yes'')
      in case cmdtype of
           POP3_QUIT \<Rightarrow> pop3_quit env session
         | POP3_STLS \<Rightarrow> pop3_stls env session
         | POP3_USER \<Rightarrow> pop3_user env login_disabled session (the value)
         | POP3_PASS \<Rightarrow> pop3_pass env login_disabled session (the value)
         | POP3_LIST \<Rightarrow> pop3_list env session value
         | POP3_STAT \<Rightarrow> pop3_stat env session
         | POP3_RETR \<Rightarrow> pop3_retr env session (the value)
         | POP3_DELE \<Rightarrow> pop3_dele env session (the value)
         | POP3_RSET \<Rightarrow> pop3_rset env session
         | POP3_LAST \<Rightarrow> pop3_last env session
         | POP3_NOOP \<Rightarrow> pop3_noop env session
         | POP3_UIDL \<Rightarrow> pop3_uidl env session value
         | POP3_APOP \<Rightarrow> pop3_apop env session (the value)
         | POP3_AUTH \<Rightarrow> pop3_auth env session
         | POP3_TOP \<Rightarrow> pop3_top env session (the value)
         | POP3_CAPA \<Rightarrow> pop3_capa env session
         | POP3_FAIL \<Rightarrow> pop3_error env session (''-ERR command not understood'' @ crlf))"

definition pop3 :: "pop3_env \<Rightarrow> client_session \<Rightarrow> string \<Rightarrow> (int \<times> client_session) option" where
  "pop3 env session buffer =
     (let s = g_strstrip (strip_crlf buffer)
      in if s = [] then Some (1, session)
         else case split_command s of (command, value) \<Rightarrow>
           let cmdtype = lookup_command command;
               session = (if cmdtype = POP3_FAIL then session else session\<lparr>was_apop := True\<rparr>)
           in if value = None \<and> cmdtype \<notin> set no_argument then does_not_compute env session
              else pop3_dispatch env session cmdtype value)"

section \<open>Events\<close>

definition pop3_handle_input :: "pop3_env \<Rightarrow> client_session \<Rightarrow> client_session option" where
  "pop3_handle_input env session =
     (if write_buffer (s_ci session) \<noteq> []
      then map_option (\<lambda>(_, ci). session\<lparr>s_ci := ci\<rparr>) (ci_write (e_tries env) (s_ci session) None)
      else case ci_readln (s_ci session) of (line, ci) \<Rightarrow>
        let session = session\<lparr>s_ci := ci\<rparr>
        in if line = [] then Some session
           else do {
             buffer \<leftarrow> line_buffer line;
             (r, session) \<leftarrow> pop3 env session buffer;
             if r \<le> 0 then client_session_bailout (e_tries env) session else Some session
           })"

definition pop3_cb_write :: "pop3_env \<Rightarrow> client_session \<Rightarrow> client_session option" where
  "pop3_cb_write env session =
     (if s_state session \<in> {CLIENTSTATE_QUIT_QUEUED, CLIENTSTATE_QUIT} then Some session
      else do {
        ci \<leftarrow> ci_write_cb (e_tries env) (s_ci session);
        pop3_handle_input env (session\<lparr>s_ci := ci\<rparr>)
      })"

definition pop3_cb_time :: "pop3_env \<Rightarrow> client_session \<Rightarrow> client_session option" where
  "pop3_cb_time env session = do {
     session \<leftarrow> say (e_tries env)
       (''-ERR I'' @ [CHR 0x27] @ ''m leaving, you'' @ [CHR 0x27] @ ''re too slow'' @ crlf) session;
     client_session_bailout (e_tries env) session
   }"

definition pop3_handle_connection :: "pop3_env \<Rightarrow> client_base \<Rightarrow> string \<Rightarrow> string \<Rightarrow> client_session option" where
  "pop3_handle_connection env ci unique_id hostname =
     send_greeting env
       (client_session_set_timeout (e_login_timeout env)
          ((client_session_new ci unique_id hostname)\<lparr>s_state := CLIENTSTATE_INITIAL_CONNECT\<rparr>))"

text \<open>
  The life of a session: data arrives or room for output appears (the coming results of the
  socket calls change), and the events of the connection are handled. A read event runs
  \<open>client_session_read\<close> first. A session that is queued for closing handles no event.
\<close>

inductive pop3_step :: "pop3_env \<Rightarrow> client_session \<Rightarrow> client_session \<Rightarrow> bool" for env where
  network: "pop3_step env session (session\<lparr>s_ci := (s_ci session)\<lparr>cb_reads := rs, cb_writes := ws\<rparr>\<rparr>)"
| read_input: "\<lbrakk>s_state session \<noteq> CLIENTSTATE_QUIT_QUEUED; client_session_read session = (Handle_input, session1);
     pop3_handle_input env session1 = Some session'\<rbrakk> \<Longrightarrow> pop3_step env session session'"
| read_bailout: "\<lbrakk>s_state session \<noteq> CLIENTSTATE_QUIT_QUEUED; client_session_read session = (Bailout, session1);
     client_session_bailout (e_tries env) session1 = Some session'\<rbrakk> \<Longrightarrow> pop3_step env session session'"
| read_wait: "\<lbrakk>s_state session \<noteq> CLIENTSTATE_QUIT_QUEUED; client_session_read session = (Wait, session')\<rbrakk>
     \<Longrightarrow> pop3_step env session session'"
| room: "\<lbrakk>s_state session \<noteq> CLIENTSTATE_QUIT_QUEUED;
     socket_write_cb (e_tries env) (e_login_timeout env) (e_timeout env) (pop3_cb_write env) session = Some session'\<rbrakk>
     \<Longrightarrow> pop3_step env session session'"
| timeout_event: "\<lbrakk>s_state session \<noteq> CLIENTSTATE_QUIT_QUEUED; pop3_cb_time env session = Some session'\<rbrakk>
     \<Longrightarrow> pop3_step env session session'"

inductive pop3_reachable :: "pop3_env \<Rightarrow> client_session \<Rightarrow> bool" for env where
  connect: "pop3_handle_connection env ci unique_id hostname = Some session \<Longrightarrow> pop3_reachable env session"
| event: "\<lbrakk>pop3_reachable env session; pop3_step env session session'\<rbrakk> \<Longrightarrow> pop3_reachable env session'"

section \<open>What the commands keep\<close>

text \<open>Writing to the client changes the connection only, an error reply also the error count.\<close>

definition replied :: "client_session \<Rightarrow> client_session \<Rightarrow> bool" where
  "replied s s' \<longleftrightarrow>
     s' = s\<lparr>s_ci := s_ci s', error_count := error_count s'\<rparr> \<and>
     (error_count s \<in> {0..MAX_ERRORS} \<longrightarrow> error_count s' \<in> {0..MAX_ERRORS})"

lemma replied_ci [simp]: "replied s (s\<lparr>s_ci := c\<rparr>)"
  by (simp add: replied_def)

lemma replied_refl [simp]: "replied s s"
  by (simp add: replied_def)

lemma replied_trans: "replied a b \<Longrightarrow> replied b c \<Longrightarrow> replied a c"
  by (cases a; cases b; cases c) (auto simp: replied_def)

lemma say_ci: "say t m s = Some s' \<Longrightarrow> \<exists>c. s' = s\<lparr>s_ci := c\<rparr>"
  by (auto simp: say_def session_write_def)

lemma say_replied: "say t m s = Some s' \<Longrightarrow> replied s s'"
  by (auto dest: say_ci)

lemma session_write_replied: "session_write t s m = Some (r, s') \<Longrightarrow> replied s s'"
  by (auto simp: session_write_def)

lemma ok_reply_replied: "ok_reply env m s = Some (r, s') \<Longrightarrow> r = 1 \<and> replied s s'"
  by (auto simp: ok_reply_def dest: say_replied)

lemma pop3_error_replied: "pop3_error env s m = Some (r, s') \<Longrightarrow> replied s s'"
  by (auto simp: pop3_error_def replied_def MAX_ERRORS_def bind_eq_Some_conv
      split: if_splits dest!: say_ci)

lemma say_each_replied: "say_each t P f ms s = Some s' \<Longrightarrow> replied s s'"
  by (induction t P f ms s arbitrary: s' rule: say_each.induct)
    (auto simp: bind_eq_Some_conv split: if_splits dest: say_replied intro: replied_trans)

named_theorems replied_intros

lemmas [replied_intros] = say_replied session_write_replied pop3_error_replied say_each_replied

lemma error_replies_replied:
  "wrong_mode env s = Some (r, s') \<Longrightarrow> replied s s'"
  "no_such_message env s v = Some (r, s') \<Longrightarrow> replied s s'"
  "does_not_compute env s = Some (r, s') \<Longrightarrow> replied s s'"
  by (auto simp: wrong_mode_def no_such_message_def does_not_compute_def dest: pop3_error_replied)

lemmas [replied_intros] = error_replies_replied

lemma list_replied: "pop3_list env s v = Some (r, s') \<Longrightarrow> replied s s'"
  by (auto simp: pop3_list_def Let_def bind_eq_Some_conv split: if_splits option.splits
      dest!: ok_reply_replied dest: replied_intros intro: replied_trans)

lemma uidl_replied: "pop3_uidl env s v = Some (r, s') \<Longrightarrow> replied s s'"
  by (auto simp: pop3_uidl_def Let_def bind_eq_Some_conv split: if_splits option.splits
      dest!: ok_reply_replied dest: replied_intros intro: replied_trans)

lemma stls_replied: "pop3_stls env s = Some (r, s') \<Longrightarrow> replied s s'"
  by (auto simp: pop3_stls_def bind_eq_Some_conv split: if_splits dest: replied_intros
      intro: replied_trans [OF _ replied_ci])

lemma queries_replied:
  "pop3_stat env s = Some (r, s') \<Longrightarrow> replied s s'" "pop3_last env s = Some (r, s') \<Longrightarrow> replied s s'"
  "pop3_noop env s = Some (r, s') \<Longrightarrow> replied s s'" "pop3_auth env s = Some (r, s') \<Longrightarrow> replied s s'"
  "pop3_capa env s = Some (r, s') \<Longrightarrow> replied s s'"
  by (auto simp: pop3_stat_def pop3_last_def pop3_noop_def pop3_auth_def pop3_capa_def
      split: if_splits option.splits dest!: ok_reply_replied dest: replied_intros)

lemmas [replied_intros] = list_replied uidl_replied stls_replied queries_replied

section \<open>The invariant of a session\<close>

abbreviation live :: "pop3_message \<Rightarrow> bool" where
  "live msg \<equiv> virtual_messagestatus msg < MESSAGE_STATUS_DELETE"

definition numbered :: "pop3_message list \<Rightarrow> bool" where
  "numbered ms \<longleftrightarrow> map messageid ms = map of_nat [1..<Suc (length ms)]"

definition sizes :: "pop3_message list \<Rightarrow> u64" where
  "sizes ms = sum_list (map msize ms)"

text \<open>The counters of an open mailbox, as the sums over its messages.\<close>

definition tallies :: "client_session \<Rightarrow> bool" where
  "tallies s \<longleftrightarrow>
     totalmessages s = of_nat (length (messagelst s)) \<and> totalsize s = sizes (messagelst s) \<and>
     virtual_totalmessages s = of_nat (length (filter live (messagelst s))) \<and>
     virtual_totalsize s = sizes (filter live (messagelst s)) \<and>
     list_all (\<lambda>m. messagestatus m < MESSAGE_STATUS_DELETE) (messagelst s)"

definition open_ok :: "client_session \<Rightarrow> bool" where
  "open_ok s \<longleftrightarrow> numbered (messagelst s) \<and> tallies s"

text \<open>A user id that one of the two ways to log in has answered.\<close>

definition logged_in :: "pop3_env \<Rightarrow> u64 \<Rightarrow> bool" where
  "logged_in env u \<longleftrightarrow>
     (\<exists>name pw r. e_validate env name pw = (r, u) \<and> r \<noteq> - 1 \<and> r \<noteq> 0) \<or>
     (\<exists>name hash stamp i. e_user_exists env name = Some i \<and> e_md5_validate env name hash stamp = u \<and> u \<noteq> - 1 \<and> u \<noteq> 0)"

fun row_id_of :: "pop3_row \<Rightarrow> u64" where
  "row_id_of (size', i, status, uid) = i"

definition inbox_ids :: "pop3_env \<Rightarrow> u64 \<Rightarrow> u64 set" where
  "inbox_ids env u =
     (case e_messages env (snd (e_inbox env u)) of None \<Rightarrow> {} | Some (rows, _) \<Rightarrow> row_id_of ` set rows)"

text \<open>The messages a session knows, has fetched and has changed.\<close>

definition touched :: "client_session \<Rightarrow> u64 set" where
  "touched s = realmessageid ` set (messagelst s) \<union> set (fetched s) \<union> fst ` set (status_updates s)"

definition owned :: "pop3_env \<Rightarrow> client_session \<Rightarrow> bool" where
  "owned env s \<longleftrightarrow>
     touched s = {} \<or> (\<exists>u. logged_in env u \<and> touched s \<subseteq> inbox_ids env (signed_take_bit 31 u))"

definition session_ok :: "pop3_env \<Rightarrow> client_session \<Rightarrow> bool" where
  "session_ok env s \<longleftrightarrow> error_count s \<in> {0..MAX_ERRORS} \<and> owned env s"

definition pop3_inv :: "pop3_env \<Rightarrow> client_session \<Rightarrow> bool" where
  "pop3_inv env s \<longleftrightarrow> session_ok env s \<and>
     (if s_state s = CLIENTSTATE_AUTHENTICATED then open_ok s else messagelst s = []) \<and>
     (s_state s = CLIENTSTATE_INITIAL_CONNECT \<longrightarrow>
        fetched s = [] \<and> status_updates s = [] \<and> virtual_totalmessages s = 0 \<and> virtual_totalsize s = 0)"

text \<open>The query for the messages asks for those that are not deleted.\<close>

definition rows_live :: "pop3_env \<Rightarrow> bool" where
  "rows_live env \<longleftrightarrow>
     (\<forall>mb rows c. e_messages env mb = Some (rows, c) \<longrightarrow>
        list_all (\<lambda>(size', i, status, uid). ucast status < (2 :: u32)) rows)"

lemmas inv_defs = pop3_inv_def session_ok_def owned_def touched_def open_ok_def tallies_def

lemma replied_inv: "replied s s' \<Longrightarrow> pop3_inv env s \<Longrightarrow> pop3_inv env s'"
  by (cases s; cases s') (auto simp: replied_def inv_defs)

lemma replied_session_ok: "replied s s' \<Longrightarrow> session_ok env s \<Longrightarrow> session_ok env s'"
  by (cases s; cases s') (auto simp: replied_def inv_defs)

lemma inv_session_ok: "pop3_inv env s \<Longrightarrow> session_ok env s"
  by (simp add: pop3_inv_def)

lemma inv_updates [simp]:
  "pop3_inv env (s\<lparr>username := u\<rparr>) = pop3_inv env s"
  "pop3_inv env (s\<lparr>password := w\<rparr>) = pop3_inv env s"
  "pop3_inv env (s\<lparr>was_apop := b\<rparr>) = pop3_inv env s"
  "pop3_inv env (s\<lparr>s_ci := c\<rparr>) = pop3_inv env s"
  "pop3_inv env (client_session_set_timeout t s) = pop3_inv env s"
  "session_ok env (s\<lparr>username := u\<rparr>) = session_ok env s"
  "session_ok env (s\<lparr>password := w\<rparr>) = session_ok env s"
  "session_ok env (s\<lparr>SessionResult := r\<rparr>) = session_ok env s"
  "session_ok env (s\<lparr>s_state := st\<rparr>) = session_ok env s"
  "session_ok env (s\<lparr>s_ci := c\<rparr>) = session_ok env s"
  by (simp_all add: inv_defs client_session_set_timeout_def)

subsection \<open>Messages of the list\<close>

lemma find_message_Some:
  "find_message n ms = Some msg \<Longrightarrow> msg \<in> set ms \<and> selected n msg"
  by (induction ms) (auto split: if_splits)

lemma set_status_keeps [simp]:
  "map messageid (set_status n st ms) = map messageid ms"
  "map msize (set_status n st ms) = map msize ms"
  "map realmessageid (set_status n st ms) = map realmessageid ms"
  "map messagestatus (set_status n st ms) = map messagestatus ms"
  "length (set_status n st ms) = length ms"
  by (induction ms) auto

lemma set_status_live:
  "st < MESSAGE_STATUS_DELETE \<Longrightarrow> map live (set_status n st ms) = map live ms"
  by (induction ms) (auto simp: selected_def)

text \<open>Sums over a sublist depend only on the sizes and on the selection.\<close>

lemma sizes_filter_cong:
  "map P ms = map P ms' \<Longrightarrow> map msize ms = map msize ms' \<Longrightarrow>
     sizes (filter P ms) = sizes (filter P ms') \<and> length (filter P ms) = length (filter P ms')"
proof (induction ms arbitrary: ms')
  case (Cons m ms)
  then show ?case by (cases ms') (auto simp: sizes_def)
qed simp

lemma delete_tally:
  assumes "find_message n ms = Some msg"
  shows "sizes (filter live (set_status n MESSAGE_STATUS_DELETE ms)) = sizes (filter live ms) - msize msg"
    and "(of_nat (length (filter live (set_status n MESSAGE_STATUS_DELETE ms))) :: u64) =
           of_nat (length (filter live ms)) - 1"
  using assms
  by (induction ms) (auto simp: sizes_def selected_def split: if_splits)

lemma image_of_map: "map f xs = map f ys \<Longrightarrow> f ` set xs = f ` set ys"
  by (metis list.set_map)

lemma set_status_open:
  assumes "open_ok s" "st < MESSAGE_STATUS_DELETE"
  shows "open_ok (s\<lparr>messagelst := set_status n st (messagelst s)\<rparr>)"
proof -
  let ?ms = "messagelst s" let ?ms' = "set_status n st (messagelst s)"
  have "sizes (filter live ?ms') = sizes (filter live ?ms) \<and> length (filter live ?ms') = length (filter live ?ms)"
    by (rule sizes_filter_cong) (simp_all add: set_status_live assms(2))
  moreover have "messagestatus ` set ?ms' = messagestatus ` set ?ms"
    by (rule image_of_map) simp
  then have "(\<forall>m\<in>set ?ms'. messagestatus m < MESSAGE_STATUS_DELETE) \<longleftrightarrow>
      (\<forall>m\<in>set ?ms. messagestatus m < MESSAGE_STATUS_DELETE)"
    by (metis (no_types, lifting) image_iff)
  ultimately show ?thesis
    using assms(1) by (simp add: open_ok_def tallies_def numbered_def sizes_def list_all_iff)
qed

lemma delete_open:
  assumes "open_ok s" "find_message n (messagelst s) = Some msg"
  shows "open_ok (s\<lparr>messagelst := set_status n MESSAGE_STATUS_DELETE (messagelst s),
                    virtual_totalsize := virtual_totalsize s - msize msg,
                    virtual_totalmessages := virtual_totalmessages s - 1\<rparr>)"
proof -
  let ?ms = "messagelst s" let ?ms' = "set_status n MESSAGE_STATUS_DELETE (messagelst s)"
  have "messagestatus ` set ?ms' = messagestatus ` set ?ms"
    by (rule image_of_map) simp
  then have "(\<forall>m\<in>set ?ms'. messagestatus m < MESSAGE_STATUS_DELETE) \<longleftrightarrow>
      (\<forall>m\<in>set ?ms. messagestatus m < MESSAGE_STATUS_DELETE)"
    by (metis (no_types, lifting) image_iff)
  then show ?thesis
    using assms(1) delete_tally [OF assms(2)]
    by (simp add: open_ok_def tallies_def numbered_def sizes_def list_all_iff)
qed

lemma reset_open:
  assumes "open_ok s"
  shows "open_ok (s\<lparr>virtual_totalsize := totalsize s, virtual_totalmessages := totalmessages s,
                    messagelst := map reset_message (messagelst s)\<rparr>)"
proof -
  have "filter live (map reset_message (messagelst s)) = map reset_message (messagelst s)"
    using assms by (auto simp: open_ok_def tallies_def list_all_iff filter_id_conv reset_message_def)
  then show ?thesis
    using assms by (simp add: open_ok_def tallies_def numbered_def sizes_def list_all_iff reset_message_def o_def)
qed

subsection \<open>Opening the mailbox\<close>

definition filling :: "int \<Rightarrow> client_session \<Rightarrow> bool" where
  "filling c s \<longleftrightarrow> c = int (length (messagelst s)) + 1 \<and> numbered (messagelst s) \<and>
     totalmessages s = of_nat (length (messagelst s)) \<and> totalsize s = sizes (messagelst s) \<and>
     list_all (\<lambda>m. virtual_messagestatus m = messagestatus m \<and> messagestatus m < MESSAGE_STATUS_DELETE) (messagelst s)"

lemma fill_list_frame:
  assumes "fill_list c rows s = (c', s')"
  shows "(\<exists>n z ms. s' = s\<lparr>totalmessages := n, totalsize := z, messagelst := ms\<rparr>) \<and>
     realmessageid ` set (messagelst s') = realmessageid ` set (messagelst s) \<union> row_id_of ` set rows"
  using assms
proof (induction rows arbitrary: c s)
  case Nil
  then show ?case by (cases s) auto
next
  case (Cons row rows)
  obtain size' i status uid where row: "row = (size', i, status, uid)" by (metis surj_pair)
  obtain n z msg where step: "fill_list (c + 1) rows
      (s\<lparr>totalmessages := n, totalsize := z, messagelst := messagelst s @ [msg]\<rparr>) = (c', s')" "realmessageid msg = i"
    using Cons.prems unfolding row fill_list.simps Let_def by fastforce
  note IH = Cons.IH [OF step(1)]
  have "\<exists>n z ms. s' = s\<lparr>totalmessages := n, totalsize := z, messagelst := ms\<rparr>"
    using conjunct1 [OF IH] by simp
  with conjunct2 [OF IH] step(2) row show ?case by simp
qed

lemma fill_list_filling:
  "fill_list c rows s = (c', s') \<Longrightarrow> filling c s \<Longrightarrow>
     list_all (\<lambda>(size', i, status, uid). ucast status < (2 :: u32)) rows \<Longrightarrow> filling c' s'"
proof (induction c rows s arbitrary: c' s' rule: fill_list.induct)
  case (2 c size' i status uid rows s)
  have "uint (ucast status :: u32) < 2"
    using "2.prems"(3) by (simp add: word_less_def)
  then have "filling (c + 1) (s\<lparr>totalmessages := totalmessages s + 1, totalsize := totalsize s + size',
      messagelst := messagelst s @ [\<lparr>msize = size', messageid = word_of_int c, realmessageid = i,
        uidl = (case uid of None \<Rightarrow> [] | Some u \<Rightarrow> take (UID_SIZE - 1) u),
        messagestatus = uint (ucast status :: u32), virtual_messagestatus = uint (ucast status :: u32)\<rparr>]\<rparr>)"
    using "2.prems"(2) by (auto simp: filling_def numbered_def sizes_def MESSAGE_STATUS_DELETE_def)
  with 2 show ?case by (simp add: Let_def)
qed simp

lemma filling_open:
  assumes "filling c s"
  shows "open_ok (s\<lparr>virtual_totalmessages := totalmessages s, virtual_totalsize := totalsize s\<rparr>)"
proof -
  have "filter live (messagelst s) = messagelst s"
    using assms by (auto simp: filling_def list_all_iff filter_id_conv)
  then show ?thesis using assms by (auto simp: filling_def open_ok_def tallies_def list_all_iff)
qed

lemma db_createsession_cases:
  assumes "db_createsession env u s = (r, s')"
  obtains (failed) "r = DM_EQUERY" "s' = s"
  | (filled) rows c k s1 where "e_messages env (snd (e_inbox env u)) = Some (rows, c)"
      "fill_list 1 rows (s\<lparr>totalmessages := 0, totalsize := 0\<rparr>) = (k, s1)"
      "if c then r = DM_EGENERAL else r = DM_EQUERY"
      "s' = (if c \<and> k \<noteq> 1 then s1\<lparr>virtual_totalmessages := totalmessages s1, virtual_totalsize := totalsize s1\<rparr>
             else s1)"
proof (cases "e_inbox env u")
  case (Pair q mb)
  show thesis
  proof (cases "q < 0 \<or> mb = 0 \<or> e_messages env mb = None")
    case True
    then show thesis
      using assms Pair failed by (cases "q < 0"; cases "mb = 0") (simp_all add: db_createsession_def)
  next
    case False
    then obtain rows c where rows: "e_messages env mb = Some (rows, c)" by auto
    obtain k s1 where k: "fill_list 1 rows (s\<lparr>totalmessages := 0, totalsize := 0\<rparr>) = (k, s1)" by force
    show thesis
      using filled [of rows c k s1] assms Pair False rows k
      by (cases c; cases "k = 1") (simp_all add: db_createsession_def)
  qed
qed

lemma db_createsession_frame:
  assumes "db_createsession env u s = (r, s')"
  shows "(\<exists>n z ms vn vz. s' = s\<lparr>totalmessages := n, totalsize := z, messagelst := ms,
            virtual_totalmessages := vn, virtual_totalsize := vz\<rparr>) \<and>
     realmessageid ` set (messagelst s') \<subseteq> realmessageid ` set (messagelst s) \<union> inbox_ids env u"
  using assms
proof (cases rule: db_createsession_cases [case_names failed filled])
  case failed
  then show ?thesis by (cases s) auto
next
  case (filled rows c k s1)
  note frame = fill_list_frame [OF filled(2)]
  obtain n z ms where s1: "s1 = s\<lparr>totalmessages := n, totalsize := z, messagelst := ms\<rparr>"
    using frame by auto
  have "\<exists>n z ms vn vz. s' = s\<lparr>totalmessages := n, totalsize := z, messagelst := ms,
      virtual_totalmessages := vn, virtual_totalsize := vz\<rparr>"
    unfolding filled(4) s1 by (cases s) auto
  moreover have "messagelst s' = messagelst s1" by (simp add: filled(4))
  ultimately show ?thesis using frame by (simp add: inbox_ids_def filled(1))
qed

lemma db_createsession_open:
  assumes "db_createsession env u s = (1, s')" "rows_live env" "messagelst s = []"
    and "virtual_totalmessages s = 0" "virtual_totalsize s = 0"
  shows "open_ok s'"
  using assms(1)
proof (cases rule: db_createsession_cases [case_names failed filled])
  case failed
  then show ?thesis by (simp add: DM_EQUERY_def)
next
  case (filled rows c k s1)
  have c: c using filled(3) by (cases c) (simp_all add: DM_EQUERY_def)
  have "filling 1 (s\<lparr>totalmessages := 0, totalsize := 0\<rparr>)"
    using assms(3) by (simp add: filling_def numbered_def sizes_def)
  then have fill: "filling k s1"
    using fill_list_filling [OF filled(2)] assms(2) filled(1) by (auto simp: rows_live_def)
  show ?thesis
  proof (cases "k = 1")
    case True
    moreover have "virtual_totalmessages s1 = 0 \<and> virtual_totalsize s1 = 0"
      using fill_list_frame [OF filled(2)] assms(4,5) by auto
    ultimately show ?thesis
      using fill filled(4) by (auto simp: filling_def open_ok_def tallies_def sizes_def)
  qed (use filling_open [OF fill] filled(4) c in simp)
qed

lemma authenticated_ok:
  assumes "pop3_session_authenticated env s u = Some (r, s')" "rows_live env" "logged_in env u"
    and "pop3_inv env s" "s_state s = CLIENTSTATE_INITIAL_CONNECT"
  shows "session_ok env s' \<and> (0 < r \<longrightarrow> pop3_inv env s')"
proof -
  define s0 where "s0 = client_session_set_timeout (e_timeout env) (s\<lparr>s_state := CLIENTSTATE_AUTHENTICATED\<rparr>)"
  obtain q s1 where q: "db_createsession env (signed_take_bit 31 u) s0 = (q, s1)" by force
  have s0: "messagelst s0 = []" "virtual_totalmessages s0 = 0" "virtual_totalsize s0 = 0"
      "fetched s0 = []" "status_updates s0 = []" "error_count s0 = error_count s" "error_count s \<in> {0..MAX_ERRORS}"
      "s_state s0 = CLIENTSTATE_AUTHENTICATED"
    using assms(4,5) by (auto simp: s0_def client_session_set_timeout_def inv_defs)
  note frame = db_createsession_frame [OF q]
  have "owned env s1"
    using frame s0 assms(3) by (fastforce simp: owned_def touched_def)
  then have ok: "session_ok env s1"
    using frame s0 by (auto simp: session_ok_def)
  show ?thesis
  proof (cases "q = 1")
    case True
    have "pop3_inv env s1"
      using db_createsession_open [OF q [unfolded True] assms(2) s0(1-3)] ok frame s0(8)
      by (auto simp: pop3_inv_def)
    moreover have "replied s1 s'"
      using assms(1) q True
      by (auto simp: pop3_session_authenticated_def Let_def s0_def [symmetric] dest: say_replied)
    ultimately show ?thesis using replied_inv inv_session_ok by blast
  next
    case False
    have "q = DM_EQUERY \<or> q = DM_EGENERAL"
      using q by (cases rule: db_createsession_cases [case_names failed filled]) (auto split: if_splits)
    then have "r < 0 \<and> s' = s1\<lparr>SessionResult := 4\<rparr>"
      using assms(1) q False
      by (auto simp: pop3_session_authenticated_def Let_def s0_def [symmetric] DM_EQUERY_def DM_EGENERAL_def)
    with ok show ?thesis by simp
  qed
qed

subsection \<open>The commands\<close>

text \<open>What holds after a command: the session stays open only when the result is positive.\<close>

definition command_ok :: "pop3_env \<Rightarrow> int \<Rightarrow> client_session \<Rightarrow> bool" where
  "command_ok env r s \<longleftrightarrow> session_ok env s \<and> (0 < r \<longrightarrow> pop3_inv env s)"

lemma replied_command_ok: "replied s s' \<Longrightarrow> pop3_inv env s \<Longrightarrow> command_ok env r s'"
  using replied_inv inv_session_ok by (auto simp: command_ok_def)

lemma user_ok: "pop3_user env d s v = Some (r, s') \<Longrightarrow> pop3_inv env s \<Longrightarrow> command_ok env r s'"
  by (auto simp: pop3_user_def split: if_splits dest!: ok_reply_replied dest: replied_intros
      intro: replied_command_ok [where s = "s\<lparr>username := Some v\<rparr>"] replied_command_ok)

lemma pass_ok:
  assumes "pop3_pass env d s v = Some (r, s')" "pop3_inv env s" "rows_live env"
  shows "command_ok env r s'"
proof -
  obtain q u where q: "e_validate env (username s) v = (q, u)" by force
  consider "s_state s \<noteq> CLIENTSTATE_INITIAL_CONNECT \<or> d \<and> ssl_state (s_ci s) = 0"
    | "s_state s = CLIENTSTATE_INITIAL_CONNECT" "\<not> (d \<and> ssl_state (s_ci s) = 0)" "q = - 1"
    | "s_state s = CLIENTSTATE_INITIAL_CONNECT" "\<not> (d \<and> ssl_state (s_ci s) = 0)" "q = 0"
    | "s_state s = CLIENTSTATE_INITIAL_CONNECT" "\<not> (d \<and> ssl_state (s_ci s) = 0)" "q \<noteq> - 1" "q \<noteq> 0"
    by blast
  then show ?thesis
  proof cases
    case 1
    then show ?thesis
      using assms by (auto simp: pop3_pass_def split: if_splits dest!: replied_intros intro: replied_command_ok)
  next
    case 2
    then show ?thesis
      using assms q inv_session_ok [OF assms(2)] by (auto simp: pop3_pass_def Let_def command_ok_def)
  next
    case 3
    then have "replied (s\<lparr>username := None, password := None\<rparr>) s'"
      using assms(1) q by (auto simp: pop3_pass_def Let_def dest: replied_intros)
    then show ?thesis by (rule replied_command_ok) (use assms(2) in simp)
  next
    case 4
    then have "pop3_session_authenticated env (s\<lparr>password := Some v\<rparr>) u = Some (r, s')" "logged_in env u"
      using assms(1) q by (auto simp: pop3_pass_def Let_def logged_in_def)
    from authenticated_ok [OF this(1) assms(3) this(2)] assms(2) 4(1) show ?thesis
      by (simp add: command_ok_def)
  qed
qed

lemma apop_ok:
  assumes "pop3_apop env s v = Some (r, s')" "pop3_inv env s" "rows_live env"
  shows "command_ok env r s'"
proof (cases "s_state s = CLIENTSTATE_INITIAL_CONNECT \<and>
    (\<exists>i. strstr v '' '' = Some i \<and> length (drop (i + 1) v) = 32)")
  case False
  then show ?thesis
    using assms by (auto simp: pop3_apop_def Let_def split: if_splits option.splits dest!: replied_intros
        intro: replied_command_ok)
next
  case True
  then obtain i where i: "strstr v '' '' = Some i" "length (drop (i + 1) v) = 32" by blast
  define user where "user = take i v"
  define s1 where "s1 = s\<lparr>username := Some user\<rparr>"
  define q where "q = e_md5_validate env user (drop (i + 1) v) (apop_stamp s1)"
  have s1: "pop3_inv env s1" "session_ok env s1" "s_state s1 = CLIENTSTATE_INITIAL_CONNECT"
    using assms(2) True inv_session_ok by (simp_all add: s1_def)
  have eq: "pop3_apop env s v =
     (case e_user_exists env user of
        None \<Rightarrow> Some (- 1, s1)
      | Some user_idnr \<Rightarrow>
          if \<not> strcaseeq (e_getencryption env user_idnr) []
          then pop3_error env (s1\<lparr>username := None\<rparr>) (''-ERR APOP command is not supported for this user'' @ crlf)
          else if q = - 1 then Some (- 1, s1\<lparr>SessionResult := 3\<rparr>)
          else if q = 0 then pop3_error env (s1\<lparr>username := None, password := None\<rparr>)
                 (''-ERR authentication attempt is invalid'' @ crlf)
          else pop3_session_authenticated env s1 q)"
    using True i by (simp only: pop3_apop_def Let_def user_def s1_def q_def option.case if_False simp_thms)
  have logged: "logged_in env q" if "e_user_exists env user = Some a" "q \<noteq> - 1" "q \<noteq> 0" for a
    unfolding logged_in_def using that q_def by blast
  consider (stop) "r = - 1" "s' = s1 \<or> s' = s1\<lparr>SessionResult := 3\<rparr>"
    | (error) "replied (s1\<lparr>username := None\<rparr>) s' \<or> replied (s1\<lparr>username := None, password := None\<rparr>) s'"
    | (login) "pop3_session_authenticated env s1 q = Some (r, s')" "logged_in env q"
    using assms(1) unfolding eq
    by (cases "e_user_exists env user"; cases "q = - 1"; cases "q = 0")
      (auto split: if_splits dest!: replied_intros logged)
  then show ?thesis
  proof cases
    case stop
    then show ?thesis using s1(2) by (auto simp: command_ok_def)
  next
    case error
    then show ?thesis by (elim disjE replied_command_ok) (simp_all add: s1(1))
  next
    case login
    then show ?thesis using authenticated_ok [OF login(1) assms(3) login(2) s1(1,3)] by (simp add: command_ok_def)
  qed
qed

lemma touched_status [simp]:
  "realmessageid ` set (set_status n st ms) = realmessageid ` set ms"
  by (rule image_of_map) simp

text \<open>Commands that keep the messages of the session keep its owner.\<close>

lemma session_ok_cong:
  "touched s' \<subseteq> touched s \<Longrightarrow> error_count s' = error_count s \<Longrightarrow> session_ok env s \<Longrightarrow> session_ok env s'"
  by (auto simp: session_ok_def owned_def)

lemma inv_openI:
  assumes "pop3_inv env s" "open_ok s'" "s_state s = CLIENTSTATE_AUTHENTICATED"
    and "s_state s' = s_state s" "touched s' \<subseteq> touched s" "error_count s' = error_count s"
  shows "pop3_inv env s'"
  using assms session_ok_cong [OF assms(5,6)] by (simp add: pop3_inv_def)

lemma message_touched: "find_message n (messagelst s) = Some msg \<Longrightarrow> realmessageid msg \<in> touched s"
  by (auto simp: touched_def dest: find_message_Some)

lemma open_ok_fetched [simp]: "open_ok (s\<lparr>fetched := f\<rparr>) = open_ok s"
  by (simp add: open_ok_def tallies_def)

lemma inv_open: "pop3_inv env s \<Longrightarrow> s_state s = CLIENTSTATE_AUTHENTICATED \<Longrightarrow> open_ok s"
  by (simp add: pop3_inv_def)

lemma retr_ok:
  assumes "pop3_retr env s v = Some (r, s')" "pop3_inv env s"
  shows "command_ok env r s'"
proof (cases "s_state s = CLIENTSTATE_AUTHENTICATED \<and> find_message (fst (strtoull v)) (messagelst s) \<noteq> None")
  case False
  then show ?thesis
    using assms by (auto simp: pop3_retr_def Let_def split: if_splits option.splits dest!: replied_intros
        intro: replied_command_ok)
next
  case True
  define n where "n = fst (strtoull v)"
  from True obtain msg where msg: "find_message n (messagelst s) = Some msg" by (auto simp: n_def)
  define s1 where "s1 = s\<lparr>messagelst := set_status n MESSAGE_STATUS_SEEN (messagelst s),
    fetched := fetched s @ [realmessageid msg]\<rparr>"
  have "open_ok (s\<lparr>messagelst := set_status n MESSAGE_STATUS_SEEN (messagelst s)\<rparr>)"
    using set_status_open [OF inv_open [OF assms(2)]] True
    by (simp add: MESSAGE_STATUS_SEEN_def MESSAGE_STATUS_DELETE_def)
  then have "pop3_inv env s1"
    using inv_openI [OF assms(2), of s1] True message_touched [OF msg]
    by (auto simp: s1_def touched_def open_ok_def tallies_def)
  moreover have "replied s1 s'"
    using assms(1) True msg unfolding pop3_retr_def Let_def n_def [symmetric]
    by (auto simp: s1_def [symmetric] bind_eq_Some_conv split: option.splits dest!: say_replied intro: replied_trans)
  ultimately show ?thesis by (rule replied_command_ok [rotated])
qed

lemma dele_ok:
  assumes "pop3_dele env s v = Some (r, s')" "pop3_inv env s"
  shows "command_ok env r s'"
proof (cases "s_state s = CLIENTSTATE_AUTHENTICATED \<and> find_message (fst (strtoull v)) (messagelst s) \<noteq> None")
  case False
  then show ?thesis
    using assms by (auto simp: pop3_dele_def Let_def split: if_splits option.splits dest!: replied_intros
        intro: replied_command_ok)
next
  case True
  define n where "n = fst (strtoull v)"
  from True obtain msg where msg: "find_message n (messagelst s) = Some msg" by (auto simp: n_def)
  define s1 where "s1 = s\<lparr>messagelst := set_status n MESSAGE_STATUS_DELETE (messagelst s),
    virtual_totalsize := virtual_totalsize s - msize msg, virtual_totalmessages := virtual_totalmessages s - 1\<rparr>"
  have "open_ok s1"
    unfolding s1_def using delete_open [OF inv_open [OF assms(2)] msg] True by simp
  then have "pop3_inv env s1"
    using inv_openI [OF assms(2), of s1] True by (simp add: s1_def touched_def)
  moreover have "replied s1 s'"
    using assms(1) True msg unfolding pop3_dele_def Let_def n_def [symmetric]
    by (auto simp: s1_def [symmetric] dest!: ok_reply_replied)
  ultimately show ?thesis by (rule replied_command_ok [rotated])
qed

lemma rset_ok:
  assumes "pop3_rset env s = Some (r, s')" "pop3_inv env s"
  shows "command_ok env r s'"
proof (cases "s_state s = CLIENTSTATE_AUTHENTICATED")
  case False
  then show ?thesis
    using assms by (auto simp: pop3_rset_def dest!: replied_intros intro: replied_command_ok)
next
  case True
  define s1 where "s1 = s\<lparr>virtual_totalsize := totalsize s, virtual_totalmessages := totalmessages s,
    messagelst := map reset_message (messagelst s)\<rparr>"
  have "open_ok s1"
    unfolding s1_def by (rule reset_open [OF inv_open [OF assms(2) True]])
  then have "pop3_inv env s1"
    using inv_openI [OF assms(2), of s1] True
    by (simp add: s1_def touched_def image_image reset_message_def)
  moreover have "replied s1 s'"
    using assms(1) True by (auto simp: pop3_rset_def Let_def s1_def [symmetric] dest!: ok_reply_replied)
  ultimately show ?thesis by (rule replied_command_ok [rotated])
qed

lemma top_ok:
  assumes "pop3_top env s v = Some (r, s')" "pop3_inv env s"
  shows "command_ok env r s'"
proof (cases "replied s s'")
  case True
  then show ?thesis by (rule replied_command_ok [OF _ assms(2)])
next
  case False
  then obtain i where st: "s_state s = CLIENTSTATE_AUTHENTICATED" and i: "strstr v '' '' = Some i"
    using assms by (auto simp: pop3_top_def split: if_splits option.splits dest!: replied_intros)
  define n where "n = fst (strtoull (take i v))"
  from False obtain msg where msg: "find_message n (messagelst s) = Some msg"
    using assms st i by (auto simp: pop3_top_def Let_def n_def split: if_splits option.splits dest!: replied_intros)
  define s1 where "s1 = s\<lparr>fetched := fetched s @ [realmessageid msg]\<rparr>"
  have "replied s1 s'"
    using assms(1) False st i msg [unfolded n_def] unfolding pop3_top_def Let_def
    by (auto simp: s1_def [symmetric] bind_eq_Some_conv split: if_splits option.splits
        dest!: replied_intros elim: replied_trans)
  moreover have "pop3_inv env s1"
    using inv_openI [OF assms(2), of s1] st message_touched [OF msg] inv_open [OF assms(2)]
    by (auto simp: s1_def touched_def)
  ultimately show ?thesis by (rule replied_command_ok)
qed

lemma update_loop_ids:
  "update_loop env u ms = (ok, u', ups) \<Longrightarrow> fst ` set ups \<subseteq> realmessageid ` set ms"
proof (induction ms arbitrary: u ok u' ups)
  case (Cons m ms)
  define v where "v = (if u = 0 then e_get_useridnr env (realmessageid m) else u)"
  obtain ok1 u1 ups1 where "update_loop env v ms = (ok1, u1, ups1)" by (metis surj_pair)
  then show ?case
    using Cons.IH Cons.prems by (fastforce simp: v_def [symmetric] Let_def split: if_splits)
qed simp

lemma db_update_pop_ok:
  assumes "db_update_pop env s = (r, s')" "session_ok env s"
  shows "session_ok env s'"
proof -
  obtain ok u ups where ups: "update_loop env 0 (messagelst s) = (ok, u, ups)" by (metis surj_pair)
  then have "s' = s\<lparr>status_updates := status_updates s @ ups\<rparr>"
    using assms(1) by (auto simp: db_update_pop_def Let_def split: if_splits)
  then show ?thesis
    using update_loop_ids [OF ups] by (intro session_ok_cong [OF _ _ assms(2)]) (auto simp: touched_def)
qed

lemma quit_ok:
  assumes "pop3_quit env s = Some (r, s')" "pop3_inv env s"
  shows "command_ok env r s'"
proof -
  define s0 where "s0 = s\<lparr>SessionResult := 0, s_state := CLIENTSTATE_QUIT\<rparr>"
  obtain q s1 where q: "db_update_pop env s0 = (q, s1)" by force
  have ok: "session_ok env s0" "session_ok env s1"
    using db_update_pop_ok [OF q] inv_session_ok [OF assms(2)] by (simp_all add: s0_def)
  have "r = 0 \<and> (replied s0 s' \<or> replied s1 s')"
    using assms(1) q
    by (auto simp: pop3_quit_def pop3_close_def Let_def s0_def split: if_splits dest: say_replied)
  with ok show ?thesis by (auto simp: command_ok_def dest: replied_session_ok)
qed

lemmas command_oks = user_ok pass_ok apop_ok retr_ok dele_ok rset_ok top_ok quit_ok

lemma dispatch_ok:
  assumes "pop3_dispatch env s cmd v = Some (r, s')" "pop3_inv env s" "rows_live env"
  shows "command_ok env r s'"
proof -
  note oks = command_oks(2,3) [OF _ assms(2,3)] command_oks(1,4-8) [OF _ assms(2)]
  have "replied s s' \<or> command_ok env r s'"
    using assms(1) unfolding pop3_dispatch_def Let_def
    by (cases cmd) (simp_all add: oks replied_intros)
  then show ?thesis using replied_command_ok [OF _ assms(2)] by blast
qed

lemma pop3_ok:
  assumes "pop3 env s b = Some (r, s')" "pop3_inv env s" "rows_live env"
  shows "command_ok env r s'"
proof -
  obtain c v where split: "split_command (g_strstrip (strip_crlf b)) = (c, v)" by force
  define s1 where "s1 = (if lookup_command c = POP3_FAIL then s else s\<lparr>was_apop := True\<rparr>)"
  have s1: "pop3_inv env s1" using assms(2) by (simp add: s1_def)
  have "r = 1 \<and> s' = s \<or> does_not_compute env s1 = Some (r, s') \<or>
      pop3_dispatch env s1 (lookup_command c) v = Some (r, s')"
    using assms(1) split unfolding pop3_def Let_def s1_def by (auto split: if_splits)
  then show ?thesis
    using dispatch_ok [OF _ s1 assms(3)] replied_command_ok [OF _ s1] assms(2) inv_session_ok
    by (auto simp: command_ok_def dest: replied_intros)
qed

subsection \<open>The events\<close>

lemma bailout_inv:
  assumes "client_session_bailout t s = Some s'" "session_ok env s"
  shows "pop3_inv env s' \<and> s_state s' = CLIENTSTATE_QUIT_QUEUED"
proof -
  obtain ci where s': "s' = (client_session_reset (s\<lparr>s_ci := ci\<rparr>))\<lparr>s_state := CLIENTSTATE_QUIT_QUEUED, messagelst := []\<rparr>"
    using assms(1) by (auto simp: client_session_bailout_def bind_eq_Some_conv split: prod.splits)
  have "session_ok env s'"
    by (rule session_ok_cong [OF _ _ assms(2)])
      (auto simp: s' touched_def client_session_reset_def client_session_reset_parser_def)
  then show ?thesis by (simp add: pop3_inv_def s')
qed

lemma handle_input_inv:
  assumes "pop3_handle_input env s = Some s'" "pop3_inv env s" "rows_live env"
  shows "pop3_inv env s'"
proof -
  obtain line ci where rd: "ci_readln (s_ci s) = (line, ci)" by force
  consider (ci) c where "s' = s\<lparr>s_ci := c\<rparr>"
    | (line) b r s1 where "pop3 env (s\<lparr>s_ci := ci\<rparr>) b = Some (r, s1)"
        "if r \<le> 0 then client_session_bailout (e_tries env) s1 = Some s' else s' = s1"
    using assms(1) rd
    by (auto simp: pop3_handle_input_def Let_def bind_eq_Some_conv split: if_splits prod.splits)
  then show ?thesis
  proof cases
    case ci
    then show ?thesis using assms(2) by simp
  next
    case line
    have "command_ok env r s1" by (rule pop3_ok [OF line(1)]) (use assms in simp_all)
    then show ?thesis using line(2) bailout_inv by (auto simp: command_ok_def split: if_splits)
  qed
qed

lemma read_ci: "client_session_read s = (a, s') \<Longrightarrow> s' = s\<lparr>s_ci := ci_read_cb (s_ci s)\<rparr>"
  by (auto simp: client_session_read_def Let_def split: if_splits)

lemma step_inv:
  assumes "pop3_step env s s'" "pop3_inv env s" "rows_live env"
  shows "pop3_inv env s'"
  using assms(1)
proof cases
  case network
  then show ?thesis using assms(2) by simp
next
  case (read_input s1)
  then show ?thesis using handle_input_inv [OF read_input(3) _ assms(3)] assms(2) by (simp add: read_ci [OF read_input(2)])
next
  case (read_bailout s1)
  then show ?thesis
    using bailout_inv [OF read_bailout(3)] inv_session_ok [OF assms(2)]
    by (simp add: read_ci [OF read_bailout(2)])
next
  case read_wait
  then show ?thesis using assms(2) by (simp add: read_ci [OF read_wait(2)])
next
  case room
  then obtain s1 where s1: "pop3_cb_write env s = Some s1"
      "s' = s1 \<or> (\<exists>t. s' = client_session_set_timeout t s1) \<or> client_session_bailout (e_tries env) s1 = Some s'"
    by (auto simp: socket_write_cb_def bind_eq_Some_conv split: if_splits)
  then have "pop3_inv env s1"
    using assms(2) handle_input_inv [OF _ _ assms(3)]
    by (auto simp: pop3_cb_write_def bind_eq_Some_conv split: if_splits)
  then show ?thesis using s1(2) bailout_inv inv_session_ok by auto
next
  case timeout_event
  then obtain s1 where "replied s s1" "client_session_bailout (e_tries env) s1 = Some s'"
    by (auto simp: pop3_cb_time_def bind_eq_Some_conv dest: say_replied)
  then show ?thesis
    using bailout_inv replied_session_ok inv_session_ok [OF assms(2)] by blast
qed

lemma connection_inv:
  assumes "pop3_handle_connection env ci uid host = Some s"
  shows "pop3_inv env s"
proof -
  define s0 where "s0 = client_session_set_timeout (e_login_timeout env) (client_session_new ci uid host\<lparr>s_state := CLIENTSTATE_INITIAL_CONNECT\<rparr>)"
  have "pop3_inv env s0" "pop3_inv env (s0\<lparr>s_ci := c, s_state := CLIENTSTATE_QUIT\<rparr>)" for c
    by (simp_all add: s0_def client_session_set_timeout_def client_session_new_def inv_defs MAX_ERRORS_def)
  moreover have "\<exists>c. s = s0\<lparr>s_ci := c\<rparr> \<or> s = s0\<lparr>s_ci := c, s_state := CLIENTSTATE_QUIT\<rparr>"
    using assms unfolding pop3_handle_connection_def send_greeting_def s0_def [symmetric] Let_def
    by (auto split: if_splits dest!: say_ci)
  ultimately show ?thesis by auto
qed

lemma reachable_inv: "pop3_reachable env s \<Longrightarrow> rows_live env \<Longrightarrow> pop3_inv env s"
  by (induction rule: pop3_reachable.induct) (auto intro: connection_inv step_inv)

section \<open>Closing and undoing\<close>

text \<open>The statements that the end of a session is to execute.\<close>

definition changes :: "pop3_message list \<Rightarrow> (u64 \<times> int) list" where
  "changes ms =
     map (\<lambda>m. (realmessageid m, virtual_messagestatus m)) (filter (\<lambda>m. virtual_messagestatus m \<noteq> messagestatus m) ms)"

abbreviation executes :: "pop3_env \<Rightarrow> u64 \<times> int \<Rightarrow> bool" where
  "executes env \<equiv> \<lambda>(i, st). e_update_status env i st"

text \<open>The user whose quota is computed again: the first owner that is known.\<close>

definition first_owner :: "pop3_env \<Rightarrow> u64 \<Rightarrow> (u64 \<times> int) list \<Rightarrow> u64" where
  "first_owner env u cs =
     (case find (\<lambda>x. x \<noteq> 0) (u # map (e_get_useridnr env \<circ> fst) cs) of None \<Rightarrow> 0 | Some x \<Rightarrow> x)"

lemma update_loop_eq:
  "update_loop env u ms = (ok, u', ups) \<Longrightarrow>
     (ok \<longleftrightarrow> list_all (executes env) (changes ms)) \<and> ups = takeWhile (executes env) (changes ms) \<and>
     (ok \<longrightarrow> u' = first_owner env u (changes ms))"
proof (induction ms arbitrary: u ok u' ups)
  case (Cons m ms)
  define v where "v = (if u = 0 then e_get_useridnr env (realmessageid m) else u)"
  obtain ok1 u1 ups1 where rec: "update_loop env v ms = (ok1, u1, ups1)" by (metis surj_pair)
  have own: "first_owner env u ((realmessageid m, st) # cs) = first_owner env v cs" for st cs
    by (simp add: first_owner_def v_def)
  show ?case
  proof (cases "virtual_messagestatus m = messagestatus m")
    case True
    then show ?thesis using Cons.IH Cons.prems by (simp add: changes_def)
  next
    case False
    then have ch: "changes (m # ms) = (realmessageid m, virtual_messagestatus m) # changes ms"
      by (simp add: changes_def)
    show ?thesis
      using Cons.IH [OF rec] Cons.prems False rec unfolding ch own
      by (auto simp: v_def [symmetric] Let_def split: if_splits)
  qed
qed (simp add: changes_def first_owner_def)

lemma db_update_pop_eq:
  "db_update_pop env s =
     (if list_all (executes env) (changes (messagelst s)) \<and>
         (let u = first_owner env 0 (changes (messagelst s)) in u = 0 \<or> e_quota_rebuild env u \<noteq> - 1)
      then DM_SUCCESS else DM_EQUERY,
      s\<lparr>status_updates := status_updates s @ takeWhile (executes env) (changes (messagelst s))\<rparr>)"
proof -
  obtain ok u ups where "update_loop env 0 (messagelst s) = (ok, u, ups)" by (metis surj_pair)
  with update_loop_eq [OF this] show ?thesis
    by (auto simp: db_update_pop_def Let_def)
qed

lemma quit_updates:
  assumes "pop3_quit env s = Some (r, s')" "username s = Some name" "was_apop s \<or> password s \<noteq> None"
  shows "status_updates s' = status_updates s @ takeWhile (executes env) (changes (messagelst s))"
  using assms
  by (auto simp: pop3_quit_def pop3_close_def Let_def db_update_pop_eq split: if_splits dest!: say_ci)

lemma changes_reset [simp]: "changes (map reset_message ms) = []"
  by (simp add: changes_def filter_map o_def reset_message_def)

lemma rset_session:
  assumes "pop3_rset env s = Some (r, s')" "s_state s = CLIENTSTATE_AUTHENTICATED"
  obtains ci where "s' = s\<lparr>virtual_totalsize := totalsize s, virtual_totalmessages := totalmessages s,
    messagelst := map reset_message (messagelst s), s_ci := ci\<rparr>" "r = 1"
  using assms by (auto simp: pop3_rset_def ok_reply_def Let_def dest!: say_ci)

lemma signed_take_bit_below:
  fixes u :: u64
  assumes "u < 2 ^ 31"
  shows "signed_take_bit 31 u = u"
proof -
  have eq: "take_bit 31 u = u" using assms by (simp add: take_bit_eq_mod mod_word_less)
  have "\<not> bit u 31" by (subst eq [symmetric]) (simp add: bit_take_bit_iff)
  then show ?thesis using eq by (simp add: signed_take_bit_eq_if_positive)
qed

lemma signed_take_bit_wraps: "signed_take_bit 31 (u + 2 ^ 32) = signed_take_bit 31 (u :: u64)"
proof -
  have "take_bit (Suc 31) (u + 2 ^ 32) = take_bit (Suc 31) u"
    by transfer (simp add: take_bit_eq_mod mod_mod_cancel)
  then show ?thesis by (simp only: signed_take_bit_eq_iff_take_bit_eq)
qed

lemma show_u64_nul: "nul \<notin> set (show_u64 n)"
proof
  assume "nul \<in> set (show_u64 n)"
  then have "isdigit nul" using show_nat_digits [of "unat n"] by (auto simp: show_u64_def)
  then show False by (simp add: ctype_defs)
qed

section \<open>A session\<close>

text \<open>A mail store with one user and two messages, and a client that logs in.\<close>

definition demo_env :: pop3_env where
  "demo_env =
     \<lparr>e_tries = 300, e_ssl = False, e_login_disabled = ''no'', e_banner = ''hi'', e_ping = True,
      e_login_timeout = 60, e_timeout = 300, e_tls_setup = False, e_tls_accept = Wrote 1,
      e_validate = (\<lambda>name pw. if pw = ''secret'' then (1, 7) else (0, 0)),
      e_user_exists = (\<lambda>_. None), e_getencryption = (\<lambda>_. []), e_md5_validate = (\<lambda>_ _ _. 0),
      e_inbox = (\<lambda>u. if u = 7 then (0, 70) else (- 1, 0)),
      e_messages = (\<lambda>mb. if mb = 70 then Some ([(100, 501, 0, Some ''a''), (200, 502, 1, None)], True) else None),
      e_message = (\<lambda>i. if i = 501 then Some (''Subject: x'' @ [lf]) else None),
      e_get_useridnr = (\<lambda>_. 7), e_update_status = (\<lambda>_ _. True), e_quota_rebuild = (\<lambda>_. 0)\<rparr>"

lemma demo_rows_live: "rows_live demo_env"
  by (simp add: rows_live_def demo_env_def)

definition demo_messages :: "pop3_message list" where
  "demo_messages =
     [\<lparr>msize = 100, messageid = 1, realmessageid = 501, uidl = ''a'', messagestatus = 0, virtual_messagestatus = 0\<rparr>,
      \<lparr>msize = 200, messageid = 2, realmessageid = 502, uidl = [], messagestatus = 1, virtual_messagestatus = 1\<rparr>]"

lemma ci_write_at_once:
  assumes "\<not> in_error c" "\<not> has_ssl c" "write_buffer c = []" "write_buffer_offset c = 0"
    and "cb_writes c = Wrote k # ws" "m \<noteq> []" "length m \<le> k" "length m < TLS_SEGMENT"
  shows "ci_write t c (Some m) =
     Some (1, c\<lparr>bytes_tx := bytes_tx c + of_nat (length m), cb_writes := ws, cb_sent := cb_sent c @ m\<rparr>)"
proof -
  have "length m < 2 ^ 64" using assms(8) by (simp add: TLS_SEGMENT_def)
  let ?c = "c\<lparr>bytes_tx := bytes_tx c + of_nat (length m), cb_writes := ws, cb_sent := cb_sent c @ m\<rparr>"
  have len: "ci_wbuf_len (c\<lparr>write_buffer := m\<rparr>) = (length m, c\<lparr>write_buffer := m\<rparr>)"
    using assms(1,4) \<open>length m < 2 ^ 64\<close> by (simp add: ci_wbuf_len_def in_error_def nat_mod_as_int)
  have seg: "segment (length m) (c\<lparr>write_buffer := m\<rparr>) = Some (m, c\<lparr>write_buffer := m\<rparr>)"
    using assms(2,4,8) by (simp add: segment_def mem_read_def)
  have att: "attempt t (c\<lparr>write_buffer := m\<rparr>) = (t, Wrote k, c\<lparr>write_buffer := m, cb_writes := ws\<rparr>)"
    using assms(5) by (simp add: attempt_def next_write_def)
  have adv: "advance (length m) m (c\<lparr>write_buffer := m, cb_writes := ws\<rparr>) = ?c"
    using assms(2-4) by (cases c) (simp add: advance_def client_wbuf_scale_def)
  have "ci_write_loop t ?c = Some (1, ?c)"
    using assms(1,3,4) by (subst ci_write_loop.simps) (simp add: ci_wbuf_len_def in_error_def)
  then show ?thesis
    using assms(1,3,6,7) adv
    by (simp add: ci_write_def ci_write_loop.simps [of t "c\<lparr>write_buffer := m\<rparr>"] len seg att min_absorb2)
qed

definition takes_all :: "client_base \<Rightarrow> bool" where
  "takes_all c \<longleftrightarrow> \<not> in_error c \<and> \<not> has_ssl c \<and> write_buffer c = [] \<and> write_buffer_offset c = 0 \<and>
     cb_writes c = [Wrote 1000]"

lemma demo_pass:
  assumes "s_state s = CLIENTSTATE_INITIAL_CONNECT" "messagelst s = []" "username s = None" "takes_all (s_ci s)"
  obtains s' where "pop3 demo_env s (''PASS secret'' @ crlf) = Some (1, s')"
      "s_state s' = CLIENTSTATE_AUTHENTICATED" "messagelst s' = demo_messages"
      "fetched s' = fetched s" "status_updates s' = status_updates s"
proof -
  have cmd: "g_strstrip (strip_crlf (''PASS secret'' @ crlf)) = ''PASS secret''"
      "split_command ''PASS secret'' = (''PASS'', Some ''secret'')" "lookup_command ''PASS'' = POP3_PASS"
    by code_simp+
  define s4 where "s4 = s\<lparr>was_apop := True, password := Some ''secret''\<rparr>"
  define s5 where "s5 = s4\<lparr>s_state := CLIENTSTATE_AUTHENTICATED, timeout := 300, totalmessages := 2,
    totalsize := 300, messagelst := demo_messages, virtual_totalmessages := 2, virtual_totalsize := 300\<rparr>"
  have "pop3 demo_env s (''PASS secret'' @ crlf) = pop3_pass demo_env False (s\<lparr>was_apop := True\<rparr>) ''secret''"
    unfolding pop3_def Let_def cmd(1) by (simp add: cmd(2,3) pop3_dispatch_def demo_env_def)
  also have "\<dots> = pop3_session_authenticated demo_env s4 7"
    using assms(1) by (simp add: pop3_pass_def demo_env_def s4_def)
  also have "\<dots> = map_option (Pair 1) (say 300 (''+OK (null) has 2 messages (300 octets)'' @ crlf) s5)"
  proof -
    have "client_session_set_timeout (e_timeout demo_env) (s4\<lparr>s_state := CLIENTSTATE_AUTHENTICATED\<rparr>) =
        s4\<lparr>s_state := CLIENTSTATE_AUTHENTICATED, timeout := 300\<rparr>"
      by (cases s4) (simp add: client_session_set_timeout_def demo_env_def)
    moreover have "db_createsession demo_env 7 (s4\<lparr>s_state := CLIENTSTATE_AUTHENTICATED, timeout := 300\<rparr>) = (1, s5)"
      using assms(2) by (simp add: db_createsession_def demo_env_def s5_def s4_def demo_messages_def UID_SIZE_def DM_EGENERAL_def)
    moreover have "username s5 = None" "virtual_totalmessages s5 = 2" "virtual_totalsize s5 = 300"
      using assms(3) by (simp_all add: s5_def s4_def)
    moreover have "show_u64 2 = ''2''" "show_u64 300 = ''300''" "e_tries demo_env = 300"
      by code_simp+
    ultimately show ?thesis
      by (simp add: pop3_session_authenticated_def)
  qed
  finally show thesis
    using that assms(4)
    by (simp add: say_def session_write_def s5_def s4_def ci_write_at_once in_error_def TLS_SEGMENT_def crlf_def
        takes_all_def)
qed

lemma demo_login:
  "\<exists>s. pop3_reachable demo_env s \<and> s_state s = CLIENTSTATE_AUTHENTICATED \<and> messagelst s = demo_messages \<and>
     fetched s = [] \<and> status_updates s = []"
proof -
  obtain s1 where s1: "pop3_handle_connection demo_env (fresh_client\<lparr>cb_writes := [Wrote 1000]\<rparr>) ''id'' ''host'' = Some s1"
      "s1 = (client_session_new (s_ci s1) ''id'' ''host'')\<lparr>timeout := 60\<rparr>"
      "\<not> in_error (s_ci s1)" "\<not> has_ssl (s_ci s1)" "write_buffer (s_ci s1) = []" "write_buffer_offset (s_ci s1) = 0"
      "read_buffer (s_ci s1) = []" "read_buffer_offset (s_ci s1) = 0"
    by (simp add: pop3_handle_connection_def send_greeting_def demo_env_def client_session_new_def
        client_session_set_timeout_def say_def session_write_def ci_write_at_once fresh_client_def in_error_def
        CLIENT_OK_def TLS_SEGMENT_def crlf_def)
  define line where "line = ''PASS secret'' @ crlf"
  define s2 where "s2 = s1\<lparr>s_ci := (s_ci s1)\<lparr>cb_reads := [Got line], cb_writes := [Wrote 1000]\<rparr>\<rparr>"
  define s3 where "s3 = s2\<lparr>s_ci := ci_read_cb (s_ci s2)\<rparr>"
  have ci3: "read_buffer (s_ci s3) = line" "read_buffer_offset (s_ci s3) = 0" "write_buffer (s_ci s3) = []"
      "write_buffer_offset (s_ci s3) = 0" "cb_writes (s_ci s3) = [Wrote 1000]" "\<not> in_error (s_ci s3)"
      "\<not> has_ssl (s_ci s3)" "client_state (s_ci s3) = CLIENT_AGAIN"
    using s1(3-8) by (simp_all add: s3_def s2_def ci_read_cb_def set_state_def in_error_def CLIENT_OK_def CLIENT_AGAIN_def
        CLIENT_ERR_def)
  have read: "client_session_read s2 = (Handle_input, s3)"
    using ci3(1,6,8) unfolding client_session_read_def Let_def
    by (simp add: s3_def line_def crlf_def CLIENT_AGAIN_def CLIENT_EOF_def)
  have fields: "s_state s3 = CLIENTSTATE_INITIAL_CONNECT" "messagelst s3 = []" "fetched s3 = []" "status_updates s3 = []"
      "username s3 = None"
    unfolding s3_def s2_def by (simp, subst s1(2), simp add: client_session_new_def)+
  define ci4 where "ci4 = (s_ci s3)\<lparr>cb_len := 13, read_buffer := [], read_buffer_offset := 0\<rparr>"
  have readln: "ci_readln (s_ci s3) = (line, ci4)"
    using ci3(1,2) by (simp add: ci_readln_def line_def crlf_def Let_def c_str_def stridx_def MAX_LINESIZE_def
        client_rbuf_scale_def ci4_def)
  have buffer: "line_buffer line = Some line"
    by (subst line_buffer_eq) (simp_all add: line_def crlf_def MAX_LINESIZE_def)
  obtain s5 where s5: "pop3 demo_env (s3\<lparr>s_ci := ci4\<rparr>) line = Some (1, s5)"
      "s_state s5 = CLIENTSTATE_AUTHENTICATED" "messagelst s5 = demo_messages"
      "fetched s5 = []" "status_updates s5 = []"
    using demo_pass [of "s3\<lparr>s_ci := ci4\<rparr>"] fields ci3
    by (auto simp: takes_all_def ci4_def in_error_def line_def)
  have "pop3_handle_input demo_env s3 = Some s5"
    using ci3(3) s5(1) readln buffer by (simp add: pop3_handle_input_def line_def Let_def)
  then have "pop3_step demo_env s2 s5"
    using read fields(1) by (intro pop3_step.read_input [of s2 s3]) (simp_all add: s3_def)
  moreover have "pop3_reachable demo_env s2"
    unfolding s2_def by (intro pop3_reachable.event [OF pop3_reachable.connect [OF s1(1)]] pop3_step.network)
  ultimately show ?thesis using s5 pop3_reachable.event by blast
qed

section \<open>Properties\<close>

text \<open>
  C16: in every state that a POP3 session can reach with an open mailbox, whatever the client
  sends and whatever the socket accepts, the messages are numbered from 1 without gaps, the
  totals are the number and the size of all messages, the virtual totals are those of the
  messages that are not marked as deleted (modulo \<open>2 ^ 64\<close>), and at most \<open>MAX_ERRORS\<close> errors
  have been counted. The query returns only messages that are not deleted.
\<close>

theorem reachable_counters:
  assumes "pop3_reachable env s" "rows_live env" "s_state s = CLIENTSTATE_AUTHENTICATED"
  shows "map messageid (messagelst s) = map of_nat [1..<Suc (length (messagelst s))] \<and>
     totalmessages s = of_nat (length (messagelst s)) \<and> totalsize s = sum_list (map msize (messagelst s)) \<and>
     virtual_totalmessages s = of_nat (length (filter live (messagelst s))) \<and>
     virtual_totalsize s = sum_list (map msize (filter live (messagelst s))) \<and>
     0 \<le> error_count s \<and> error_count s \<le> MAX_ERRORS"
  using reachable_inv [OF assms(1,2)] assms(3)
  by (simp add: inv_defs numbered_def sizes_def)

theorem reachable_counters_witness:
  "\<exists>s. pop3_reachable demo_env s \<and> messagelst s = demo_messages \<and> virtual_totalmessages s = 2 \<and> virtual_totalsize s = 300"
proof -
  obtain s where s: "pop3_reachable demo_env s" "s_state s = CLIENTSTATE_AUTHENTICATED" "messagelst s = demo_messages"
    using demo_login by blast
  with reachable_counters [OF s(1) demo_rows_live s(2)] show ?thesis
    by (auto simp: demo_messages_def MESSAGE_STATUS_DELETE_def)
qed



text \<open>
  The user id is passed as an \<open>int\<close>: two ids that differ by \<open>2 ^ 32\<close> open the same mailbox.
\<close>

lemma user_id_truncated:
  "pop3_session_authenticated env s (u + 2 ^ 32) = pop3_session_authenticated env s u"
  by (simp only: pop3_session_authenticated_def signed_take_bit_wraps)

text \<open>
  C17: the end of a session. For a user that is named, QUIT executes an update for the messages
  whose status has changed, in order, up to the first one that fails, and answers \<open>+OK\<close> exactly
  when all of them succeed and the quota of their owner can be computed.
\<close>

theorem quit_commits_changes:
  assumes "username s = Some name" "was_apop s \<or> password s \<noteq> None"
    and "cs = changes (messagelst s)" "owner = first_owner env 0 cs"
  shows "pop3_quit env s =
     map_option (Pair 0)
       (say (e_tries env)
          (if list_all (executes env) cs \<and> (owner = 0 \<or> e_quota_rebuild env owner \<noteq> - 1)
           then ''+OK see ya later'' @ crlf else ''-ERR some deleted messages not removed'' @ crlf)
          (s\<lparr>s_state := CLIENTSTATE_QUIT, SessionResult := 0,
              status_updates := status_updates s @ takeWhile (executes env) cs\<rparr>))"
proof -
  have s: "s\<lparr>SessionResult := 0, s_state := CLIENTSTATE_QUIT, status_updates := x\<rparr> =
      s\<lparr>s_state := CLIENTSTATE_QUIT, SessionResult := 0, status_updates := x\<rparr>" for x by (cases s) simp
  show ?thesis
    using assms(1,2) unfolding assms(3,4)
    by (auto simp: pop3_quit_def pop3_close_def Let_def db_update_pop_eq s DM_SUCCESS_def DM_EQUERY_def)
qed

definition demo_session :: "pop3_message list \<Rightarrow> client_session" where
  "demo_session ms =
     (client_session_new (fresh_client\<lparr>client_state := CLIENT_ERR\<rparr>) ''id'' ''host'')
       \<lparr>s_state := CLIENTSTATE_AUTHENTICATED, username := Some ''joe'', was_apop := True, messagelst := ms\<rparr>"

lemma demo_session_fields [simp]:
  "username (demo_session ms) = Some ''joe''" "was_apop (demo_session ms)" "messagelst (demo_session ms) = ms"
  "s_state (demo_session ms) = CLIENTSTATE_AUTHENTICATED" "in_error (s_ci (demo_session ms))"
  "status_updates (demo_session ms) = []" "error_count (demo_session ms) = 0"
  by (simp_all add: demo_session_def client_session_new_def in_error_def CLIENT_ERR_def)

lemma say_broken: "in_error (s_ci s) \<Longrightarrow> say t m s = Some s"
  by (simp add: say_def session_write_def ci_write_def)

theorem quit_commits_changes_witness:
  "pop3_quit demo_env (demo_session (set_status 1 MESSAGE_STATUS_DELETE demo_messages)) =
     Some (0, (demo_session (set_status 1 MESSAGE_STATUS_DELETE demo_messages))
        \<lparr>s_state := CLIENTSTATE_QUIT, SessionResult := 0, status_updates := [(501, 2)]\<rparr>)"
proof -
  have "changes (set_status 1 MESSAGE_STATUS_DELETE demo_messages) = [(501, 2)]"
    by (simp add: changes_def demo_messages_def selected_def MESSAGE_STATUS_DELETE_def)
  moreover have "executes demo_env = (\<lambda>_. True)" by (auto simp: demo_env_def)
  ultimately show ?thesis
    by (subst quit_commits_changes [OF _ _ refl refl, of _ "''joe''"]) (simp_all add: say_broken)
qed

text \<open>
  C19: RSET undoes the session: it restores the totals, and a QUIT that follows changes no
  message in the database.
\<close>

theorem rset_then_quit_changes_nothing:
  assumes "s_state s = CLIENTSTATE_AUTHENTICATED"
    and "pop3_rset env s = Some (r, s1)" "pop3_quit env s1 = Some (r', s2)"
  shows "status_updates s2 = status_updates s \<and> virtual_totalmessages s1 = totalmessages s \<and>
     virtual_totalsize s1 = totalsize s \<and> changes (messagelst s1) = []"
proof -
  obtain ci where s1: "s1 = s\<lparr>virtual_totalsize := totalsize s, virtual_totalmessages := totalmessages s,
      messagelst := map reset_message (messagelst s), s_ci := ci\<rparr>"
    using rset_session [OF assms(2,1)] by metis
  have "status_updates s2 = status_updates s1"
    using assms(3) unfolding pop3_quit_def pop3_close_def Let_def
    by (auto simp: db_update_pop_eq s1 split: if_splits dest!: say_ci)
  then show ?thesis by (simp add: s1)
qed

theorem rset_then_quit_changes_nothing_witness:
  "\<exists>r s1 r' s2. pop3_rset demo_env (demo_session (set_status 1 MESSAGE_STATUS_DELETE demo_messages)) = Some (r, s1) \<and>
     pop3_quit demo_env s1 = Some (r', s2) \<and> status_updates s2 = []"
proof -
  let ?s = "demo_session (set_status 1 MESSAGE_STATUS_DELETE demo_messages)"
  define s1 where "s1 = ?s\<lparr>virtual_totalsize := totalsize ?s, virtual_totalmessages := totalmessages ?s,
      messagelst := map reset_message (messagelst ?s)\<rparr>"
  have e: "in_error (s_ci s1)" "messagelst s1 = map reset_message (messagelst ?s)"
      "username s1 = Some ''joe''" "was_apop s1" by (simp_all add: s1_def)
  have 1: "pop3_rset demo_env ?s = Some (1, s1)"
    using e(1) by (simp add: pop3_rset_def ok_reply_def say_broken Let_def s1_def)
  moreover obtain s2 where 2: "pop3_quit demo_env s1 = Some (0, s2)"
    using e by (auto simp: pop3_quit_def pop3_close_def Let_def db_update_pop_eq say_broken)
  ultimately show ?thesis using rset_then_quit_changes_nothing [OF _ 1 2] by auto
qed

text \<open>
  C18: RETR sends the message. The client will receive the status line, the text with CR LF line
  ends and stuffed dots, and the line that ends it, unless the connection fails; in what
  follows the status line that final line occurs only at the end; and the message is marked as
  seen. The text has no NUL, ends with a line feed, and there is room in the write buffer.
\<close>

theorem retr_sends_message:
  assumes "s_state s = CLIENTSTATE_AUTHENTICATED" "find_message (fst (strtoull v)) (messagelst s) = Some msg"
    and "e_message env (realmessageid msg) = Some raw" "nul \<notin> set raw" "raw \<noteq> []" "last raw = lf"
    and "out = crlf_loop True lf raw"
    and "status = ''+OK '' @ show_u64 (of_nat (length out)) @ '' octets'' @ crlf"
    and "room_for (length (status @ out) + 5) s"
  shows "\<exists>s'. pop3_retr env s v = Some (1, s') \<and>
     (in_error (s_ci s') \<or> stream s' = stream s @ status @ out @ crlf @ ''.'' @ crlf) \<and>
     messagelst s' = set_status (fst (strtoull v)) MESSAGE_STATUS_SEEN (messagelst s) \<and>
     (\<forall>u w. crlf @ out @ crlf \<noteq> u @ crlf @ ''.'' @ crlf @ w)"
proof -
  define n where "n = fst (strtoull v)"
  define s1 where "s1 = s\<lparr>messagelst := set_status n MESSAGE_STATUS_SEEN (messagelst s),
    fetched := fetched s @ [realmessageid msg]\<rparr>"
  have body: "db_get_message_lines env (realmessageid msg) (- 2) = Some (Some out)"
    using assms(3-6) by (simp add: db_get_message_lines_def get_crlf_encoded_opt_eq assms(7))
  have retr: "pop3_retr env s v = do {
      session \<leftarrow> say (e_tries env) (status @ out) s1;
      session \<leftarrow> say (e_tries env) (crlf @ ''.'' @ crlf) session;
      Some (1, session)}"
    using assms(1,2) by (simp add: pop3_retr_def n_def s1_def body assms(8))
  have nuls: "nul \<notin> set (status @ out)" "nul \<notin> set (crlf @ ''.'' @ crlf)"
    using crlf_loop_nul [OF assms(4)] show_u64_nul by (auto simp: assms(7,8) crlf_def)
  have "room_for (length (status @ out) + 5) s1"
    using assms(9) by (simp add: s1_def room_for_def)
  then obtain c1 where c1: "say (e_tries env) (status @ out) s1 = Some (s1\<lparr>s_ci := c1\<rparr>)"
      "in_error c1 \<or> room_for 5 (s1\<lparr>s_ci := c1\<rparr>) \<and> stream (s1\<lparr>s_ci := c1\<rparr>) = stream s1 @ status @ out"
    using say_stream [OF _ nuls(1), of s1 5 "e_tries env"] by auto
  have "length (crlf @ ''.'' @ crlf) = 5" by (simp add: crlf_def)
  then have "in_error (s_ci (s1\<lparr>s_ci := c1\<rparr>)) \<or> room_for (length (crlf @ ''.'' @ crlf) + 0) (s1\<lparr>s_ci := c1\<rparr>)"
    using c1(2) by auto
  from say_stream [OF this nuls(2)]
  obtain c2 where c2: "say (e_tries env) (crlf @ ''.'' @ crlf) (s1\<lparr>s_ci := c1\<rparr>) = Some (s1\<lparr>s_ci := c2\<rparr>)"
      "in_error c2 \<or> \<not> in_error c1 \<and> stream (s1\<lparr>s_ci := c2\<rparr>) = stream (s1\<lparr>s_ci := c1\<rparr>) @ crlf @ ''.'' @ crlf"
    by (metis client_session.select_convs(1) client_session.surjective client_session.update_convs(1))
  have "stream s1 = stream s" by (simp add: stream_def s1_def)
  then have "in_error c2 \<or> stream (s1\<lparr>s_ci := c2\<rparr>) = stream s @ status @ out @ crlf @ ''.'' @ crlf"
    using c1(2) c2(2) by auto
  moreover have "crlf @ out @ crlf \<noteq> u @ crlf @ ''.'' @ crlf @ w" for u w
    using stuffed_no_end [of raw u w] by (simp add: assms(7))
  ultimately show ?thesis
    using c1(1) c2(1) retr by (auto simp: s1_def n_def)
qed

lemma strtoull_1: "strtoull ''1'' = (1, [])"
  by (simp add: strtoull_def strto_scan_def ctype_defs)

theorem retr_sends_message_witness:
  "\<exists>s'. pop3_retr demo_env (demo_session demo_messages\<lparr>s_ci := fresh_client\<rparr>) ''1'' = Some (1, s') \<and>
     (in_error (s_ci s') \<or>
      stream s' = ''+OK 12 octets'' @ crlf @ ''Subject: x'' @ crlf @ crlf @ ''.'' @ crlf)"
proof -
  let ?s = "demo_session demo_messages\<lparr>s_ci := fresh_client\<rparr>"
  let ?msg = "hd demo_messages"
  have out: "crlf_loop True lf (''Subject: x'' @ [lf]) = ''Subject: x'' @ crlf" "show_u64 12 = ''12''"
    by code_simp+
  have find: "find_message (fst (strtoull ''1'')) (messagelst ?s) = Some ?msg"
    by (simp add: strtoull_1 demo_messages_def selected_def MESSAGE_STATUS_DELETE_def)
  have raw: "e_message demo_env (realmessageid ?msg) = Some (''Subject: x'' @ [lf])"
    by (simp add: demo_env_def demo_messages_def)
  have "stream ?s = []" "room_for 100 ?s"
    by (simp_all add: stream_def room_for_def fresh_client_def wbuf_ok_def in_error_def CLIENT_OK_def pending_def
        errno_set_def)
  then show ?thesis
    using retr_sends_message [OF _ find raw _ _ _ refl refl, unfolded out] out(2)
    by (auto simp: crlf_def room_for_def)
qed

text \<open>
  C20: the text of an error reply is used as a format. DELE of a message that does not exist
  reads an argument that was never passed exactly when the client's argument contains a
  conversion; otherwise it answers. The same holds of LIST, RETR and UIDL.
\<close>

theorem dele_argument_is_a_format:
  assumes "s_state s = CLIENTSTATE_AUTHENTICATED" "error_count s < MAX_ERRORS" "nul \<notin> set v"
    and "find_message (fst (strtoull v)) (messagelst s) = None" "room_for (length v + 30) s"
  shows "pop3_dele env s v = None \<longleftrightarrow> printf_plain v = None"
proof -
  let ?t = "''] no such message'' @ crlf"
  have fmt: "printf_plain (''-ERR ['' @ v @ ?t) = map_option (\<lambda>x. ''-ERR ['' @ x @ ?t) (printf_plain v)"
    using printf_plain_append [of "''-ERR [''" "v @ ?t"] printf_plain_append_plain [of ?t v]
    by (simp add: option.map_comp o_def crlf_def)
  have dele: "pop3_dele env s v = pop3_error env s (''-ERR ['' @ v @ ?t)"
    using assms(1,4) by (simp add: pop3_dele_def no_such_message_def)
  show ?thesis
  proof (cases "printf_plain v")
    case None
    then show ?thesis using assms(2) fmt by (simp add: dele pop3_error_def)
  next
    case (Some x)
    have x: "length x \<le> length v" "nul \<notin> set x"
      using printf_plain_length [OF Some] assms(3) by auto
    then have "room_for (length (''-ERR ['' @ x @ ?t) + 0) s" "nul \<notin> set (''-ERR ['' @ x @ ?t)"
      using assms(5) by (auto simp: room_for_def crlf_def)
    from say_stream [OF disjI2 [OF this(1)] this(2), of "e_tries env"]
    have "say (e_tries env) (''-ERR ['' @ x @ ?t) s \<noteq> None" by auto
    then show ?thesis
      using assms(2) Some unfolding dele pop3_error_def fmt by (auto simp: bind_eq_None_conv)
  qed
qed

theorem dele_argument_is_a_format_witness:
  "pop3_dele demo_env (demo_session demo_messages\<lparr>s_ci := fresh_client\<rparr>) ''%s'' = None \<and>
   pop3_dele demo_env (demo_session demo_messages\<lparr>s_ci := fresh_client\<rparr>) ''7'' \<noteq> None"
proof -
  let ?s = "demo_session demo_messages\<lparr>s_ci := fresh_client\<rparr>"
  have "strtoull ''%s'' = (0, ''%s'')" "strtoull ''7'' = (7, [])"
    by (simp_all add: strtoull_def strto_scan_def ctype_defs)
  moreover have "room_for 31 ?s" "room_for 32 ?s"
    by (simp_all add: room_for_def fresh_client_def wbuf_ok_def in_error_def CLIENT_OK_def pending_def errno_set_def)
  ultimately show ?thesis
    using dele_argument_is_a_format [of ?s "''%s''" demo_env] dele_argument_is_a_format [of ?s "''7''" demo_env]
    by (simp add: MAX_ERRORS_def demo_messages_def selected_def)
qed

end
