(* ===== verification/Acl.thy ===== *)
theory Acl
  imports MailboxOps TextUtil
begin

text \<open>
  Access control lists (\<open>src/src/dm_acl.c\<close>) with the statements on the table \<open>acl\<close> that they
  use (\<open>src/src/dm_db.c\<close>). The table is a map from user and mailbox to the eleven columns of
  rights in the order of the SELECT of \<open>MailboxState_getAcl\<close>; \<open>acl_fails\<close> tells which statements
  end in an SQL exception. A new row grants nothing, which is the default of the schema.
\<close>

section \<open>Data\<close>

datatype ACLRight = ACL_RIGHT_LOOKUP | ACL_RIGHT_READ | ACL_RIGHT_SEEN | ACL_RIGHT_WRITE
  | ACL_RIGHT_INSERT | ACL_RIGHT_POST | ACL_RIGHT_CREATE | ACL_RIGHT_DELETE | ACL_RIGHT_DELETED
  | ACL_RIGHT_EXPUNGE | ACL_RIGHT_ADMINISTER | ACL_RIGHT_NONE

fun right_index :: "ACLRight \<Rightarrow> nat" where
  "right_index ACL_RIGHT_LOOKUP = 0"
| "right_index ACL_RIGHT_READ = 1"
| "right_index ACL_RIGHT_SEEN = 2"
| "right_index ACL_RIGHT_WRITE = 3"
| "right_index ACL_RIGHT_INSERT = 4"
| "right_index ACL_RIGHT_POST = 5"
| "right_index ACL_RIGHT_CREATE = 6"
| "right_index ACL_RIGHT_DELETE = 7"
| "right_index ACL_RIGHT_DELETED = 8"
| "right_index ACL_RIGHT_EXPUNGE = 9"
| "right_index ACL_RIGHT_ADMINISTER = 10"
| "right_index ACL_RIGHT_NONE = 11"

definition NR_ACL_FLAGS :: nat where
  "NR_ACL_FLAGS = 13"

definition acl_right_strings :: "string list" where
  "acl_right_strings =
     [''lookup_flag'', ''read_flag'', ''seen_flag'', ''write_flag'', ''insert_flag'', ''post_flag'',
      ''create_flag'', ''delete_flag'', ''deleted_flag'', ''expunge_flag'', ''administer_flag'',
      ''create_flag'', ''delete_flag'']"

definition acl_right_chars :: string where
  "acl_right_chars = ''lrswipkxteacd''"

datatype acl_stmt = S_is_owner u64 u64 | S_has_acl u64 u64 | S_create u64 u64 | S_update u64 u64 string
  | S_owner u64 | S_right u64 u64 string | S_row u64 u64 | S_identifiers u64 | S_permission u64

record acl_db =
  acl_rows :: "u64 \<times> u64 \<Rightarrow> bool list option"
  acl_owners :: "u64 \<Rightarrow> u64 option"
  acl_permissions :: "u64 \<Rightarrow> int option"
  acl_users :: "string \<Rightarrow> u64 option"
  acl_names :: "u64 \<Rightarrow> string option"
  acl_identifiers :: "u64 \<Rightarrow> string list"
  acl_fails :: "acl_stmt \<Rightarrow> bool"

definition ask :: "acl_db \<Rightarrow> acl_stmt \<Rightarrow> 'r \<Rightarrow> 'r sql" where
  "ask db stmt r = (if acl_fails db stmt then None else Some r)"

section \<open>Statements\<close>

definition db_user_is_mailbox_owner :: "u64 \<Rightarrow> u64 \<Rightarrow> acl_db \<Rightarrow> int" where
  "db_user_is_mailbox_owner userid mboxid db =
     (case ask db (S_is_owner userid mboxid) (acl_owners db mboxid = Some userid) of
        None \<Rightarrow> DM_EQUERY | Some b \<Rightarrow> if b then 1 else 0)"

definition db_get_mailbox_owner :: "u64 \<Rightarrow> acl_db \<Rightarrow> int \<times> u64" where
  "db_get_mailbox_owner mboxid db =
     (case ask db (S_owner mboxid) (acl_owners db mboxid) of
        None \<Rightarrow> (DM_EQUERY, 0)
      | Some None \<Rightarrow> (0, 0)
      | Some (Some owner) \<Rightarrow> (if owner = 0 then (0, 0) else (1, owner)))"

definition db_acl_has_acl :: "u64 \<Rightarrow> u64 \<Rightarrow> acl_db \<Rightarrow> int" where
  "db_acl_has_acl userid mboxid db =
     (case ask db (S_has_acl userid mboxid) (acl_rows db (userid, mboxid) \<noteq> None) of
        None \<Rightarrow> DM_EQUERY | Some b \<Rightarrow> if b then 1 else 0)"

text \<open>\<open>db_update\<close> returns a boolean: 0 after an SQL exception, and 1 otherwise.\<close>

definition db_acl_create_acl :: "u64 \<Rightarrow> u64 \<Rightarrow> acl_db \<Rightarrow> int \<times> acl_db" where
  "db_acl_create_acl userid mboxid db =
     (if acl_fails db (S_create userid mboxid) then (0, db)
      else (1, db\<lparr>acl_rows := (acl_rows db)((userid, mboxid) \<mapsto> replicate 11 False)\<rparr>))"

definition flag_column :: "string \<Rightarrow> nat" where
  "flag_column right_flag = length (takeWhile (\<lambda>s. s \<noteq> right_flag) (take 11 acl_right_strings))"

definition update_flag :: "u64 \<Rightarrow> u64 \<Rightarrow> string \<Rightarrow> bool \<Rightarrow> acl_db \<Rightarrow> int \<times> acl_db" where
  "update_flag userid mboxid right_flag on db =
     (if acl_fails db (S_update userid mboxid right_flag) then (0, db)
      else (1, case acl_rows db (userid, mboxid) of
                 None \<Rightarrow> db
               | Some r \<Rightarrow> db\<lparr>acl_rows := (acl_rows db)((userid, mboxid) \<mapsto> r[flag_column right_flag := on])\<rparr>))"

definition db_acl_set_right :: "u64 \<Rightarrow> u64 \<Rightarrow> string \<Rightarrow> bool \<Rightarrow> acl_db \<Rightarrow> int \<times> acl_db" where
  "db_acl_set_right userid mboxid right_flag on db =
     (let owner = db_user_is_mailbox_owner userid mboxid db;
          result = db_acl_has_acl userid mboxid db
      in if owner < 0 then (DM_EQUERY, db)
         else if owner = 1 then (DM_SUCCESS, db)
         else if result < 0 then (DM_EQUERY, db)
         else if result = 0
         then (case db_acl_create_acl userid mboxid db of (created, db) \<Rightarrow>
                 if created = - 1 then (DM_EQUERY, db) else update_flag userid mboxid right_flag on db)
         else update_flag userid mboxid right_flag on db)"

section \<open>Setting rights\<close>

definition acl_get_right_from_char :: "char \<Rightarrow> ACLRight" where
  "acl_get_right_from_char c =
     (if c = CHR ''l'' then ACL_RIGHT_LOOKUP
      else if c = CHR ''r'' then ACL_RIGHT_READ
      else if c = CHR ''s'' then ACL_RIGHT_SEEN
      else if c = CHR ''w'' then ACL_RIGHT_WRITE
      else if c = CHR ''i'' then ACL_RIGHT_INSERT
      else if c = CHR ''p'' then ACL_RIGHT_POST
      else if c = CHR ''k'' then ACL_RIGHT_CREATE
      else if c = CHR ''x'' then ACL_RIGHT_DELETE
      else if c = CHR ''t'' then ACL_RIGHT_DELETED
      else if c = CHR ''e'' then ACL_RIGHT_EXPUNGE
      else if c = CHR ''a'' then ACL_RIGHT_ADMINISTER
      else ACL_RIGHT_NONE)"

definition acl_set_one_right :: "u64 \<Rightarrow> u64 \<Rightarrow> ACLRight \<Rightarrow> bool \<Rightarrow> acl_db \<Rightarrow> int \<times> acl_db" where
  "acl_set_one_right userid mboxid right on db =
     db_acl_set_right userid mboxid (acl_right_strings ! right_index right) on db"

text \<open>The rights that one character of a change stands for.\<close>

definition change_chars :: "char \<Rightarrow> string" where
  "change_chars c = (if c = CHR ''c'' then ''k'' else if c = CHR ''d'' then ''xte'' else [c])"

fun set_each :: "u64 \<Rightarrow> u64 \<Rightarrow> string \<Rightarrow> bool \<Rightarrow> acl_db \<Rightarrow> int \<times> acl_db" where
  "set_each userid mboxid [] on db = (1, db)"
| "set_each userid mboxid (c # cs) on db =
     (case acl_set_one_right userid mboxid (acl_get_right_from_char c) on db of (r, db) \<Rightarrow>
        if r < 0 then (- 1, db) else set_each userid mboxid cs on db)"

fun change_loop :: "u64 \<Rightarrow> u64 \<Rightarrow> string \<Rightarrow> bool \<Rightarrow> acl_db \<Rightarrow> int \<times> acl_db" where
  "change_loop userid mboxid [] on db = (1, db)"
| "change_loop userid mboxid (c # cs) on db =
     (case set_each userid mboxid (change_chars c) on db of (r, db) \<Rightarrow>
        if r < 0 then (- 1, db) else change_loop userid mboxid cs on db)"

definition acl_change_rights :: "u64 \<Rightarrow> u64 \<Rightarrow> string \<Rightarrow> bool \<Rightarrow> acl_db \<Rightarrow> int \<times> acl_db" where
  "acl_change_rights userid mboxid rightsstring on db = change_loop userid mboxid (tl rightsstring) on db"

definition expand_rights :: "string \<Rightarrow> string" where
  "expand_rights rights =
     (let s = take 256 rights;
          s = (if CHR ''c'' \<in> set s then s @ ''k'' else s)
      in if CHR ''d'' \<in> set s then s @ ''xte'' else s)"

fun replace_loop :: "u64 \<Rightarrow> u64 \<Rightarrow> string \<Rightarrow> nat list \<Rightarrow> acl_db \<Rightarrow> int \<times> acl_db" where
  "replace_loop userid mboxid rightsstring [] db = (1, db)"
| "replace_loop userid mboxid rightsstring (i # is) db =
     (case db_acl_set_right userid mboxid (acl_right_strings ! i)
             (acl_right_chars ! i \<in> set rightsstring) db of (r, db) \<Rightarrow>
        if r < 0 then (- 1, db) else replace_loop userid mboxid rightsstring is db)"

definition acl_replace_rights :: "u64 \<Rightarrow> u64 \<Rightarrow> string \<Rightarrow> acl_db \<Rightarrow> int \<times> acl_db" where
  "acl_replace_rights userid mboxid rights db =
     replace_loop userid mboxid (expand_rights rights) [0..<right_index ACL_RIGHT_NONE] db"

definition acl_set_rights :: "u64 \<Rightarrow> u64 \<Rightarrow> string \<Rightarrow> acl_db \<Rightarrow> int \<times> acl_db" where
  "acl_set_rights userid mboxid rightsstring db =
     (case rightsstring of
        [] \<Rightarrow> acl_replace_rights userid mboxid rightsstring db
      | c # _ \<Rightarrow>
          if c = CHR ''-'' then acl_change_rights userid mboxid rightsstring False db
          else if c = CHR ''+'' then acl_change_rights userid mboxid rightsstring True db
          else acl_replace_rights userid mboxid rightsstring db)"

section \<open>Reading rights\<close>

definition has_permission :: "acl_db \<Rightarrow> mailboxstate \<Rightarrow> u64 \<Rightarrow> string \<Rightarrow> int \<times> mailboxstate" where
  "has_permission db M userid right_flag =
     (let mboxid = MailboxState_getId M; row = acl_rows db (userid, mboxid)
      in MailboxState_hasPermission (db_get_mailbox_owner mboxid db)
           (ask db (S_row userid mboxid) (row \<noteq> None))
           (ask db (S_right userid mboxid right_flag)
              (case row of None \<Rightarrow> False | Some r \<Rightarrow> r ! flag_column right_flag))
           M userid)"

definition DBMAIL_ACL_ANYONE_USER :: string where
  "DBMAIL_ACL_ANYONE_USER = ''anyone''"

text \<open>
  \<open>acl_has_right\<close> and the state it leaves: the permission and the owner are read from the
  database when the state does not know them yet, and kept there.
\<close>

definition acl_has_right_in :: "acl_db \<Rightarrow> mailboxstate \<Rightarrow> u64 \<Rightarrow> ACLRight \<Rightarrow> int \<times> mailboxstate" where
  "acl_has_right_in db S userid right =
     (let right_flag = acl_right_strings ! right_index right;
          (writable, S) =
            (if right \<in> {ACL_RIGHT_LOOKUP, ACL_RIGHT_READ, ACL_RIGHT_NONE} then (True, S)
             else case MailboxState_getPermission
                    (ask db (S_permission (MailboxState_getId S)) (acl_permissions db (MailboxState_getId S))) S of
                    (perm, S) \<Rightarrow> (perm = IMAPPERM_READWRITE, S))
      in if \<not> writable then (0, S)
         else case has_permission db S userid right_flag of (test, S) \<Rightarrow>
           if test \<noteq> 0 then (1, S)
           else (case acl_users db DBMAIL_ACL_ANYONE_USER of
                   None \<Rightarrow> (0, S)
                 | Some anyone \<Rightarrow> has_permission db S anyone right_flag))"

definition acl_has_right :: "acl_db \<Rightarrow> mailboxstate \<Rightarrow> u64 \<Rightarrow> ACLRight \<Rightarrow> int" where
  "acl_has_right db S userid right = fst (acl_has_right_in db S userid right)"

definition g_strlcat :: "string \<Rightarrow> string \<Rightarrow> nat \<Rightarrow> string" where
  "g_strlcat dest src size' = (if length dest < size' then take (size' - 1) (dest @ src) else dest)"

definition cat_flag :: "bool \<Rightarrow> string \<Rightarrow> string \<Rightarrow> string" where
  "cat_flag b s dest = (if b then g_strlcat dest s (NR_ACL_FLAGS + 1) else dest)"

definition no_rights :: aclmap where
  "no_rights = acl_of_row (replicate 11 False)"

definition rights_of_map :: "aclmap \<Rightarrow> string" where
  "rights_of_map m =
     (cat_flag (delete_flag m \<or> deleted_flag m \<or> expunge_flag m) ''d'' \<circ>
      cat_flag (create_flag m) ''c'' \<circ> cat_flag (administer_flag m) ''a'' \<circ> cat_flag (expunge_flag m) ''e'' \<circ>
      cat_flag (deleted_flag m) ''t'' \<circ> cat_flag (delete_flag m) ''x'' \<circ> cat_flag (create_flag m) ''k'' \<circ>
      cat_flag (post_flag m) ''p'' \<circ> cat_flag (insert_flag m) ''i'' \<circ> cat_flag (write_flag m) ''w'' \<circ>
      cat_flag (seen_flag m) ''s'' \<circ> cat_flag (read_flag m) ''r'' \<circ> cat_flag (lookup_flag m) ''l'') []"

text \<open>
  \<open>acl_get_rightsstring\<close> returns the code and the contents of the buffer. Of the state that
  \<open>MailboxState_new\<close> loads only the ids play a role here.
\<close>

definition acl_get_rightsstring :: "u64 \<Rightarrow> u64 \<Rightarrow> acl_db \<Rightarrow> int \<times> string" where
  "acl_get_rightsstring userid mboxid db =
     (case db_get_mailbox_owner mboxid db of (result, owner_idnr) \<Rightarrow>
        if result \<le> 0 then (result, [])
        else if owner_idnr = userid then (1, g_strlcat [] acl_right_chars (NR_ACL_FLAGS + 1))
        else let S = MailboxState_setOwner (mailbox_zero\<lparr>mb_id := mboxid\<rparr>) owner_idnr
             in case MailboxState_getAcl (acl_users db DBMAIL_ACL_ANYONE_USER)
                       (\<lambda>u. ask db (S_row u mboxid) (acl_rows db (u, mboxid))) S userid no_rights of
                  (result, m) \<Rightarrow> if result = DM_EQUERY then (result, []) else (1, rights_of_map m))"

definition acl_get_rightsstring_identifier :: "string \<Rightarrow> u64 \<Rightarrow> acl_db \<Rightarrow> int \<times> string" where
  "acl_get_rightsstring_identifier identifier mboxid db =
     (case acl_users db identifier of
        None \<Rightarrow> (- 1, [])
      | Some userid \<Rightarrow> acl_get_rightsstring userid mboxid db)"

definition acl_myrights :: "u64 \<Rightarrow> u64 \<Rightarrow> acl_db \<Rightarrow> string option" where
  "acl_myrights userid mboxid db =
     (case acl_get_rightsstring userid mboxid db of (r, s) \<Rightarrow> if r < 0 then None else Some s)"

definition acl_listrights :: "u64 \<Rightarrow> u64 \<Rightarrow> acl_db \<Rightarrow> string option" where
  "acl_listrights userid mboxid db =
     (let result = db_user_is_mailbox_owner userid mboxid db
      in if result < 0 then None
         else if result = 0 then Some ([dquote, dquote] @ '' l r s w i p k x t e a c d'')
         else Some acl_right_chars)"

text \<open>\<open>snprintf\<close> of a text behind the first \<open>n\<close> characters of a zeroed block, \<open>size'\<close> bytes at most.\<close>

definition snprintf_at :: "string \<Rightarrow> nat \<Rightarrow> string \<Rightarrow> string" where
  "snprintf_at s size' t = (if size' = 0 then s else s @ take (size' - 1) t)"

fun acl_loop :: "acl_db \<Rightarrow> u64 \<Rightarrow> nat \<Rightarrow> string list \<Rightarrow> string \<Rightarrow> string option" where
  "acl_loop db mboxid acl_string_size [] acl_string = Some acl_string"
| "acl_loop db mboxid acl_string_size (i # is) acl_string =
     (case acl_get_rightsstring_identifier i mboxid db of (r, rights) \<Rightarrow>
        if r < 0 then None
        else acl_loop db mboxid acl_string_size is
               (if rights \<noteq> []
                then snprintf_at acl_string (acl_string_size - length acl_string)
                       (dbmail_imap_astring_as_string (Some i) @ '' '' @ rights @ '' '')
                else acl_string))"

definition acl_get_acl :: "u64 \<Rightarrow> acl_db \<Rightarrow> string option" where
  "acl_get_acl mboxid db =
     (if acl_fails db (S_identifiers mboxid) then None
      else case db_get_mailbox_owner mboxid db of (r, userid) \<Rightarrow>
        if r < 0 then None
        else do {
          username \<leftarrow> acl_names db userid;
          let identifiers = rev (acl_identifiers db mboxid) @ [username];
          let acl_string_size = sum_list (map (\<lambda>i. length (dbmail_imap_astring_as_string (Some i)) + NR_ACL_FLAGS + 2) identifiers);
          map_option g_strstrip (acl_loop db mboxid acl_string_size identifiers [])
        })"

section \<open>What the statements do\<close>

definition no_failures :: "acl_db \<Rightarrow> bool" where
  "no_failures db \<longleftrightarrow> acl_fails db = (\<lambda>_. False)"

text \<open>The row of a user, a fresh one where there is none.\<close>

definition row_of :: "acl_db \<Rightarrow> u64 \<Rightarrow> u64 \<Rightarrow> bool list" where
  "row_of db userid mboxid = (case acl_rows db (userid, mboxid) of None \<Rightarrow> replicate 11 False | Some r \<Rightarrow> r)"

definition put_row :: "u64 \<Rightarrow> u64 \<Rightarrow> bool list \<Rightarrow> acl_db \<Rightarrow> acl_db" where
  "put_row userid mboxid r db = db\<lparr>acl_rows := (acl_rows db)((userid, mboxid) \<mapsto> r)\<rparr>"

lemma put_row_simps [simp]:
  "row_of (put_row u m r db) u m = r"
  "acl_owners (put_row u m r db) = acl_owners db"
  "acl_fails (put_row u m r db) = acl_fails db"
  "acl_users (put_row u m r db) = acl_users db"
  "no_failures (put_row u m r db) = no_failures db"
  "put_row u m r (put_row u m r' db) = put_row u m r db"
  "acl_rows (put_row u m r db) (u, m) = Some r"
  "(v, n) \<noteq> (u, m) \<Longrightarrow> acl_rows (put_row u m r db) (v, n) = acl_rows db (v, n)"
  by (auto simp: row_of_def put_row_def no_failures_def)

lemma less_11: "i < 11 \<longleftrightarrow> i \<in> {0, 1, 2, 3, 4, 5, 6, 7, 8, 9, 10 :: nat}"
  by (simp only: insert_iff empty_iff) presburger

lemma flag_column_index: "i < 11 \<Longrightarrow> flag_column (acl_right_strings ! i) = i"
  unfolding less_11 by (auto simp: flag_column_def acl_right_strings_def)

lemma set_right_row:
  assumes "no_failures db" "acl_owners db m \<noteq> Some u" "i < 11"
  shows "db_acl_set_right u m (acl_right_strings ! i) on db = (1, put_row u m ((row_of db u m)[i := on]) db)"
  using assms
  by (simp add: db_acl_set_right_def db_user_is_mailbox_owner_def db_acl_has_acl_def ask_def no_failures_def
      db_acl_create_acl_def update_flag_def flag_column_index row_of_def put_row_def
      split: option.splits)

lemma replace_loop_row:
  assumes "no_failures db" "acl_owners db m \<noteq> Some u" "list_all (\<lambda>i. i < 11) is" "is \<noteq> []"
  shows "replace_loop u m X is db =
     (1, put_row u m (fold (\<lambda>i r. r[i := acl_right_chars ! i \<in> set X]) is (row_of db u m)) db)"
  using assms
proof (induction "is" arbitrary: db)
  case (Cons i js)
  show ?case
  proof (cases "js = []")
    case False
    then show ?thesis
      using Cons.prems Cons.IH [of "put_row u m ((row_of db u m)[i := acl_right_chars ! i \<in> set X]) db"]
      by (simp add: set_right_row)
  qed (use Cons.prems in \<open>simp add: set_right_row\<close>)
qed simp

lemma upt_11: "[0..<11] = [0, 1, 2, 3, 4, 5, 6, 7, 8, 9, 10]"
  by (simp add: upt_rec)

lemma length_11: "length r = 11 \<longleftrightarrow> (\<exists>a b c d e f g h i j k. r = [a, b, c, d, e, f, g, h, i, j, k])"
  by (auto simp: numeral_eq_Suc length_Suc_conv)

lemma replace_all:
  assumes "length r = 11"
  shows "fold (\<lambda>i r. r[i := P i]) [0..<11] r = map P [0..<11]"
  using assms unfolding length_11 upt_11 by (elim exE) simp

definition rights_chars :: string where
  "rights_chars = ''lrswipkxtea''"

lemma rights_chars_nth: "i < 11 \<Longrightarrow> acl_right_chars ! i = rights_chars ! i"
  unfolding less_11 by (auto simp: acl_right_chars_def rights_chars_def)

definition row_wf :: "acl_db \<Rightarrow> bool" where
  "row_wf db \<longleftrightarrow> (\<forall>k r. acl_rows db k = Some r \<longrightarrow> length r = 11)"

lemma replace_rights_row:
  assumes "no_failures db" "acl_owners db m \<noteq> Some u" "row_wf db"
  shows "acl_replace_rights u m s db = (1, put_row u m (map (\<lambda>c. c \<in> set (expand_rights s)) rights_chars) db)"
proof -
  have "length (row_of db u m) = 11"
    using assms(3) by (auto simp: row_of_def row_wf_def split: option.splits)
  then have "fold (\<lambda>i r. r[i := acl_right_chars ! i \<in> set (expand_rights s)]) [0..<11] (row_of db u m) =
      map (\<lambda>i. acl_right_chars ! i \<in> set (expand_rights s)) [0..<11]"
    by (rule replace_all)
  also have "\<dots> = map (\<lambda>c. c \<in> set (expand_rights s)) rights_chars"
    by (simp add: upt_11 acl_right_chars_def rights_chars_def)
  finally show ?thesis
    using replace_loop_row [OF assms(1,2), of "[0..<11]" "expand_rights s"]
    by (simp add: acl_replace_rights_def list_all_iff)
qed

text \<open>The string for a row: never cut off, since the buffer holds all thirteen characters.\<close>

lemma rights_of_row:
  assumes "length r = 11"
  shows "rights_of_map (acl_of_row r) =
     map fst (filter snd (zip rights_chars r)) @ (if r ! 6 then ''c'' else []) @
     (if r ! 7 \<or> r ! 8 \<or> r ! 9 then ''d'' else [])"
proof -
  obtain a b c d e f g h i j k where r: "r = [a, b, c, d, e, f, g, h, i, j, k]"
    using assms unfolding length_11 by (elim exE) (rule that)
  have cat: "cat_flag b t s = s @ (if b then t else [])" if "length s + length t \<le> 13" for b s t
    using that by (simp add: cat_flag_def g_strlcat_def NR_ACL_FLAGS_def)
  show ?thesis
    unfolding r rights_of_map_def o_def acl_of_row_def by (simp add: cat rights_chars_def)
qed

definition char_column :: "char \<Rightarrow> nat" where
  "char_column c = flag_column (acl_right_strings ! right_index (acl_get_right_from_char c))"

text \<open>Every character of the rights has its own column; any other one shares that of \<open>k\<close>.\<close>

lemma char_column_eq:
  "char_column c = (if c \<in> set rights_chars then length (takeWhile (\<lambda>d. d \<noteq> c) rights_chars) else 6)"
  by (simp add: char_column_def acl_get_right_from_char_def acl_right_strings_def flag_column_def rights_chars_def)

lemma char_column_less: "char_column c < 11"
  using length_takeWhile_less_iff [of "\<lambda>d. d \<noteq> c" rights_chars] unfolding char_column_eq
  by (auto simp: rights_chars_def)

lemma set_one_row:
  assumes "no_failures db" "acl_owners db m \<noteq> Some u"
  shows "acl_set_one_right u m (acl_get_right_from_char c) on db =
     (1, put_row u m ((row_of db u m)[char_column c := on]) db)"
proof -
  let ?s = "acl_right_strings ! right_index (acl_get_right_from_char c)"
  have "?s = acl_right_strings ! char_column c"
    unfolding char_column_def
    by (cases "acl_get_right_from_char c") (simp_all add: acl_right_strings_def flag_column_def)
  then show ?thesis
    using set_right_row [OF assms char_column_less, of c on] by (simp add: acl_set_one_right_def)
qed

definition set_columns :: "bool \<Rightarrow> string \<Rightarrow> bool list \<Rightarrow> bool list" where
  "set_columns on cs r = fold (\<lambda>c r. r[char_column c := on]) cs r"

lemma set_columns_nth:
  "i < length r \<Longrightarrow> length (set_columns on cs r) = length r \<and>
     set_columns on cs r ! i = (if i \<in> char_column ` set cs then on else r ! i)"
  by (induction cs arbitrary: r) (auto simp: set_columns_def nth_list_update)

lemma set_each_row:
  assumes "no_failures db" "acl_owners db m \<noteq> Some u" "cs \<noteq> []"
  shows "set_each u m cs on db = (1, put_row u m (set_columns on cs (row_of db u m)) db)"
  using assms
proof (induction cs arbitrary: db)
  case (Cons c cs)
  show ?case
  proof (cases "cs = []")
    case False
    then show ?thesis
      using Cons.prems Cons.IH [of "put_row u m ((row_of db u m)[char_column c := on]) db"]
      by (simp add: set_one_row set_columns_def)
  qed (use Cons.prems in \<open>simp add: set_one_row set_columns_def\<close>)
qed simp

lemma change_loop_row:
  assumes "no_failures db" "acl_owners db m \<noteq> Some u" "cs \<noteq> []"
  shows "change_loop u m cs on db =
     (1, put_row u m (set_columns on (concat (map change_chars cs)) (row_of db u m)) db)"
  using assms
proof (induction cs arbitrary: db)
  case (Cons c cs)
  have ne: "change_chars c \<noteq> []" by (simp add: change_chars_def)
  show ?case
  proof (cases "cs = []")
    case False
    then show ?thesis
      using Cons.prems Cons.IH [of "put_row u m (set_columns on (change_chars c) (row_of db u m)) db"]
      by (simp add: set_each_row [OF _ _ ne] set_columns_def)
  qed (use Cons.prems ne in \<open>simp add: set_each_row\<close>)
qed simp

subsection \<open>The list of a mailbox\<close>

lemma cat_flag_length: "length d \<le> 13 \<Longrightarrow> length (cat_flag b s d) \<le> 13"
  by (auto simp: cat_flag_def g_strlcat_def NR_ACL_FLAGS_def)

lemma rightsstring_length: "length (snd (acl_get_rightsstring u m db)) \<le> 13"
proof -
  have "length (rights_of_map a) \<le> 13" for a
    unfolding rights_of_map_def o_def by (intro cat_flag_length) simp
  then show ?thesis
    by (simp add: acl_get_rightsstring_def Let_def split: prod.split)
      (simp add: g_strlcat_def acl_right_chars_def NR_ACL_FLAGS_def)
qed

lemma rightsstring_identifier_length: "length (snd (acl_get_rightsstring_identifier i m db)) \<le> 13"
  using rightsstring_length by (simp add: acl_get_rightsstring_identifier_def split: option.split)

definition acl_entry :: "acl_db \<Rightarrow> u64 \<Rightarrow> string \<Rightarrow> string" where
  "acl_entry db m i =
     (let rights = snd (acl_get_rightsstring_identifier i m db)
      in if rights = [] then [] else dbmail_imap_astring_as_string (Some i) @ '' '' @ rights @ '' '')"

abbreviation entry_size :: "string \<Rightarrow> nat" where
  "entry_size i \<equiv> length (dbmail_imap_astring_as_string (Some i)) + NR_ACL_FLAGS + 2"

lemma acl_entry_length: "length (acl_entry db m i) \<le> entry_size i"
  using rightsstring_identifier_length [of i m db] by (simp add: acl_entry_def Let_def NR_ACL_FLAGS_def)

text \<open>At most the blank behind the last entry is cut off.\<close>

lemma acl_loop_entries:
  assumes "list_all (\<lambda>i. 0 \<le> fst (acl_get_rightsstring_identifier i m db)) is"
    and "length acc + sum_list (map entry_size is) \<le> size'"
  shows "\<exists>t. acl_loop db m size' is acc = Some t \<and>
     (t = acc @ concat (map (acl_entry db m) is) \<or> t @ '' '' = acc @ concat (map (acl_entry db m) is))"
  using assms
proof (induction "is" arbitrary: acc)
  case (Cons i js)
  let ?e = "acl_entry db m i"
  obtain r rights where ri: "acl_get_rightsstring_identifier i m db = (r, rights)" by force
  have e: "?e = (if rights = [] then [] else dbmail_imap_astring_as_string (Some i) @ '' '' @ rights @ '' '')"
    by (simp add: acl_entry_def ri)
  note el = acl_entry_length [of db m i]
  show ?case
  proof (cases "rights \<noteq> [] \<and> size' \<le> length acc + length ?e")
    case False
    then have "acl_loop db m size' (i # js) acc = acl_loop db m size' js (acc @ ?e)"
      using Cons.prems(1) by (auto simp: ri e snprintf_at_def)
    then show ?thesis using Cons.IH [of "acc @ ?e"] Cons.prems el by simp
  next
    case True
    moreover have "length acc + entry_size i + sum_list (map entry_size js) \<le> size'"
      using Cons.prems(2) by simp
    ultimately have full: "length acc + length ?e = size'" "sum_list (map entry_size js) = 0"
      using el by linarith+
    then have js: "js = []" by (cases js) (auto simp: NR_ACL_FLAGS_def)
    have "?e \<noteq> []" "last ?e = CHR '' ''" using True by (simp_all add: e)
    moreover have "snprintf_at acc (size' - length acc) ?e = acc @ butlast ?e"
      using full(1) \<open>?e \<noteq> []\<close> by (auto simp: snprintf_at_def butlast_conv_take)
    then have "acl_loop db m size' (i # js) acc = Some (acc @ butlast ?e)"
      using Cons.prems(1) True by (simp add: ri js e)
    moreover have "butlast ?e @ '' '' = ?e"
      using append_butlast_last_id [of ?e] calculation(1,2) by simp
    ultimately show ?thesis using js by (intro exI [of _ "acc @ butlast ?e"]) simp
  qed
qed simp

lemma g_strstrip_blank: "g_strstrip (s @ '' '') = g_strstrip s"
proof (cases "list_all g_ascii_isspace s")
  case True
  have "g_ascii_isspace CHR '' ''" by (simp add: g_ascii_isspace_def code_def)
  with True have "\<forall>x \<in> set s. g_ascii_isspace x" "\<forall>x \<in> set (s @ '' ''). g_ascii_isspace x"
    by (simp_all add: list_all_iff)
  then have "dropWhile g_ascii_isspace s = []" "dropWhile g_ascii_isspace (s @ '' '') = []"
    unfolding dropWhile_eq_Nil_conv .
  then show ?thesis by (simp only: g_strstrip_def)
next
  case False
  then have "dropWhile g_ascii_isspace (s @ '' '') = dropWhile g_ascii_isspace s @ '' ''"
    by (auto simp: list_all_iff dropWhile_append)
  then show ?thesis by (simp add: g_strstrip_def g_ascii_isspace_def code_def)
qed

subsection \<open>Who holds a right\<close>

definition granted :: "acl_db \<Rightarrow> u64 \<Rightarrow> u64 \<Rightarrow> ACLRight \<Rightarrow> bool" where
  "granted db m u right \<longleftrightarrow> (case acl_rows db (u, m) of None \<Rightarrow> False | Some r \<Rightarrow> r ! right_index right)"

lemma right_index_less: "right \<noteq> ACL_RIGHT_NONE \<Longrightarrow> right_index right < 11"
  by (cases right) auto

lemma has_permission_granted:
  assumes "no_failures db" "MailboxState_getOwner M = owner" "owner \<noteq> 0" "u \<noteq> owner" "right \<noteq> ACL_RIGHT_NONE"
  shows "has_permission db M u (acl_right_strings ! right_index right) =
     (if granted db (MailboxState_getId M) u right then 1 else 0, M)"
  using assms right_index_less [OF assms(5)]
  by (auto simp: has_permission_def MailboxState_hasPermission_def ask_def no_failures_def Let_def granted_def
      flag_column_index split: option.splits)

lemma acl_has_right_eq:
  assumes "no_failures db" "MailboxState_getOwner S = owner" "owner \<noteq> 0" "u \<noteq> owner" "right \<noteq> ACL_RIGHT_NONE"
    and "acl_users db DBMAIL_ACL_ANYONE_USER = Some anyone" "anyone \<noteq> owner" "mb_permission S = IMAPPERM_READWRITE"
  shows "acl_has_right db S u right =
     (if granted db (MailboxState_getId S) u right \<or> granted db (MailboxState_getId S) anyone right then 1 else 0)"
  using has_permission_granted [OF assms(1-5)] has_permission_granted [OF assms(1-3,7,5)]
  by (cases "right \<in> {ACL_RIGHT_LOOKUP, ACL_RIGHT_READ, ACL_RIGHT_NONE}")
    (simp_all only: acl_has_right_def acl_has_right_in_def getPermission_rw [OF assms(8)] assms(6) Let_def if_True if_False prod.case option.case
      fst_conv, auto)

lemma rights_of_map_mem:
  assumes "length r = 11" "right \<noteq> ACL_RIGHT_NONE"
  shows "rights_chars ! right_index right \<in> set (rights_of_map (acl_of_row r)) \<longleftrightarrow> r ! right_index right"
proof -
  obtain a b c d e f g h i j k where r: "r = [a, b, c, d, e, f, g, h, i, j, k]"
    using assms unfolding length_11 by (elim exE) (rule that)
  show ?thesis
    using assms(2) by (subst rights_of_row [OF assms(1)], cases right) (auto simp: r rights_chars_def)
qed

section \<open>Properties\<close>

text \<open>The rights string that the rights \<open>X\<close> are reported as.\<close>

definition canonical_rights :: "string \<Rightarrow> string" where
  "canonical_rights X =
     filter (\<lambda>c. c \<in> set X) rights_chars @ (if CHR ''k'' \<in> set X then ''c'' else []) @
     (if set ''xte'' \<inter> set X = {} then [] else ''d'')"

lemma rights_of_chars:
  "rights_of_map (acl_of_row (map (\<lambda>c. c \<in> set X) rights_chars)) = canonical_rights X"
proof -
  have "map fst (filter snd (zip cs (map P cs))) = filter P cs" for P and cs :: string
    by (induction cs) auto
  then show ?thesis
    by (subst rights_of_row) (auto simp: canonical_rights_def rights_chars_def)
qed

text \<open>
  The rights that a rights string of SETACL stands for: the listed ones, \<open>k\<close> for the old right
  \<open>c\<close> and \<open>x\<close>, \<open>t\<close> and \<open>e\<close> for the old right \<open>d\<close>.
\<close>

definition meant :: "string \<Rightarrow> char \<Rightarrow> bool" where
  "meant s c \<longleftrightarrow> c \<in> set s \<or> (c = CHR ''k'' \<and> CHR ''c'' \<in> set s) \<or> (c \<in> set ''xte'' \<and> CHR ''d'' \<in> set s)"

lemma set_expand_rights:
  "c \<in> set (expand_rights s) \<longleftrightarrow> meant (take 256 s) c"
  unfolding expand_rights_def meant_def Let_def by (simp del: set_take_subset) blast

lemma canonical_expand_rights:
  "canonical_rights (expand_rights s) = canonical_rights (filter (meant (take 256 s)) rights_chars)"
  unfolding canonical_rights_def
  by (simp only: set_expand_rights set_filter mem_Collect_eq disjoint_iff) (auto simp: rights_chars_def)

text \<open>
  C29: what SETACL sets, MYRIGHTS reports. For a user who is not the owner of the mailbox, with
  no database error, replacing the rights with a string makes \<open>acl_myrights\<close> report exactly the
  rights in it in canonical order, the old rights \<open>c\<close> and \<open>d\<close> standing for \<open>k\<close> and \<open>xte\<close>, and
  leaves every other row as it was.
\<close>

theorem setacl_then_myrights:
  assumes "no_failures db" "row_wf db" "acl_owners db m = Some owner" "owner \<noteq> 0" "u \<noteq> owner" "m \<noteq> 0"
    and "acl_users db DBMAIL_ACL_ANYONE_USER = Some anyone"
    and "take 1 s \<noteq> ''+''" "take 1 s \<noteq> ''-''"
  shows "\<exists>db'. acl_set_rights u m s db = (1, db') \<and>
     acl_myrights u m db' = Some (canonical_rights (filter (meant (take 256 s)) rights_chars)) \<and>
     (\<forall>v n. (v, n) \<noteq> (u, m) \<longrightarrow> acl_rows db' (v, n) = acl_rows db (v, n))"
proof -
  let ?r = "map (\<lambda>c. c \<in> set (expand_rights s)) rights_chars"
  let ?db = "put_row u m ?r db"
  have set_eq: "acl_set_rights u m s db = (1, ?db)"
    using replace_rights_row [OF assms(1) _ assms(2), of m u s] assms(3,5,8,9)
    by (cases s) (auto simp: acl_set_rights_def)
  have "db_get_mailbox_owner m ?db = (1, owner)"
    using assms(1,3,4) by (simp add: db_get_mailbox_owner_def ask_def no_failures_def)
  then have "acl_myrights u m ?db = Some (canonical_rights (expand_rights s))"
    using assms(1,5,6,7)
    by (simp add: acl_myrights_def acl_get_rightsstring_def MailboxState_getAcl_def MailboxState_getId_def
        MailboxState_setOwner_def ask_def no_failures_def rights_of_chars dm_codes)
  with set_eq show ?thesis by (auto simp: canonical_expand_rights)
qed

definition demo_acl :: acl_db where
  "demo_acl =
     \<lparr>acl_rows = (\<lambda>k. if k = (2, 5) then Some (True # replicate 10 False) else if k = (9, 5) then Some (True # True # replicate 9 False) else None),
      acl_owners = (\<lambda>m. if m = 5 then Some 1 else None), acl_permissions = (\<lambda>_. Some IMAPPERM_READWRITE),
      acl_users = (\<lambda>n. if n = ''anyone'' then Some 9 else if n = ''bob'' then Some 2 else if n = ''joe'' then Some 1 else None),
      acl_names = (\<lambda>u. if u = 1 then Some ''joe'' else None), acl_identifiers = (\<lambda>_. [''bob'']),
      acl_fails = (\<lambda>_. False)\<rparr>"

lemma demo_acl_ok: "no_failures demo_acl" "row_wf demo_acl" "acl_owners demo_acl 5 = Some 1"
    "acl_users demo_acl DBMAIL_ACL_ANYONE_USER = Some 9"
  by (auto simp: no_failures_def row_wf_def demo_acl_def DBMAIL_ACL_ANYONE_USER_def split: if_splits)

theorem setacl_then_myrights_witness:
  "\<exists>db'. acl_set_rights 2 5 ''lrc'' demo_acl = (1, db') \<and> acl_myrights 2 5 db' = Some ''lrkc''"
proof -
  have "canonical_rights (filter (meant (take 256 ''lrc'')) rights_chars) = ''lrkc''" by code_simp
  then show ?thesis
    using setacl_then_myrights [OF demo_acl_ok(1,2,3) _ _ _ demo_acl_ok(4), of 2 "''lrc''"] by auto
qed

lemma char_column_nth:
  assumes "i < 11"
  shows "i = char_column c \<longleftrightarrow> c = rights_chars ! i \<or> (i = 6 \<and> c \<notin> set rights_chars)"
proof -
  have "i \<in> {0, 1, 2, 3, 4, 5, 6, 7, 8, 9, 10}" using assms by (simp only: insert_iff empty_iff) presburger
  then show ?thesis unfolding char_column_eq
    by (elim insertE emptyE) (simp_all add: rights_chars_def)
qed

lemma changed_columns:
  assumes "i < 11"
  shows "i \<in> char_column ` set (concat (map change_chars cs)) \<longleftrightarrow>
     meant cs (rights_chars ! i) \<or> (i = 6 \<and> (\<exists>c \<in> set cs. c \<notin> set rights_chars \<union> set ''cd''))"
proof -
  have i: "i \<in> {0, 1, 2, 3, 4, 5, 6, 7, 8, 9, 10}" using assms by (simp only: insert_iff empty_iff) presburger
  have one: "(\<exists>d \<in> set (change_chars c). i = char_column d) \<longleftrightarrow>
      meant [c] (rights_chars ! i) \<or> (i = 6 \<and> c \<notin> set rights_chars \<union> set ''cd'')" for c
    unfolding char_column_nth [OF assms] change_chars_def meant_def using i
    by (elim insertE emptyE) (simp_all add: rights_chars_def eq_commute [of "CHR ''k''" c])
  have "meant cs d \<longleftrightarrow> (\<exists>c \<in> set cs. meant [c] d)" for d by (simp add: meant_def) blast
  moreover have "i \<in> char_column ` set (concat (map change_chars cs)) \<longleftrightarrow>
      (\<exists>c \<in> set cs. \<exists>d \<in> set (change_chars c). i = char_column d)" by auto
  ultimately show ?thesis unfolding one by blast
qed

text \<open>
  C31: a change of rights (\<open>+\<close> or \<open>-\<close> and a list of characters) sets or clears exactly the
  columns of the listed rights, \<open>c\<close> and \<open>d\<close> standing for \<open>k\<close> and \<open>xte\<close>. A character that is no
  right acts on the column of \<open>k\<close>: it grants or removes the right to create mailboxes.
\<close>

theorem change_rights_columns:
  assumes "no_failures db" "row_wf db" "acl_owners db m \<noteq> Some u" "cs \<noteq> []" "i < 11"
    and "on \<longleftrightarrow> sign = CHR ''+''" "sign \<in> {CHR ''+'', CHR ''-''}"
    and "acl_set_rights u m (sign # cs) db = (r, db')"
  shows "r = 1 \<and> row_of db' u m ! i =
     (if meant cs (rights_chars ! i) \<or> (i = 6 \<and> (\<exists>c \<in> set cs. c \<notin> set rights_chars \<union> set ''cd''))
      then on else row_of db u m ! i)"
proof -
  have "acl_set_rights u m (sign # cs) db = change_loop u m cs on db"
    using assms(6,7) by (auto simp: acl_set_rights_def acl_change_rights_def)
  then have db': "r = 1" "db' = put_row u m (set_columns on (concat (map change_chars cs)) (row_of db u m)) db"
    using change_loop_row [OF assms(1,3,4), of on] assms(8) by auto
  have "length (row_of db u m) = 11"
    using assms(2) by (auto simp: row_of_def row_wf_def split: option.splits)
  then show ?thesis
    using db' set_columns_nth [of i "row_of db u m" on "concat (map change_chars cs)"] assms(5)
    unfolding changed_columns [OF assms(5)] by (simp del: Un_iff)
qed

theorem change_rights_columns_witness:
  "\<exists>r db'. acl_set_rights 2 5 ''+z'' demo_acl = (r, db') \<and> row_of db' 2 5 ! 6"
proof -
  obtain r db' where eq: "acl_set_rights 2 5 ''+z'' demo_acl = (r, db')" by force
  have "row_of db' 2 5 ! 6"
    using change_rights_columns [OF demo_acl_ok(1,2) _ _ _ _ _ eq, of 6 True] demo_acl_ok(3)
    by (simp add: rights_chars_def)
  with eq show ?thesis by blast
qed

text \<open>
  C30: who holds a right, and who is told so. On a writable mailbox of another user, with no
  database error, \<open>acl_has_right\<close> grants a right when the row of the user or the row of
  \<open>anyone\<close> has it. \<open>acl_myrights\<close> reports the row of \<open>anyone\<close> only where the user has no row:
  every right it reports is held, but not every right that is held is reported.
\<close>

theorem rights_held_and_reported:
  assumes "no_failures db" "row_wf db" "acl_owners db m = Some owner" "owner \<noteq> 0" "u \<noteq> owner" "m \<noteq> 0"
    and "acl_users db DBMAIL_ACL_ANYONE_USER = Some anyone" "anyone \<noteq> owner" "right \<noteq> ACL_RIGHT_NONE"
    and "MailboxState_getId S = m" "MailboxState_getOwner S = owner" "mb_permission S = IMAPPERM_READWRITE"
  shows "acl_has_right db S u right = (if granted db m u right \<or> granted db m anyone right then 1 else 0) \<and>
     (\<exists>s. acl_myrights u m db = Some s \<and>
        (rights_chars ! right_index right \<in> set s \<longleftrightarrow>
           (if acl_rows db (u, m) = None then granted db m anyone right else granted db m u right)))"
proof -
  have owner: "db_get_mailbox_owner m db = (1, owner)"
    using assms(1,3,4) by (simp add: db_get_mailbox_owner_def ask_def no_failures_def)
  have zero: "rights_chars ! right_index right \<notin> set (rights_of_map no_rights)"
    using rights_of_map_mem [of "replicate 11 False" right] assms(9) right_index_less [OF assms(9)]
    by (simp add: no_rights_def)
  have wf: "length r = 11" if "acl_rows db k = Some r" for k r
    using assms(2) that by (cases k) (auto simp: row_wf_def)
  have "\<exists>s. acl_myrights u m db = Some s \<and>
      (rights_chars ! right_index right \<in> set s \<longleftrightarrow>
         (if acl_rows db (u, m) = None then granted db m anyone right else granted db m u right))"
    using assms(1,5-7,9) owner zero rights_of_map_mem [OF wf assms(9)]
    by (auto simp: acl_myrights_def acl_get_rightsstring_def MailboxState_getAcl_def MailboxState_getId_def
        MailboxState_setOwner_def ask_def no_failures_def granted_def dm_codes split: option.splits)
  then show ?thesis using acl_has_right_eq [OF assms(1,11,4,5,9,7,8,12)] assms(10) by simp
qed

theorem rights_held_and_reported_witness:
  "acl_has_right demo_acl (mailbox_zero\<lparr>mb_id := 5, mb_owner_id := 1, mb_permission := IMAPPERM_READWRITE\<rparr>) 2 ACL_RIGHT_READ = 1 \<and>
   (\<exists>s. acl_myrights 2 5 demo_acl = Some s \<and> CHR ''r'' \<notin> set s)"
  using rights_held_and_reported [OF demo_acl_ok(1,2,3) _ _ _ demo_acl_ok(4), of 2 ACL_RIGHT_READ
      "mailbox_zero\<lparr>mb_id := 5, mb_owner_id := 1, mb_permission := IMAPPERM_READWRITE\<rparr>"]
  by (simp add: MailboxState_getId_def MailboxState_getOwner_def granted_def demo_acl_def rights_chars_def)

text \<open>
  C32: failures of the statements that change a row are not noticed: \<open>db_update\<close> returns 0 or 1
  and the callers look for a negative number. When every INSERT and UPDATE fails, SETACL still
  succeeds, and the rights are what they were.
\<close>

theorem failed_setacl_succeeds:
  assumes "\<not> acl_fails db (S_is_owner u m)" "\<not> acl_fails db (S_has_acl u m)"
    and "acl_fails db (S_create u m)" "\<forall>f. acl_fails db (S_update u m f)"
  shows "acl_set_rights u m s db = (1, db)"
proof -
  have one: "\<exists>r. db_acl_set_right u m f on db = (r, db) \<and> 0 \<le> r" for f on
    using assms
    by (simp add: db_acl_set_right_def db_user_is_mailbox_owner_def db_acl_has_acl_def ask_def db_acl_create_acl_def
        update_flag_def dm_codes Let_def)
  have each: "set_each u m cs on db = (1, db)" for cs on
  proof (induction cs)
    case (Cons c cs)
    then show ?case
      using one [of "acl_right_strings ! right_index (acl_get_right_from_char c)" on]
      by (auto simp: acl_set_one_right_def)
  qed simp
  have change: "change_loop u m cs on db = (1, db)" for cs on
    by (induction cs) (simp_all add: each)
  have replace: "replace_loop u m X is db = (1, db)" for X "is"
  proof (induction "is")
    case (Cons i js)
    then show ?case using one [of "acl_right_strings ! i" "acl_right_chars ! i \<in> set X"] by auto
  qed simp
  show ?thesis
    by (cases s) (simp_all add: acl_set_rights_def acl_replace_rights_def acl_change_rights_def replace change)
qed

theorem failed_setacl_succeeds_witness:
  "\<exists>db. acl_rows db (2, 5) = Some (True # replicate 10 False) \<and> acl_set_rights 2 5 ''-l'' db = (1, db)"
  using failed_setacl_succeeds [of "demo_acl\<lparr>acl_fails := (\<lambda>x. case x of S_create _ _ \<Rightarrow> True | S_update _ _ _ \<Rightarrow> True | _ \<Rightarrow> False)\<rparr>" 2 5 "''-l''"]
  by (intro exI [of _ "demo_acl\<lparr>acl_fails := (\<lambda>x. case x of S_create _ _ \<Rightarrow> True | S_update _ _ _ \<Rightarrow> True | _ \<Rightarrow> False)\<rparr>"])
    (simp add: demo_acl_def)

text \<open>
  The buffer of \<open>acl_get_acl\<close> is large enough: when the rights of every identifier can be
  read, the result has the entries of all of them, none cut off.
\<close>

lemma acl_list_is_complete:
  assumes "\<not> acl_fails db (S_identifiers m)" "0 \<le> fst (db_get_mailbox_owner m db)"
    and "acl_names db (snd (db_get_mailbox_owner m db)) = Some name"
    and "ids = rev (acl_identifiers db m) @ [name]"
    and "list_all (\<lambda>i. 0 \<le> fst (acl_get_rightsstring_identifier i m db)) ids"
  shows "acl_get_acl m db = Some (g_strstrip (concat (map (acl_entry db m) ids)))"
proof -
  obtain r u where ru: "db_get_mailbox_owner m db = (r, u)" by force
  obtain t where t: "acl_loop db m (sum_list (map entry_size ids)) ids [] = Some t"
      "t = concat (map (acl_entry db m) ids) \<or> t @ '' '' = concat (map (acl_entry db m) ids)"
    using acl_loop_entries [OF assms(5), of "[]"] by auto
  then have "g_strstrip t = g_strstrip (concat (map (acl_entry db m) ids))"
    using g_strstrip_blank [of t] by auto
  then show ?thesis
    using assms(1-4) t(1) ru by (simp add: acl_get_acl_def Let_def)
qed

lemma acl_list_is_complete_witness:
  "acl_get_acl 5 demo_acl = Some ([dquote] @ ''bob'' @ [dquote] @ '' l '' @ [dquote] @ ''joe'' @ [dquote] @ '' lrswipkxteacd'')"
proof -
  let ?ids = "[''bob'', ''joe'']"
  have owner: "db_get_mailbox_owner 5 demo_acl = (1, 1)"
    by (simp add: db_get_mailbox_owner_def ask_def demo_acl_def)
  have bob: "acl_get_rightsstring_identifier ''bob'' 5 demo_acl = (1, ''l'')"
    unfolding acl_get_rightsstring_identifier_def acl_get_rightsstring_def owner
    by (simp add: demo_acl_def ask_def MailboxState_getAcl_def MailboxState_getId_def MailboxState_setOwner_def
        DBMAIL_ACL_ANYONE_USER_def dm_codes rights_of_map_def acl_of_row_def cat_flag_def g_strlcat_def NR_ACL_FLAGS_def)
  have joe: "acl_get_rightsstring_identifier ''joe'' 5 demo_acl = (1, ''lrswipkxteacd'')"
    unfolding acl_get_rightsstring_identifier_def acl_get_rightsstring_def owner
    by (simp add: demo_acl_def g_strlcat_def acl_right_chars_def NR_ACL_FLAGS_def)
  have q: "dbmail_imap_astring_as_string (Some ''bob'') = [dquote] @ ''bob'' @ [dquote]"
      "dbmail_imap_astring_as_string (Some ''joe'') = [dquote] @ ''joe'' @ [dquote]"
    by code_simp+
  have "acl_get_acl 5 demo_acl = Some (g_strstrip (concat (map (acl_entry demo_acl 5) ?ids)))"
    by (rule acl_list_is_complete [where name = "''joe''"]) (simp_all add: owner bob joe, simp_all add: demo_acl_def)
  then show ?thesis
    by (simp add: acl_entry_def bob joe q g_strstrip_def g_ascii_isspace_def code_def)
qed

end
