(* ===== verification/Store.thy ===== *)
theory Store
  imports Acl MailboxLoad
begin

text \<open>
  The tables behind \<open>dm_db.c\<close> and the operations on messages and quotas: sizes, quota accounting
  (\<open>dm_quota_user_*\<close>, \<open>dm_quota_rebuild_user\<close>), the sequence numbers of mailboxes, copying,
  moving and deleting of messages, deletion of mailboxes, subscriptions, and the quota structure
  of \<open>dm_quota.c\<close>. The queries of \<open>dm_mailboxstate.c\<close> and of \<open>dm_acl.c\<close> are answered from the
  same tables, so that the models of these components run on the store.

  A table with a generated key is an association list in the order of insertion. The constraints
  of the schema (foreign keys with ON DELETE CASCADE, the unique index on owner and name, the
  range of the INT8 sequences) are part of the INSERT and DELETE statements. \<open>st_fails\<close> says which
  statements raise an exception for other reasons; a statement that fails changes nothing.
  The authentication module is read through \<open>st_users\<close>, \<open>st_names\<close>, \<open>st_maxmail\<close> and
  \<open>st_shadow\<close>.
\<close>

section \<open>The tables\<close>

record mailbox_row =
  mbx_owner :: u64
  mbx_name :: string
  mbx_permission :: int
  mbx_seq :: u64
  mbx_no_inferiors :: bool
  mbx_no_select :: bool

record phys_row =
  ph_size :: u64
  ph_rfcsize :: u64
  ph_date :: "string option"

record message_row =
  msg_mailbox :: u64
  msg_phys :: u64
  msg_flags :: "bool list"
  msg_unique_id :: string
  msg_status :: int
  msg_seq :: u64

datatype st_stmt = Q_load u64 nat | Q_find u64 string | Q_noinferiors u64 | Q_selectable u64 | Q_size u64
  | Q_phys u64 | Q_quota u64 | Q_over u64 | Q_sum u64 | Q_mailbox_size u64 | Q_owned u64 | Q_name u64
  | I_mailbox u64 string | X_subscribe u64 u64 | X_copy u64 u64 | X_keywords u64 u64 | X_seq u64 nat
  | X_move u64 u64 | U_quota u64 | U_status u64 | U_message_seq u64 | U_message u64 | U_permission u64
  | U_name u64 | D_message u64 | D_messages u64 | D_mailbox u64 | D_subscription u64 u64
  | I_phys | I_message u64 | U_phys u64 | U_flags u64 | X_keyword u64 string | X_keywords_of u64 | Q_useridnr u64
  | Q_filters u64 u64 | Q_message_id u64 string | U_recent u64 | U_purge u64 | U_noselect u64 | Q_children u64 nat
  | U_expunge u64 | A_acl acl_stmt

record store =
  st_mailboxes :: "(u64 \<times> mailbox_row) list"
  st_messages :: "(u64 \<times> message_row) list"
  st_phys :: "u64 \<Rightarrow> phys_row option"
  st_keywords :: "(u64 \<times> string) list"
  st_subscription :: "(u64 \<times> u64) list"
  st_acl :: "u64 \<times> u64 \<Rightarrow> bool list option"
  st_curmail :: "u64 \<Rightarrow> nat option"
  st_next_mailbox :: u64
  st_next_message :: u64
  st_next_phys :: u64
  st_users :: "string \<Rightarrow> u64 option"
  st_names :: "u64 \<Rightarrow> string option"
  st_maxmail :: "u64 \<Rightarrow> u64 option"
  st_shadow :: "u64 \<Rightarrow> int"
  st_unique :: "u64 \<Rightarrow> string"
  st_seq_strategy :: int
  st_fails :: "st_stmt \<Rightarrow> bool"

definition sequence_end :: u64 where
  "sequence_end = 2 ^ 63 - 1"

text \<open>The key and the row of an INSERT, and the UPDATE of the row with a key.\<close>

definition update_row :: "'k \<Rightarrow> ('v \<Rightarrow> 'v) \<Rightarrow> ('k \<times> 'v) list \<Rightarrow> ('k \<times> 'v) list" where
  "update_row k f = map (\<lambda>(i, v). (i, if i = k then f v else v))"

definition query :: "store \<Rightarrow> st_stmt \<Rightarrow> 'r \<Rightarrow> 'r sql" where
  "query st stmt r = (if st_fails st stmt then None else Some r)"

definition db_update :: "st_stmt \<Rightarrow> (store \<Rightarrow> store) \<Rightarrow> store \<Rightarrow> int \<times> store" where
  "db_update stmt f st = (if st_fails st stmt then (0, st) else (1, f st))"

definition owner_of :: "store \<Rightarrow> u64 \<Rightarrow> u64 option" where
  "owner_of st mailbox_idnr = map_option mbx_owner (map_of (st_mailboxes st) mailbox_idnr)"

text \<open>
  What the statements of \<open>dm_acl.c\<close> see of the store. The INSERT of a row for an unknown mailbox
  violates a foreign key. The list of identifiers of \<open>acl_get_acl\<close>, which no operation here asks
  for, is left empty.
\<close>

definition acl_view :: "store \<Rightarrow> acl_db" where
  "acl_view st =
     \<lparr>acl_rows = st_acl st, acl_owners = owner_of st,
      acl_permissions = (\<lambda>m. map_option mbx_permission (map_of (st_mailboxes st) m)),
      acl_users = st_users st, acl_names = st_names st, acl_identifiers = (\<lambda>_. []),
      acl_fails = (\<lambda>s. st_fails st (A_acl s) \<or>
        (case s of S_create u m \<Rightarrow> map_of (st_mailboxes st) m = None | _ \<Rightarrow> False))\<rparr>"

section \<open>The queries of the mailbox state\<close>

definition messages_of :: "store \<Rightarrow> u64 \<Rightarrow> (u64 \<times> message_row) list" where
  "messages_of st mailbox_id = filter (\<lambda>m. msg_mailbox (snd m) = mailbox_id) (st_messages st)"

definition row_live :: "message_row \<Rightarrow> bool" where
  "row_live m \<longleftrightarrow> msg_status m < MESSAGE_STATUS_DELETE"

definition msgrow_of :: "store \<Rightarrow> u64 \<times> message_row \<Rightarrow> msgrow" where
  "msgrow_of st im =
     (case im of (i, m) \<Rightarrow>
        \<lparr>row_flags = msg_flags m,
         row_date = (case st_phys st (msg_phys m) of None \<Rightarrow> None | Some p \<Rightarrow> ph_date p),
         row_rfcsize = (case st_phys st (msg_phys m) of None \<Rightarrow> 0 | Some p \<Rightarrow> ph_rfcsize p),
         row_seq = msg_seq m, row_id = i, row_status = msg_status m,
         row_phys_id = sint (ucast (msg_phys m) :: 32 word)\<rparr>)"

definition count :: "('a \<Rightarrow> bool) \<Rightarrow> 'a list \<Rightarrow> int" where
  "count P xs = int (length (filter P xs))"

definition name_matches :: "mailbox_match \<Rightarrow> string \<Rightarrow> bool" where
  "name_matches m name \<longleftrightarrow>
     (case sensitive m of None \<Rightarrow> True | Some p \<Rightarrow> like (=) p name) \<and> like caseless (insensitive m) name"

text \<open>The conditions of \<open>state_load_messages\<close> on a cold load and on a renewal.\<close>

definition renewed :: "u64 \<Rightarrow> message_row \<Rightarrow> bool" where
  "renewed state_seq m \<longleftrightarrow>
     uint state_seq - 1 \<le> uint (msg_seq m) \<and> msg_status m \<le> MESSAGE_STATUS_DELETE"

text \<open>
  The rows that the queries of \<open>dm_mailboxstate.c\<close> return for a mailbox. Sums over no rows are
  NULL, which reads as 0; the mailbox is reported as subscribed when any user has subscribed to
  it, for the join of the source has no condition on the user.
\<close>

definition mbxdb_of :: "(message_row \<Rightarrow> bool) \<Rightarrow> store \<Rightarrow> u64 \<Rightarrow> mbxdb" where
  "mbxdb_of pick st i =
     (let row = map_of (st_mailboxes st) i;
          msgs = messages_of st i;
          lives = filter (\<lambda>m. row_live (snd m)) msgs;
          chosen = filter (\<lambda>m. pick (snd m)) msgs
      in \<lparr>q_seq = query st (Q_load i 0) (map_option (\<lambda>r. (mbx_name r, mbx_seq r)) row),
          q_permission = query st (Q_load i 1) (map_option mbx_permission row),
          q_counts = query st (Q_load i 2)
            (Some (count (\<lambda>m. \<not> msg_flags (snd m) ! IMAP_FLAG_SEEN) lives,
                   count (\<lambda>m. msg_flags (snd m) ! IMAP_FLAG_SEEN) lives,
                   count (\<lambda>m. msg_flags (snd m) ! IMAP_FLAG_RECENT) lives)),
          q_maxuid = query st (Q_load i 3)
            (Some (if msgs = [] then 0 else Max (set (map fst msgs)) + 1)),
          q_keywords = query st (Q_load i 4)
            (remdups (map snd (filter (\<lambda>k. fst k \<in> set (map fst lives)) (st_keywords st)))),
          q_info = query st (Q_load i 5)
            (map_option (\<lambda>r. (i \<in> set (map snd (st_subscription st)), mbx_owner r, mbx_name r,
                              mbx_no_select r, mbx_no_inferiors r)) row),
          q_children = (\<lambda>owner m. query st (Q_load i 6)
            (Some (count (\<lambda>r. mbx_owner (snd r) = owner \<and>
                                (case m of None \<Rightarrow> True | Some m \<Rightarrow> name_matches m (mbx_name (snd r))))
                     (st_mailboxes st)))),
          q_messages = query st (Q_load i 7) (map (msgrow_of st) (rev (sort_key (msg_seq \<circ> snd) chosen))),
          q_message_keywords = query st (Q_load i 8)
            (filter (\<lambda>k. fst k \<in> set (map fst chosen)) (st_keywords st))\<rparr>)"

text \<open>
  \<open>MailboxState_new (NULL, id)\<close> and \<open>MailboxState_update (M)\<close> with the default settings of
  \<open>mailbox_sync_deleted\<close> and \<open>mailbox_sync_batch_size\<close>.
\<close>

definition load_mailbox :: "store \<Rightarrow> u64 \<Rightarrow> mailboxstate option" where
  "load_mailbox st i = MailboxState_new (st_names st) 1 64 (mbxdb_of row_live st i) i"

definition refresh_mailbox :: "int \<Rightarrow> store \<Rightarrow> mailboxstate \<Rightarrow> mailboxstate option \<times> mailboxstate" where
  "refresh_mailbox max_iterations st M =
     MailboxState_update (st_names st) max_iterations 1 64
       (mbxdb_of (if 0 < max_iterations \<and> max_iterations - 1 \<le> sint (mb_differential_iterations M) then row_live
                  else renewed (mb_state_seq M)) st (mb_id M)) M"

definition mailbox_is_writable :: "store \<Rightarrow> u64 \<Rightarrow> bool option" where
  "mailbox_is_writable st mailbox_idnr =
     map_option (\<lambda>M. fst (MailboxState_getPermission (q_permission (mbxdb_of row_live st mailbox_idnr)) M) = IMAPPERM_READWRITE)
       (load_mailbox st mailbox_idnr)"

section \<open>Sizes and quotas\<close>

definition db_get_physmessage_id :: "store \<Rightarrow> u64 \<Rightarrow> int \<times> u64" where
  "db_get_physmessage_id st message_idnr =
     (case query st (Q_phys message_idnr) (map_of (st_messages st) message_idnr) of
        None \<Rightarrow> (DM_EGENERAL, 0)
      | Some row \<Rightarrow>
          let i = (case row of None \<Rightarrow> 0 | Some m \<Rightarrow> msg_phys m)
          in (if i = 0 then DM_EGENERAL else DM_SUCCESS, i))"

definition DBMAIL_DELIVERY_USERNAME :: string where
  "DBMAIL_DELIVERY_USERNAME = ''__@!internal_delivery_user!@__''"

definition user_idnr_is_delivery_user_idnr :: "store \<Rightarrow> u64 \<Rightarrow> int" where
  "user_idnr_is_delivery_user_idnr st user_idnr =
     (case st_users st DBMAIL_DELIVERY_USERNAME of
        None \<Rightarrow> DM_EQUERY
      | Some i \<Rightarrow> if i = user_idnr then DM_EGENERAL else DM_SUCCESS)"

definition change_curmail :: "u64 \<Rightarrow> (nat \<Rightarrow> nat) \<Rightarrow> store \<Rightarrow> store" where
  "change_curmail user_idnr f st =
     st\<lparr>st_curmail := (st_curmail st)(user_idnr := map_option f (st_curmail st user_idnr))\<rparr>"

definition not_delivery_user :: "u64 \<Rightarrow> (nat \<Rightarrow> nat) \<Rightarrow> store \<Rightarrow> int \<times> store" where
  "not_delivery_user user_idnr f st =
     (let result = user_idnr_is_delivery_user_idnr st user_idnr
      in if result = DM_EQUERY then (DM_EQUERY, st)
         else if result = DM_EGENERAL then (DM_EGENERAL, st)
         else db_update (U_quota user_idnr) (change_curmail user_idnr f) st)"

text \<open>The size is not written (\<open>None\<close>) when there is no row or the query fails.\<close>

definition dm_quota_user_get :: "store \<Rightarrow> u64 \<Rightarrow> int \<times> u64 option" where
  "dm_quota_user_get st user_idnr =
     (DM_EGENERAL,
      case query st (Q_quota user_idnr) (st_curmail st user_idnr) of
        None \<Rightarrow> None | Some row \<Rightarrow> map_option of_nat row)"

definition dm_quota_user_set :: "u64 \<Rightarrow> u64 \<Rightarrow> store \<Rightarrow> int \<times> store" where
  "dm_quota_user_set user_idnr size' st = not_delivery_user user_idnr (\<lambda>_. unat size') st"

definition dm_quota_user_inc :: "u64 \<Rightarrow> u64 \<Rightarrow> store \<Rightarrow> int \<times> store" where
  "dm_quota_user_inc user_idnr size' st = not_delivery_user user_idnr (\<lambda>n. n + unat size') st"

definition dm_quota_user_dec :: "u64 \<Rightarrow> u64 \<Rightarrow> store \<Rightarrow> int \<times> store" where
  "dm_quota_user_dec user_idnr size' st =
     not_delivery_user user_idnr (\<lambda>n. if unat size' \<le> n then n - unat size' else 0) st"

definition dm_quota_user_validate :: "store \<Rightarrow> u64 \<Rightarrow> u64 \<Rightarrow> int" where
  "dm_quota_user_validate st user_idnr msg_size =
     (case st_maxmail st user_idnr of
        None \<Rightarrow> DM_EQUERY
      | Some maxmail_size \<Rightarrow>
          if maxmail_size = 0 then 1
          else (case query st (Q_over user_idnr)
                       (case st_curmail st user_idnr of
                          None \<Rightarrow> False | Some cur \<Rightarrow> unat maxmail_size < cur + unat msg_size) of
                  None \<Rightarrow> 1
                | Some over \<Rightarrow> if over then 0 else 1))"

definition row_size :: "store \<Rightarrow> message_row \<Rightarrow> nat" where
  "row_size st m = (case st_phys st (msg_phys m) of None \<Rightarrow> 0 | Some p \<Rightarrow> unat (ph_size p))"

definition total_size :: "store \<Rightarrow> (message_row \<Rightarrow> bool) \<Rightarrow> nat" where
  "total_size st P = sum_list (map (row_size st) (filter P (map snd (st_messages st))))"

definition dm_quota_rebuild_user :: "u64 \<Rightarrow> store \<Rightarrow> int \<times> store" where
  "dm_quota_rebuild_user user_idnr st =
     (case query st (Q_sum user_idnr)
             (total_size st (\<lambda>m. owner_of st (msg_mailbox m) = Some user_idnr \<and> row_live m)) of
        None \<Rightarrow> (DM_EQUERY, st)
      | Some quotum \<Rightarrow>
          case dm_quota_user_set user_idnr (of_nat quotum) st of
            (r, st) \<Rightarrow> (if r = 0 then DM_EQUERY else DM_SUCCESS, st))"

definition db_get_mailbox_size :: "store \<Rightarrow> u64 \<Rightarrow> bool \<Rightarrow> int \<times> u64" where
  "db_get_mailbox_size st mailbox_idnr only_deleted =
     (DM_SUCCESS,
      case query st (Q_mailbox_size mailbox_idnr)
             (total_size st (\<lambda>m. msg_mailbox m = mailbox_idnr \<and> row_live m \<and>
                                 (only_deleted \<longrightarrow> msg_flags m ! IMAP_FLAG_DELETED))) of
        None \<Rightarrow> 0 | Some n \<Rightarrow> of_nat n)"

definition message_get_size :: "store \<Rightarrow> u64 \<Rightarrow> u64" where
  "message_get_size st message_idnr =
     (case query st (Q_size message_idnr) (map_of (st_messages st) message_idnr) of
        Some (Some m) \<Rightarrow> (case st_phys st (msg_phys m) of None \<Rightarrow> 0 | Some p \<Rightarrow> ph_size p)
      | _ \<Rightarrow> 0)"

section \<open>Sequence numbers\<close>

definition bump :: "mailbox_row \<Rightarrow> mailbox_row" where
  "bump r = r\<lparr>mbx_seq := mbx_seq r + 1\<rparr>"

text \<open>\<open>UPDATE mailboxes SET seq=seq+1\<close>; a value out of the range of the column is an exception.\<close>

definition bump_seq :: "u64 \<Rightarrow> store \<Rightarrow> store sql" where
  "bump_seq mailbox_id st =
     (if st_fails st (X_seq mailbox_id 1) \<or>
         (\<exists>r \<in> set (st_mailboxes st). fst r = mailbox_id \<and> sequence_end \<le> mbx_seq (snd r))
      then None
      else Some (st\<lparr>st_mailboxes := update_row mailbox_id bump (st_mailboxes st)\<rparr>))"

definition read_seq :: "u64 \<Rightarrow> store \<Rightarrow> u64 sql" where
  "read_seq mailbox_id st =
     query st (X_seq mailbox_id 2)
       (case map_of (st_mailboxes st) mailbox_id of None \<Rightarrow> 0 | Some r \<Rightarrow> mbx_seq r)"

definition raise_seq :: "u64 \<Rightarrow> message_row \<Rightarrow> message_row" where
  "raise_seq seq m = (if msg_seq m < seq then m\<lparr>msg_seq := seq\<rparr> else m)"

text \<open>
  Strategy 1 is one transaction; strategy 2 commits every statement on its own, and runs the
  increment twice.
\<close>

definition seq_update_1 :: "u64 \<Rightarrow> u64 \<Rightarrow> store \<Rightarrow> u64 \<times> store" where
  "seq_update_1 mailbox_id message_id st =
     (case bump_seq mailbox_id st of
        None \<Rightarrow> (0, st)
      | Some st1 \<Rightarrow>
          (case read_seq mailbox_id st1 of
             None \<Rightarrow> (0, st)
           | Some seq \<Rightarrow>
               if message_id = 0 then (seq, st1)
               else if st_fails st (X_seq mailbox_id 3) then (seq, st)
               else (seq, st1\<lparr>st_messages := update_row message_id (raise_seq seq) (st_messages st1)\<rparr>)))"

definition join_seq :: "store \<Rightarrow> message_row \<Rightarrow> message_row" where
  "join_seq st m = (case map_of (st_mailboxes st) (msg_mailbox m) of
                      None \<Rightarrow> m | Some r \<Rightarrow> m\<lparr>msg_seq := mbx_seq r\<rparr>)"

definition seq_update_2 :: "u64 \<Rightarrow> u64 \<Rightarrow> store \<Rightarrow> u64 \<times> store" where
  "seq_update_2 mailbox_id message_id st =
     (case bump_seq mailbox_id st of
        None \<Rightarrow> (0, st)
      | Some st1 \<Rightarrow>
          (case bump_seq mailbox_id st1 of
             None \<Rightarrow> (0, st1)
           | Some st2 \<Rightarrow>
               (case read_seq mailbox_id st2 of
                  None \<Rightarrow> (0, st2)
                | Some seq \<Rightarrow>
                    if message_id = 0 \<or> st_fails st (X_seq mailbox_id 3) then (seq, st2)
                    else (seq, st2\<lparr>st_messages := update_row message_id (join_seq st2) (st_messages st2)\<rparr>))))"

definition db_mailbox_seq_update :: "u64 \<Rightarrow> u64 \<Rightarrow> store \<Rightarrow> u64 \<times> store" where
  "db_mailbox_seq_update mailbox_id message_id st =
     (if st_seq_strategy st = 1 then seq_update_1 mailbox_id message_id st
      else if st_seq_strategy st = 2 then seq_update_2 mailbox_id message_id st
      else (0, st))"

definition db_message_set_seq :: "u64 \<Rightarrow> u64 \<Rightarrow> store \<Rightarrow> store" where
  "db_message_set_seq message_id seq st =
     (if st_fails st (U_message_seq message_id) then st
      else st\<lparr>st_messages := update_row message_id (raise_seq seq) (st_messages st)\<rparr>)"

section \<open>Messages\<close>

definition db_set_message_status :: "u64 \<Rightarrow> int \<Rightarrow> store \<Rightarrow> int \<times> store" where
  "db_set_message_status message_idnr status =
     db_update (U_status message_idnr)
       (\<lambda>st. st\<lparr>st_messages := update_row message_idnr (\<lambda>m. m\<lparr>msg_status := status\<rparr>) (st_messages st)\<rparr>)"

text \<open>DELETE FROM messages, which cascades to the keywords.\<close>

definition remove_messages :: "(u64 \<times> message_row \<Rightarrow> bool) \<Rightarrow> store \<Rightarrow> store" where
  "remove_messages P st =
     (let ms = filter (\<lambda>m. \<not> P m) (st_messages st)
      in st\<lparr>st_messages := ms, st_keywords := filter (\<lambda>k. fst k \<in> set (map fst ms)) (st_keywords st)\<rparr>)"

definition db_delete_message :: "u64 \<Rightarrow> store \<Rightarrow> int \<times> store" where
  "db_delete_message message_idnr = db_update (D_message message_idnr) (remove_messages (\<lambda>m. fst m = message_idnr))"

definition db_move_message :: "u64 \<Rightarrow> u64 \<Rightarrow> store \<Rightarrow> int \<times> store" where
  "db_move_message message_id mailbox_id st =
     (if map_of (st_mailboxes st) mailbox_id = None \<and> message_id \<in> set (map fst (st_messages st)) then (0, st)
      else db_update (U_message message_id)
        (\<lambda>st. st\<lparr>st_messages := update_row message_id (\<lambda>m. m\<lparr>msg_mailbox := mailbox_id\<rparr>) (st_messages st)\<rparr>) st)"

definition db_movemsg :: "u64 \<Rightarrow> u64 \<Rightarrow> store \<Rightarrow> int \<times> store" where
  "db_movemsg mailbox_to mailbox_from st =
     (let moved = messages_of st mailbox_from
      in if st_fails st (X_move mailbox_to mailbox_from) \<or>
            (moved \<noteq> [] \<and> map_of (st_mailboxes st) mailbox_to = None) then (DM_EQUERY, st)
         else let st = st\<lparr>st_messages := map (\<lambda>(i, m). (i, if msg_mailbox m = mailbox_from
                                                  then m\<lparr>msg_mailbox := mailbox_to\<rparr> else m)) (st_messages st)\<rparr>
              in if moved = [] then (DM_SUCCESS, st)
                 else (DM_SUCCESS,
                       snd (db_mailbox_seq_update mailbox_from 0
                              (snd (db_mailbox_seq_update mailbox_to 0 st)))))"

text \<open>
  INSERT INTO messages with its foreign keys. The key comes from a sequence of type INT8, which
  raises an exception at its end.
\<close>

definition insert_message :: "st_stmt \<Rightarrow> message_row \<Rightarrow> store \<Rightarrow> (u64 \<times> store) sql" where
  "insert_message stmt m st =
     (if st_fails st stmt \<or> map_of (st_mailboxes st) (msg_mailbox m) = None \<or>
         st_phys st (msg_phys m) = None \<or> sequence_end \<le> st_next_message st
      then None
      else Some (st_next_message st,
                 st\<lparr>st_messages := st_messages st @ [(st_next_message st, m)],
                    st_next_message := st_next_message st + 1\<rparr>))"

text \<open>
  The row that \<open>db_copymsg\<close> inserts. The local variable \<open>tmp_physmessage\<close> is an \<open>int\<close>: the key
  is cut to 32 bits and sign extended again.
\<close>

definition copied_row :: "store \<Rightarrow> u64 \<Rightarrow> u64 \<Rightarrow> message_row" where
  "copied_row st msg_idnr mailbox_to =
     (case map_of (st_messages st) msg_idnr of
        None \<Rightarrow> \<lparr>msg_mailbox = mailbox_to, msg_phys = 0, msg_flags = replicate IMAP_NFLAGS False,
                 msg_unique_id = st_unique st msg_idnr, msg_status = 0, msg_seq = 0\<rparr>
      | Some m \<Rightarrow> \<lparr>msg_mailbox = mailbox_to, msg_phys = scast (ucast (msg_phys m) :: 32 word),
                   msg_flags = msg_flags m, msg_unique_id = st_unique st msg_idnr,
                   msg_status = msg_status m, msg_seq = 0\<rparr>)"

text \<open>INSERT INTO keywords ... SELECT; an unknown message or a duplicate is an exception.\<close>

definition copy_keywords :: "u64 \<Rightarrow> u64 \<Rightarrow> store \<Rightarrow> store" where
  "copy_keywords newmsg_idnr msg_idnr st =
     (let ks = map snd (filter (\<lambda>k. fst k = msg_idnr) (st_keywords st))
      in if st_fails st (X_keywords newmsg_idnr msg_idnr) \<or>
            (ks \<noteq> [] \<and> map_of (st_messages st) newmsg_idnr = None) \<or>
            set (map (Pair newmsg_idnr) ks) \<inter> set (st_keywords st) \<noteq> {}
         then st else st\<lparr>st_keywords := st_keywords st @ map (Pair newmsg_idnr) ks\<rparr>)"

text \<open>\<open>*newmsg_idnr\<close> keeps the value of the caller when the copy is not made.\<close>

definition db_copymsg :: "u64 \<Rightarrow> u64 \<Rightarrow> u64 \<Rightarrow> u64 \<Rightarrow> store \<Rightarrow> int \<times> u64 \<times> store" where
  "db_copymsg msg_idnr mailbox_to user_idnr newmsg_idnr st =
     (let msgsize = message_get_size st msg_idnr;
          valid = dm_quota_user_validate st user_idnr msgsize
      in if msgsize = 0 then (DM_EQUERY, newmsg_idnr, st)
         else if valid = DM_EQUERY then (DM_EQUERY, newmsg_idnr, st)
         else if valid = 0 then (DM_OVERQUOTA, newmsg_idnr, st)
         else let (newmsg_idnr, st) =
                    (case insert_message (X_copy msg_idnr mailbox_to) (copied_row st msg_idnr mailbox_to) st of
                       None \<Rightarrow> (newmsg_idnr, st) | Some r \<Rightarrow> r);
                  st = copy_keywords newmsg_idnr msg_idnr st;
                  st = snd (db_mailbox_seq_update mailbox_to newmsg_idnr st);
                  (r, st) = dm_quota_user_inc user_idnr msgsize st
              in (if r = 0 then DM_EQUERY else DM_EGENERAL, newmsg_idnr, st))"

section \<open>Mailboxes and subscriptions\<close>

text \<open>DELETE FROM mailboxes, which cascades to messages, keywords, subscriptions and rights.\<close>

definition remove_mailbox :: "u64 \<Rightarrow> store \<Rightarrow> store" where
  "remove_mailbox mailbox_idnr st =
     (let st = remove_messages (\<lambda>m. msg_mailbox (snd m) = mailbox_idnr) st
      in st\<lparr>st_mailboxes := filter (\<lambda>r. fst r \<noteq> mailbox_idnr) (st_mailboxes st),
            st_subscription := filter (\<lambda>s. snd s \<noteq> mailbox_idnr) (st_subscription st),
            st_acl := (\<lambda>k. if snd k = mailbox_idnr then None else st_acl st k)\<rparr>)"

definition mailbox_delete :: "u64 \<Rightarrow> store \<Rightarrow> int \<times> store" where
  "mailbox_delete mailbox_idnr = db_update (D_mailbox mailbox_idnr) (remove_mailbox mailbox_idnr)"

definition mailbox_empty :: "u64 \<Rightarrow> store \<Rightarrow> int \<times> store" where
  "mailbox_empty mailbox_idnr =
     db_update (D_messages mailbox_idnr) (remove_messages (\<lambda>m. msg_mailbox (snd m) = mailbox_idnr))"

definition db_delete_mailbox :: "u64 \<Rightarrow> bool \<Rightarrow> bool \<Rightarrow> store \<Rightarrow> (int \<times> store) option" where
  "db_delete_mailbox mailbox_idnr only_empty update_curmail_size st =
     (case db_get_mailbox_owner mailbox_idnr (acl_view st) of (result, user_idnr) \<Rightarrow>
        if result = DM_EQUERY then Some (DM_EQUERY, st)
        else if result = 0 then Some (DM_EGENERAL, st)
        else let mailbox_size = (if update_curmail_size then snd (db_get_mailbox_size st mailbox_idnr False) else 0)
             in do {
               writable \<leftarrow> mailbox_is_writable st mailbox_idnr;
               if \<not> writable then Some (DM_EGENERAL, st)
               else case (if only_empty then mailbox_empty mailbox_idnr st else mailbox_delete mailbox_idnr st) of
                      (r, st) \<Rightarrow>
                        if r = 0 then Some (DM_EGENERAL, st)
                        else if \<not> update_curmail_size then Some (DM_SUCCESS, st)
                        else case dm_quota_user_dec user_idnr mailbox_size st of
                               (r, st) \<Rightarrow> Some (if r = 0 then DM_EQUERY else DM_SUCCESS, st)
             })"

fun empty_loop :: "u64 list \<Rightarrow> bool \<Rightarrow> store \<Rightarrow> (int \<times> store) option" where
  "empty_loop [] only_empty st = Some (0, st)"
| "empty_loop (i # ids) only_empty st = do {
     (r, st) \<leftarrow> db_delete_mailbox i only_empty True st;
     if r \<noteq> 0 then Some (- 1, st) else empty_loop ids only_empty st
   }"

definition db_empty_mailbox :: "u64 \<Rightarrow> bool \<Rightarrow> store \<Rightarrow> (int \<times> store) option" where
  "db_empty_mailbox user_idnr only_empty st =
     (case query st (Q_owned user_idnr) (map fst (filter (\<lambda>r. mbx_owner (snd r) = user_idnr) (st_mailboxes st))) of
        None \<Rightarrow> Some (DM_EQUERY, st)
      | Some ids \<Rightarrow> if ids = [] then Some (DM_SUCCESS, st) else empty_loop (rev ids) only_empty st)"

definition db_isselectable :: "store \<Rightarrow> u64 \<Rightarrow> int" where
  "db_isselectable st mailbox_idnr =
     (case query st (Q_selectable mailbox_idnr) (map_of (st_mailboxes st) mailbox_idnr) of
        None \<Rightarrow> DM_EQUERY
      | Some row \<Rightarrow> if (case row of None \<Rightarrow> False | Some r \<Rightarrow> mbx_no_select r) then 0 else 1)"

definition db_noinferiors :: "store \<Rightarrow> u64 \<Rightarrow> int" where
  "db_noinferiors st mailbox_idnr =
     (case query st (Q_noinferiors mailbox_idnr) (map_of (st_mailboxes st) mailbox_idnr) of
        None \<Rightarrow> DM_EQUERY
      | Some row \<Rightarrow> if (case row of None \<Rightarrow> False | Some r \<Rightarrow> mbx_no_inferiors r) then 1 else 0)"

definition db_mailbox_set_permission :: "u64 \<Rightarrow> int \<Rightarrow> store \<Rightarrow> int \<times> store" where
  "db_mailbox_set_permission mailbox_id permission =
     db_update (U_permission mailbox_id)
       (\<lambda>st. st\<lparr>st_mailboxes := update_row mailbox_id (\<lambda>r. r\<lparr>mbx_permission := permission\<rparr>) (st_mailboxes st)\<rparr>)"

text \<open>The unique index of the table of mailboxes.\<close>

definition name_taken :: "store \<Rightarrow> u64 \<Rightarrow> string \<Rightarrow> bool" where
  "name_taken st owner name \<longleftrightarrow> (owner, name) \<in> set (map (\<lambda>r. (mbx_owner (snd r), mbx_name (snd r))) (st_mailboxes st))"

definition db_setmailboxname :: "u64 \<Rightarrow> string \<Rightarrow> store \<Rightarrow> int \<times> store" where
  "db_setmailboxname mailbox_idnr name st =
     (if st_fails st (U_name mailbox_idnr) \<or>
         (\<exists>r \<in> set (st_mailboxes st). fst r \<noteq> mailbox_idnr \<and> mbx_name (snd r) = name \<and>
            owner_of st mailbox_idnr = Some (mbx_owner (snd r)))
      then (DM_EQUERY, st)
      else (DM_SUCCESS, st\<lparr>st_mailboxes := update_row mailbox_idnr (\<lambda>r. r\<lparr>mbx_name := name\<rparr>) (st_mailboxes st)\<rparr>))"

definition db_getmailboxname :: "store \<Rightarrow> u64 \<Rightarrow> u64 \<Rightarrow> int \<times> string option" where
  "db_getmailboxname st mailbox_idnr user_idnr =
     (case db_get_mailbox_owner mailbox_idnr (acl_view st) of (result, owner_idnr) \<Rightarrow>
        if result \<le> 0 then (DM_EQUERY, None)
        else let tmp_name = (case query st (Q_name mailbox_idnr) (map_of (st_mailboxes st) mailbox_idnr) of
                               None \<Rightarrow> None | Some row \<Rightarrow> map_option mbx_name row)
             in (case mailbox_add_namespace (st_names st) tmp_name owner_idnr user_idnr of
                   None \<Rightarrow> (DM_EQUERY, None)
                 | Some fq \<Rightarrow> (DM_SUCCESS, Some (take (IMAP_MAX_MAILBOX_NAMELEN - 1) fq))))"

text \<open>An unknown mailbox violates the foreign key of the table of subscriptions.\<close>

definition db_subscribe :: "u64 \<Rightarrow> u64 \<Rightarrow> store \<Rightarrow> int \<times> store" where
  "db_subscribe mailbox_idnr user_idnr st =
     (if st_fails st (X_subscribe mailbox_idnr user_idnr) then (DM_EQUERY, st)
      else if (user_idnr, mailbox_idnr) \<in> set (st_subscription st) then (1, st)
      else if map_of (st_mailboxes st) mailbox_idnr = None then (DM_EQUERY, st)
      else (1, st\<lparr>st_subscription := st_subscription st @ [(user_idnr, mailbox_idnr)]\<rparr>))"

definition db_unsubscribe :: "u64 \<Rightarrow> u64 \<Rightarrow> store \<Rightarrow> int \<times> store" where
  "db_unsubscribe mailbox_idnr user_idnr =
     db_update (D_subscription mailbox_idnr user_idnr)
       (\<lambda>st. st\<lparr>st_subscription := filter (\<lambda>s. s \<noteq> (user_idnr, mailbox_idnr)) (st_subscription st)\<rparr>)"

text \<open>
  INSERT INTO mailboxes: the key comes from a sequence of type INT8. \<open>None\<close> of
  \<open>db_createmailbox\<close> is the abort in \<open>mailbox_remove_namespace\<close>; \<open>mailbox_idnr\<close> is 0 when no
  mailbox was created.
\<close>

definition insert_mailbox :: "u64 \<Rightarrow> string \<Rightarrow> store \<Rightarrow> (u64 \<times> store) sql" where
  "insert_mailbox owner name st =
     (if st_fails st (I_mailbox owner name) \<or> name_taken st owner name \<or> sequence_end \<le> st_next_mailbox st
      then None
      else Some (st_next_mailbox st,
                 st\<lparr>st_mailboxes := st_mailboxes st @
                      [(st_next_mailbox st, \<lparr>mbx_owner = owner, mbx_name = name, mbx_permission = IMAPPERM_READWRITE,
                                             mbx_seq = 1, mbx_no_inferiors = False, mbx_no_select = False\<rparr>)],
                    st_next_mailbox := st_next_mailbox st + 1\<rparr>))"

definition db_createmailbox :: "string \<Rightarrow> u64 \<Rightarrow> store \<Rightarrow> (int \<times> u64 \<times> store) option" where
  "db_createmailbox name owner_idnr st =
     (if st_shadow st owner_idnr < 0 then Some (DM_EQUERY, 0, st)
      else (case mailbox_remove_namespace name of
              None \<Rightarrow> None
            | Some p \<Rightarrow>
                (case ns_name p of
                   None \<Rightarrow> Some (DM_EGENERAL, 0, st)
                 | Some simple_name \<Rightarrow>
                     (case insert_mailbox owner_idnr simple_name st of
                        None \<Rightarrow> Some (DM_EQUERY, 0, st)
                      | Some (i, st) \<Rightarrow> Some (DM_SUCCESS, i, st)))))"

text \<open>\<open>acl_set_rights\<close> on the rows of the store.\<close>

definition store_set_rights :: "u64 \<Rightarrow> u64 \<Rightarrow> string \<Rightarrow> store \<Rightarrow> int \<times> store" where
  "store_set_rights userid mboxid rightsstring st =
     (case acl_set_rights userid mboxid rightsstring (acl_view st) of
        (r, db) \<Rightarrow> (r, st\<lparr>st_acl := acl_rows db\<rparr>))"

section \<open>The quota structure\<close>

record resource_limit =
  rl_usage :: u64
  rl_limit :: u64

record quota =
  q_root :: string
  q_resource :: "resource_limit list"

definition QUOTA_ROOT_SIZE :: nat where
  "QUOTA_ROOT_SIZE = 128"

definition quota_alloc :: "nat \<Rightarrow> quota" where
  "quota_alloc n_resources = \<lparr>q_root = [], q_resource = replicate n_resources \<lparr>rl_usage = 0, rl_limit = 0\<rparr>\<rparr>"

text \<open>Writing behind the last resource is out of bounds.\<close>

definition quota_set_resource_limit :: "quota \<Rightarrow> nat \<Rightarrow> u64 \<Rightarrow> u64 \<Rightarrow> quota option" where
  "quota_set_resource_limit q resource_idx usage limit =
     (if resource_idx < length (q_resource q)
      then Some (q\<lparr>q_resource := (q_resource q)[resource_idx := \<lparr>rl_usage = usage, rl_limit = limit\<rparr>]\<rparr>)
      else None)"

definition quota_get_root :: "quota \<Rightarrow> string" where
  "quota_get_root q = q_root q"

definition quota_set_root :: "quota \<Rightarrow> string \<Rightarrow> int \<times> quota" where
  "quota_set_root q root = (0, q\<lparr>q_root := take (QUOTA_ROOT_SIZE - 2) root\<rparr>)"

definition quota_get_limit :: "quota \<Rightarrow> u64 option" where
  "quota_get_limit q = (case q_resource q of [] \<Rightarrow> None | r # _ \<Rightarrow> Some (rl_limit r))"

definition quota_get_usage :: "quota \<Rightarrow> u64 option" where
  "quota_get_usage q = (case q_resource q of [] \<Rightarrow> None | r # _ \<Rightarrow> Some (rl_usage r))"

text \<open>
  The quota or the error message. \<open>junk\<close> is what the local variable \<open>usage\<close> holds before it is
  assigned.
\<close>

definition quota_get_quota :: "u64 \<Rightarrow> store \<Rightarrow> u64 \<Rightarrow> string \<Rightarrow> (string + quota) option" where
  "quota_get_quota junk st useridnr quotaroot =
     (if quotaroot \<noteq> [] then Some (Inl ''unknown quota root'')
      else (case st_maxmail st useridnr of
              None \<Rightarrow> Some (Inl ''invalid user'')
            | Some maxmail_size \<Rightarrow>
                (case dm_quota_user_get st useridnr of (r, size') \<Rightarrow>
                   if r = - 1 then Some (Inl ''internal error'')
                   else let usage = (case size' of None \<Rightarrow> junk | Some u \<Rightarrow> u);
                            (r, q) = quota_set_root (quota_alloc 1) quotaroot
                        in if r \<noteq> 0 then Some (Inl ''out of memory'')
                           else map_option Inr (quota_set_resource_limit q 0 usage maxmail_size))))"

section \<open>The invariant of the tables\<close>

definition ids_ok :: "(u64 \<times> 'v) list \<Rightarrow> u64 \<Rightarrow> bool" where
  "ids_ok rows next_id \<longleftrightarrow>
     distinct (map fst rows) \<and> (\<forall>i \<in> set (map fst rows). 0 < i \<and> i < next_id) \<and>
     0 < next_id \<and> next_id \<le> sequence_end"

definition message_ok :: "store \<Rightarrow> message_row \<Rightarrow> bool" where
  "message_ok st m \<longleftrightarrow>
     msg_mailbox m \<in> set (map fst (st_mailboxes st)) \<and> st_phys st (msg_phys m) \<noteq> None \<and>
     length (msg_flags m) = IMAP_NFLAGS"

definition store_wf :: "store \<Rightarrow> bool" where
  "store_wf st \<longleftrightarrow>
     ids_ok (st_mailboxes st) (st_next_mailbox st) \<and> ids_ok (st_messages st) (st_next_message st) \<and>
     distinct (map (\<lambda>r. (mbx_owner (snd r), mbx_name (snd r))) (st_mailboxes st)) \<and>
     (\<forall>m \<in> set (st_messages st). message_ok st (snd m)) \<and>
     distinct (st_keywords st) \<and> fst ` set (st_keywords st) \<subseteq> set (map fst (st_messages st)) \<and>
     distinct (st_subscription st) \<and> snd ` set (st_subscription st) \<subseteq> set (map fst (st_mailboxes st)) \<and>
     (\<forall>u m r. st_acl st (u, m) = Some r \<longrightarrow> m \<in> set (map fst (st_mailboxes st)) \<and> length r = 11)"

lemma update_row_keys [simp]: "map fst (update_row k f rows) = map fst rows"
  by (simp add: update_row_def comp_def case_prod_beta)

lemma set_update_row:
  "(i, v) \<in> set (update_row k f rows) \<longleftrightarrow> (\<exists>w. (i, w) \<in> set rows \<and> v = (if i = k then f w else w))"
  by (induction rows) (auto simp: update_row_def)

lemma map_of_update_row:
  "map_of (update_row k f rows) i = (if i = k then map_option f (map_of rows i) else map_of rows i)"
  by (induction rows) (auto simp: update_row_def)

lemma update_row_column:
  assumes "\<And>v. g (f v) = g v"
  shows "map (\<lambda>r. g (snd r)) (update_row k f rows) = map (\<lambda>r. g (snd r)) rows"
  using assms by (induction rows) (auto simp: update_row_def)

lemma in_keys: "i \<in> set (map fst rows) \<longleftrightarrow> map_of rows i \<noteq> None"
  by (simp add: map_of_eq_None_iff)

lemma word_succ_bound:
  fixes n e :: u64
  assumes "n < e"
  shows "n < n + 1" "n + 1 \<le> e" "unat (n + 1) = Suc (unat n)"
proof -
  have lt: "unat n < unat e" using assms by (simp add: word_less_nat_alt)
  moreover have "unat e < 2 ^ LENGTH(64)" by (rule unsigned_less)
  ultimately show suc: "unat (n + 1) = Suc (unat n)"
    by (simp add: unat_word_ariths)
  show "n < n + 1" "n + 1 \<le> e"
    using suc lt by (simp_all add: word_less_nat_alt word_le_nat_alt)
qed

lemma ids_ok_insert:
  assumes "ids_ok rows n" "n < sequence_end"
  shows "ids_ok (rows @ [(n, v)]) (n + 1)"
  using assms(1) word_succ_bound [OF assms(2)] unfolding ids_ok_def
  by (fastforce intro: order.strict_trans)

lemma ids_ok_update [simp]: "ids_ok (update_row k f rows) n = ids_ok rows n"
  by (simp add: ids_ok_def del: set_map)

lemma ids_ok_filter: "ids_ok rows n \<Longrightarrow> ids_ok (filter P rows) n"
  by (auto simp: ids_ok_def distinct_map_filter)

lemma wf_intro:
  assumes "store_wf st" "st_mailboxes st' = st_mailboxes st" "st_messages st' = st_messages st"
    and "st_phys st' = st_phys st" "st_keywords st' = st_keywords st" "st_subscription st' = st_subscription st"
    and "st_acl st' = st_acl st" "st_next_mailbox st' = st_next_mailbox st" "st_next_message st' = st_next_message st"
  shows "store_wf st'"
  using assms(1) unfolding store_wf_def message_ok_def assms(2-) .

lemma wf_change_curmail: "store_wf st \<Longrightarrow> store_wf (change_curmail u f st)"
  by (erule wf_intro) (simp_all add: change_curmail_def)

lemma wf_update_mailbox:
  assumes "store_wf st" "\<And>r. mbx_owner (f r) = mbx_owner r" "\<And>r. mbx_name (f r) = mbx_name r"
  shows "store_wf (st\<lparr>st_mailboxes := update_row k f (st_mailboxes st)\<rparr>)"
proof -
  have "map (\<lambda>r. (mbx_owner (snd r), mbx_name (snd r))) (update_row k f (st_mailboxes st)) =
      map (\<lambda>r. (mbx_owner (snd r), mbx_name (snd r))) (st_mailboxes st)"
    by (rule update_row_column [of "\<lambda>r. (mbx_owner r, mbx_name r)"]) (simp add: assms)
  then show ?thesis
    using assms(1) by (simp add: store_wf_def message_ok_def del: set_map)
qed

lemma wf_messages:
  assumes "store_wf st" "map fst ms = map fst (st_messages st)" "\<forall>m \<in> set ms. message_ok st (snd m)"
  shows "store_wf (st\<lparr>st_messages := ms\<rparr>)"
  using assms by (simp add: store_wf_def ids_ok_def message_ok_def del: set_map)

lemma wf_map_messages:
  assumes "store_wf st" "\<And>i m. (i, m) \<in> set (st_messages st) \<Longrightarrow> message_ok st m \<Longrightarrow> message_ok st (g i m)"
  shows "store_wf (st\<lparr>st_messages := map (\<lambda>(i, m). (i, g i m)) (st_messages st)\<rparr>)"
  using assms by (intro wf_messages) (auto simp: store_wf_def)

lemma wf_update_message:
  assumes "store_wf st" "\<And>m. message_ok st m \<Longrightarrow> message_ok st (f m)"
  shows "store_wf (st\<lparr>st_messages := update_row k f (st_messages st)\<rparr>)"
  unfolding update_row_def by (rule wf_map_messages) (use assms in auto)

lemma wf_remove_messages: "store_wf st \<Longrightarrow> store_wf (remove_messages P st)"
  unfolding store_wf_def remove_messages_def Let_def
  by (auto simp: ids_ok_filter message_ok_def)

lemma keys_remove: "fst ` {r \<in> A. fst r \<noteq> k} = fst ` A - {k}"
  by force

lemma wf_remove_mailbox:
  assumes "store_wf st"
  shows "store_wf (remove_mailbox k st)"
proof -
  have "store_wf (remove_messages (\<lambda>m. msg_mailbox (snd m) = k) st)"
    using assms by (rule wf_remove_messages)
  moreover have "\<forall>m \<in> set (st_messages (remove_messages (\<lambda>m. msg_mailbox (snd m) = k) st)). msg_mailbox (snd m) \<noteq> k"
    by (simp add: remove_messages_def Let_def)
  ultimately show ?thesis
    unfolding store_wf_def remove_mailbox_def Let_def
    by (auto simp: ids_ok_filter message_ok_def distinct_map_filter keys_remove)
qed

lemma wf_insert_message:
  assumes "store_wf st" "insert_message stmt m st = Some (i, st')" "length (msg_flags m) = IMAP_NFLAGS"
  shows "store_wf st'" "i = st_next_message st" "0 < i" "map_of (st_messages st) i = None"
proof -
  have st': "i = st_next_message st" "st' = st\<lparr>st_messages := st_messages st @ [(i, m)], st_next_message := i + 1\<rparr>"
      "i < sequence_end" "map_of (st_mailboxes st) (msg_mailbox m) \<noteq> None" "st_phys st (msg_phys m) \<noteq> None"
    using assms(2) by (auto simp: insert_message_def split: if_splits)
  then have "ids_ok (st_messages st @ [(i, m)]) (i + 1)" "msg_mailbox m \<in> set (map fst (st_mailboxes st))"
    using assms(1) unfolding in_keys by (auto intro!: ids_ok_insert simp: store_wf_def)
  then show "store_wf st'"
    using assms(1,3) st' unfolding store_wf_def by (auto simp: message_ok_def)
  show "i = st_next_message st" by (fact st'(1))
  show "0 < i" "map_of (st_messages st) i = None"
    using assms(1) st'(1) by (auto simp: store_wf_def ids_ok_def map_of_eq_None_iff)
qed

lemma acl_set_rights_preserves:
  assumes step: "\<And>f on db. P db \<Longrightarrow> P (snd (db_acl_set_right u m f on db))" and "P db"
  shows "P (snd (acl_set_rights u m s db))"
proof -
  have each: "P (snd (set_each u m cs on db))" if "P db" for cs on db
    using that
  proof (induction cs arbitrary: db)
    case (Cons c cs)
    then show ?case
      using step [of db "acl_right_strings ! right_index (acl_get_right_from_char c)" on]
      by (auto simp: acl_set_one_right_def split: prod.split)
  qed simp
  have change: "P (snd (change_loop u m cs on db))" if "P db" for cs on db
    using that
  proof (induction cs arbitrary: db)
    case (Cons c cs)
    then show ?case using each [of db "change_chars c" on] by (auto split: prod.split)
  qed simp
  have replace: "P (snd (replace_loop u m s is db))" if "P db" for s "is" db
    using that
  proof (induction "is" arbitrary: db)
    case (Cons i "is")
    then show ?case
      using step [of db "acl_right_strings ! i" "acl_right_chars ! i \<in> set s"] by (auto split: prod.split)
  qed simp
  show ?thesis
    using assms(2) change replace
    by (cases s) (simp_all add: acl_set_rights_def acl_change_rights_def acl_replace_rights_def)
qed

definition rows_in :: "u64 set \<Rightarrow> acl_db \<Rightarrow> bool" where
  "rows_in A db \<longleftrightarrow> (\<forall>u m r. acl_rows db (u, m) = Some r \<longrightarrow> m \<in> A \<and> length r = 11) \<and>
     (\<forall>u m. acl_fails db (S_create u m) \<or> m \<in> A)"

lemma rows_in_set_right: "rows_in A db \<Longrightarrow> rows_in A (snd (db_acl_set_right u m f on db))"
  by (auto simp: rows_in_def db_acl_set_right_def db_acl_create_acl_def update_flag_def Let_def
      split: option.splits if_splits)

lemma wf_set_rights:
  assumes "store_wf st"
  shows "store_wf (snd (store_set_rights u m s st))"
proof -
  let ?A = "set (map fst (st_mailboxes st))"
  have "rows_in ?A (acl_view st)"
    using assms by (auto simp: rows_in_def acl_view_def store_wf_def map_of_eq_None_iff)
  then have "rows_in ?A (snd (acl_set_rights u m s (acl_view st)))"
    using acl_set_rights_preserves [of "rows_in ?A"] rows_in_set_right by blast
  then show ?thesis
    using assms by (auto simp: store_set_rights_def store_wf_def message_ok_def rows_in_def split: prod.split)
qed

lemma wf_db_update:
  assumes "store_wf st" "\<And>st. store_wf st \<Longrightarrow> store_wf (f st)"
  shows "store_wf (snd (db_update stmt f st))"
  using assms by (simp add: db_update_def)

lemma wf_not_delivery_user: "store_wf st \<Longrightarrow> store_wf (snd (not_delivery_user u f st))"
  by (simp add: not_delivery_user_def Let_def wf_db_update wf_change_curmail)

lemma wf_bump_seq: "store_wf st \<Longrightarrow> bump_seq m st = Some st' \<Longrightarrow> store_wf st'"
  by (auto simp: bump_seq_def bump_def intro!: wf_update_mailbox split: if_splits)

lemma message_ok_seq [simp]: "message_ok st (m\<lparr>msg_seq := s\<rparr>) = message_ok st m"
  by (simp add: message_ok_def)

lemma wf_seq_update: "store_wf st \<Longrightarrow> store_wf (snd (db_mailbox_seq_update m i st))"
  by (auto simp: db_mailbox_seq_update_def seq_update_1_def seq_update_2_def raise_seq_def join_seq_def
      intro!: wf_update_message intro: wf_bump_seq split: option.split)

lemma wf_copy_keywords:
  assumes "store_wf st"
  shows "store_wf (copy_keywords i j st)"
proof -
  let ?ks = "map snd (filter (\<lambda>k. fst k = j) (st_keywords st))"
  have "distinct ?ks"
    using assms by (auto simp: store_wf_def distinct_map inj_on_def)
  then have "distinct (map (Pair i) ?ks)" by (simp add: distinct_map inj_on_def)
  moreover have "i \<in> set (map fst (st_messages st))" if "map_of (st_messages st) i \<noteq> None"
    using that unfolding in_keys .
  ultimately have "store_wf (st\<lparr>st_keywords := st_keywords st @ map (Pair i) ?ks\<rparr>)"
    if "?ks = [] \<or> map_of (st_messages st) i \<noteq> None" "set (map (Pair i) ?ks) \<inter> set (st_keywords st) = {}"
    using assms that unfolding store_wf_def
    by (auto simp: message_ok_def filter_empty_conv simp del: map_map)
  then show ?thesis
    using assms by (simp add: copy_keywords_def Let_def del: set_map map_map)
qed

lemma copied_row_fields [simp]:
  "msg_mailbox (copied_row st i m) = m" "msg_seq (copied_row st i m) = 0"
  by (simp_all add: copied_row_def split: option.split)

lemma copied_row_flags: "store_wf st \<Longrightarrow> length (msg_flags (copied_row st i m)) = IMAP_NFLAGS"
  by (auto simp: copied_row_def store_wf_def message_ok_def split: option.split dest!: map_of_SomeD)

lemma wf_copymsg:
  assumes "store_wf st"
  shows "store_wf (snd (snd (db_copymsg i m u n st)))"
proof -
  let ?ins = "insert_message (X_copy i m) (copied_row st i m) st"
  obtain n1 st1 where ins: "(case ?ins of None \<Rightarrow> (n, st) | Some r \<Rightarrow> r) = (n1, st1)" by force
  have "store_wf st1"
    using ins assms wf_insert_message(1) [OF assms, of "X_copy i m" "copied_row st i m"] copied_row_flags [OF assms]
    by (auto split: option.splits)
  then have "store_wf (snd (db_mailbox_seq_update m n1 (copy_keywords n1 i st1)))"
    by (intro wf_seq_update wf_copy_keywords)
  then show ?thesis
    using assms ins wf_not_delivery_user
    by (simp add: db_copymsg_def Let_def dm_quota_user_inc_def split: prod.split) (metis snd_conv)
qed

lemma wf_move_message:
  assumes "store_wf st"
  shows "store_wf (snd (db_move_message i m st))"
proof -
  have "store_wf (st\<lparr>st_messages := update_row i (\<lambda>x. x\<lparr>msg_mailbox := m\<rparr>) (st_messages st)\<rparr>)"
    if "map_of (st_mailboxes st) m \<noteq> None \<or> i \<notin> set (map fst (st_messages st))"
    unfolding update_row_def
    by (rule wf_map_messages) (use assms that in_keys [of m "st_mailboxes st"] in \<open>force simp: message_ok_def\<close>)+
  then show ?thesis
    using assms by (auto simp: db_move_message_def db_update_def simp del: set_map)
qed

lemma wf_movemsg:
  assumes "store_wf st"
  shows "store_wf (snd (db_movemsg a b st))"
proof -
  have "store_wf (st\<lparr>st_messages := map (\<lambda>(i, m). (i, if msg_mailbox m = b then m\<lparr>msg_mailbox := a\<rparr> else m))
      (st_messages st)\<rparr>)" if "messages_of st b = [] \<or> map_of (st_mailboxes st) a \<noteq> None"
    by (rule wf_map_messages)
      (use assms that in_keys [of a "st_mailboxes st"] in \<open>force simp: message_ok_def messages_of_def filter_empty_conv\<close>)+
  then show ?thesis
    using assms by (auto simp: db_movemsg_def Let_def intro!: wf_seq_update)
qed

lemma wf_setmailboxname:
  assumes "store_wf st"
  shows "store_wf (snd (db_setmailboxname k name st))"
proof -
  let ?p = "\<lambda>r. (mbx_owner (snd r), mbx_name (snd r))"
  have upd: "distinct (map ?p (update_row k (\<lambda>r. r\<lparr>mbx_name := name\<rparr>) rows))"
    if keys: "distinct (map fst rows)" and pairs: "distinct (map ?p rows)"
      and free: "\<forall>r \<in> set rows. \<forall>s \<in> set rows. fst r \<noteq> k \<longrightarrow> fst s = k \<longrightarrow> ?p r \<noteq> (mbx_owner (snd s), name)"
    for rows :: "(u64 \<times> mailbox_row) list"
  proof -
    let ?g = "\<lambda>r. (mbx_owner (snd r), if fst r = k then name else mbx_name (snd r))"
    have "inj_on ?g (set rows)"
    proof (rule inj_onI)
      fix r s assume rs: "r \<in> set rows" "s \<in> set rows" "?g r = ?g s"
      consider "fst r = fst s" | "fst r = k" "fst s \<noteq> k" | "fst r \<noteq> k" "fst s = k" | "fst r \<noteq> k" "fst s \<noteq> k"
        by metis
      then show "r = s"
      proof cases
        case 1
        then show ?thesis using keys rs(1,2) by (auto simp: distinct_map dest: inj_onD)
      next
        case 2
        then show ?thesis using free [THEN bspec, OF rs(2), THEN bspec, OF rs(1)] rs(3) by simp
      next
        case 3
        then show ?thesis using free [THEN bspec, OF rs(1), THEN bspec, OF rs(2)] rs(3) by simp
      next
        case 4
        then show ?thesis using pairs rs by (auto simp: distinct_map dest!: inj_onD [of ?p])
      qed
    qed
    moreover have "map ?p (update_row k (\<lambda>r. r\<lparr>mbx_name := name\<rparr>) rows) = map ?g rows"
      by (auto simp: update_row_def)
    ultimately show ?thesis using keys by (simp add: distinct_map)
  qed
  have own: "owner_of st k = Some (mbx_owner (snd s))" if "s \<in> set (st_mailboxes st)" "fst s = k" for s
    using assms that by (cases s) (auto simp: owner_of_def store_wf_def ids_ok_def)
  have "distinct (map ?p (update_row k (\<lambda>r. r\<lparr>mbx_name := name\<rparr>) (st_mailboxes st)))"
    if "\<not> (\<exists>r \<in> set (st_mailboxes st). fst r \<noteq> k \<and> mbx_name (snd r) = name \<and> owner_of st k = Some (mbx_owner (snd r)))"
    by (rule upd) (use assms own that in \<open>auto simp: store_wf_def ids_ok_def simp del: set_map\<close>)
  then show ?thesis
    using assms by (auto simp: db_setmailboxname_def store_wf_def message_ok_def simp del: set_map)
qed

lemma wf_insert_mailbox:
  assumes "store_wf st" "insert_mailbox owner name st = Some (i, st')"
  shows "store_wf st'"
proof -
  let ?row = "\<lparr>mbx_owner = owner, mbx_name = name, mbx_permission = IMAPPERM_READWRITE, mbx_seq = 1,
    mbx_no_inferiors = False, mbx_no_select = False\<rparr>"
  have st': "i = st_next_mailbox st" "st' = st\<lparr>st_mailboxes := st_mailboxes st @ [(i, ?row)], st_next_mailbox := i + 1\<rparr>"
      "i < sequence_end" "\<not> name_taken st owner name"
    using assms(2) by (auto simp: insert_mailbox_def split: if_splits)
  then have "ids_ok (st_mailboxes st @ [(i, ?row)]) (i + 1)"
    using assms(1) by (auto intro!: ids_ok_insert simp: store_wf_def)
  then show ?thesis
    using assms(1) st' unfolding store_wf_def name_taken_def
    by (auto simp: message_ok_def simp del: set_map)
qed

lemma wf_subscribe: "store_wf st \<Longrightarrow> store_wf (snd (db_subscribe m u st))"
  using in_keys [of m "st_mailboxes st"]
  by (auto simp: db_subscribe_def store_wf_def message_ok_def)

lemma wf_delete_mailbox:
  assumes "store_wf st" "db_delete_mailbox m e c st = Some (r, st')"
  shows "store_wf st'"
proof -
  have "store_wf (snd (if e then mailbox_empty m st else mailbox_delete m st))"
    using assms(1)
    by (simp add: mailbox_empty_def mailbox_delete_def wf_db_update wf_remove_messages wf_remove_mailbox)
  then have "store_wf st2" "store_wf (snd (dm_quota_user_dec u s st2))"
    if "(if e then mailbox_empty m st else mailbox_delete m st) = (x, st2)" for x st2 u s
    using that wf_not_delivery_user [of st2] by (simp_all add: dm_quota_user_dec_def)
  then show ?thesis
    using assms unfolding db_delete_mailbox_def Let_def
    by (auto split: prod.splits if_splits bind_splits) (metis snd_conv)+
qed

lemma wf_empty_loop: "store_wf st \<Longrightarrow> empty_loop ids e st = Some (r, st') \<Longrightarrow> store_wf st'"
proof (induction ids arbitrary: st)
  case (Cons i ids)
  then show ?case using wf_delete_mailbox [of st i e True]
    by (auto split: bind_splits if_splits prod.splits)
qed simp

end
