(* ===== verification/Copying.thy ===== *)
theory Copying
  imports Store
begin

text \<open>
  What \<open>Store\<close> promises when the database works: the effect of copying a message on the tables,
  what an open mailbox learns of it at its next update, the exactness of the quota accounting,
  and the ways in which a copy can be lost.
\<close>

section \<open>A database without failures\<close>

definition healthy :: "store \<Rightarrow> bool" where
  "healthy st \<longleftrightarrow> st_fails st = (\<lambda>_. False) \<and> st_seq_strategy st = 1"

lemma healthy_simps [simp]:
  assumes "healthy st"
  shows "\<not> st_fails st stmt" "st_seq_strategy st = 1" "query st stmt r = Some r" "db_update stmt f st = (1, f st)"
  using assms by (simp_all add: healthy_def query_def db_update_def)

text \<open>The user whose quota is counted: known to the authentication, and not the delivery user.\<close>

definition counted :: "store \<Rightarrow> u64 \<Rightarrow> bool" where
  "counted st u \<longleftrightarrow> (\<exists>d. st_users st DBMAIL_DELIVERY_USERNAME = Some d \<and> d \<noteq> u)"

lemma counted_change:
  assumes "healthy st" "counted st u"
  shows "not_delivery_user u f st = (1, change_curmail u f st)"
  using assms by (auto simp: counted_def not_delivery_user_def user_idnr_is_delivery_user_idnr_def dm_codes)

lemma physmessage_kept:
  fixes i :: u64
  assumes "i < 2 ^ 31"
  shows "scast (ucast i :: 32 word) = i"
proof -
  have "unat i < 2 ^ 31" using assms by (simp add: word_less_nat_alt)
  then have low: "take_bit 31 i = i"
    by (intro unsigned_word_eqI [where ?'a = nat]) (simp add: unsigned_take_bit_eq take_bit_nat_eq_self)
  moreover from low have "\<not> bit i 31" by (metis bit_take_bit_iff less_irrefl)
  ultimately have "signed_take_bit 31 i = i" by (simp add: signed_take_bit_eq_if_positive)
  then show ?thesis
    by (intro word_uint_eqI) (simp add: unsigned_ucast_eq signed_ucast_eq)
qed

text \<open>What a successful copy leaves behind.\<close>

definition copied :: "u64 \<Rightarrow> u64 \<Rightarrow> u64 \<Rightarrow> u64 \<Rightarrow> store \<Rightarrow> store" where
  "copied i mb u size' st =
     (let new = st_next_message st;
          seq = (case map_of (st_mailboxes st) mb of None \<Rightarrow> 0 | Some r \<Rightarrow> mbx_seq r) + 1
      in change_curmail u (\<lambda>n. n + unat size')
           (st\<lparr>st_next_message := new + 1,
               st_keywords := st_keywords st @ map (Pair new) (map snd (filter (\<lambda>k. fst k = i) (st_keywords st))),
               st_mailboxes := update_row mb bump (st_mailboxes st),
               st_messages := st_messages st @ [(new, (copied_row st i mb)\<lparr>msg_seq := seq\<rparr>)]\<rparr>))"

lemma mailbox_in_table:
  "store_wf st \<Longrightarrow> (i, r) \<in> set (st_mailboxes st) \<longleftrightarrow> map_of (st_mailboxes st) i = Some r"
  by (auto simp: store_wf_def ids_ok_def dest: map_of_SomeD)

lemma message_in_table:
  "store_wf st \<Longrightarrow> (i, m) \<in> set (st_messages st) \<longleftrightarrow> map_of (st_messages st) i = Some m"
  by (auto simp: store_wf_def ids_ok_def dest: map_of_SomeD)

lemma seq_update_healthy:
  assumes "healthy st" "store_wf st" "map_of (st_mailboxes st) mb = Some r" "mbx_seq r < sequence_end" "i \<noteq> 0"
  shows "db_mailbox_seq_update mb i st =
     (mbx_seq r + 1,
      st\<lparr>st_mailboxes := update_row mb bump (st_mailboxes st),
         st_messages := update_row i (raise_seq (mbx_seq r + 1)) (st_messages st)\<rparr>)"
proof -
  have "\<not> (\<exists>x \<in> set (st_mailboxes st). fst x = mb \<and> sequence_end \<le> mbx_seq (snd x))"
    using assms(3,4) mailbox_in_table [OF assms(2), of mb] by (auto simp: not_le)
  then have "bump_seq mb st = Some (st\<lparr>st_mailboxes := update_row mb bump (st_mailboxes st)\<rparr>)"
    using assms(1) by (simp add: bump_seq_def)
  then show ?thesis
    using assms(1,3,5)
    by (simp add: db_mailbox_seq_update_def seq_update_1_def read_seq_def query_def map_of_update_row bump_def healthy_def)
qed

lemma update_row_fresh: "i \<notin> set (map fst rows) \<Longrightarrow> update_row i f rows = rows"
  by (induction rows) (auto simp: update_row_def)

lemma copymsg_healthy:
  assumes "healthy st" "store_wf st" "counted st u" "message_get_size st i = size'" "size' \<noteq> 0"
    and "map_of (st_messages st) i = Some m" "msg_phys m < 2 ^ 31"
    and "map_of (st_mailboxes st) mb = Some r" "mbx_seq r < sequence_end" "st_next_message st < sequence_end"
    and "dm_quota_user_validate st u size' = 1"
  shows "db_copymsg i mb u n st = (DM_EGENERAL, st_next_message st, copied i mb u size' st)"
proof -
  let ?new = "st_next_message st"
  let ?st1 = "st\<lparr>st_messages := st_messages st @ [(?new, copied_row st i mb)], st_next_message := ?new + 1\<rparr>"
  let ?ks = "map (Pair ?new) (map snd (filter (\<lambda>k. fst k = i) (st_keywords st)))"
  have phys: "msg_phys (copied_row st i mb) = msg_phys m"
    using assms(6,7) by (simp add: copied_row_def physmessage_kept)
  moreover have "st_phys st (msg_phys m) \<noteq> None"
    using assms(2,6) by (auto simp: store_wf_def message_ok_def dest!: map_of_SomeD)
  ultimately have ins: "insert_message (X_copy i mb) (copied_row st i mb) st = Some (?new, ?st1)"
    using assms(1,8,10) by (simp add: insert_message_def not_le)
  have fresh: "?new \<notin> set (map fst (st_messages st))" "?new \<noteq> 0"
    using assms(2) by (auto simp: store_wf_def ids_ok_def)
  have wf1: "store_wf ?st1"
    using wf_insert_message(1) [OF assms(2) ins copied_row_flags [OF assms(2)]] .
  have "fst ` set (st_keywords st) \<subseteq> set (map fst (st_messages st))"
    using assms(2) unfolding store_wf_def by blast
  then have "?new \<notin> fst ` set (st_keywords st)" using fresh(1) by blast
  then have "set ?ks \<inter> set (st_keywords st) = {}" by force
  then have kw: "copy_keywords ?new i ?st1 = ?st1\<lparr>st_keywords := st_keywords st @ ?ks\<rparr>"
    using assms(1) fresh(1) by (simp add: copy_keywords_def map_add_def healthy_def del: set_map map_map split: option.split)
  let ?st2 = "?st1\<lparr>st_keywords := st_keywords st @ ?ks\<rparr>"
  have wf2: "store_wf ?st2" using wf_copy_keywords [OF wf1, of ?new i] kw by simp
  have seq: "snd (db_mailbox_seq_update mb ?new ?st2) =
      ?st2\<lparr>st_mailboxes := update_row mb bump (st_mailboxes st),
        st_messages := update_row ?new (raise_seq (mbx_seq r + 1)) (st_messages ?st1)\<rparr>"
    using seq_update_healthy [OF _ wf2, of mb r ?new] assms(1,8,9) fresh(2) by (simp add: healthy_def)
  have row: "update_row ?new (raise_seq (mbx_seq r + 1)) (st_messages ?st1) =
      st_messages st @ [(?new, (copied_row st i mb)\<lparr>msg_seq := mbx_seq r + 1\<rparr>)]"
  proof -
    have "0 < mbx_seq r + 1"
      using word_succ_bound(1) [OF assms(9)] by (metis word_neq_0_conv word_not_simps(1))
    then show ?thesis
      using update_row_fresh [OF fresh(1)] by (simp add: update_row_def raise_seq_def)
  qed
  have quota: "dm_quota_user_inc u size' st' = (1, change_curmail u (\<lambda>n. n + unat size') st')"
    if "st_fails st' = st_fails st" "st_users st' = st_users st" "st_seq_strategy st' = st_seq_strategy st" for st'
    using that assms(1,3) unfolding dm_quota_user_inc_def
    by (intro counted_change) (simp_all add: healthy_def counted_def)
  show ?thesis
    using assms(5,8,11) unfolding db_copymsg_def Let_def assms(4) ins option.case prod.case kw seq row copied_def
    by (simp add: dm_codes quota)
qed

section \<open>What an open mailbox sees\<close>

lemma healthy_answers: "healthy st \<Longrightarrow> db_answers (mbxdb_of p st i)"
  by (simp add: db_answers_def mbxdb_of_def Let_def)

lemma healthy_messages:
  "healthy st \<Longrightarrow> q_messages (mbxdb_of p st i) =
     Some (map (msgrow_of st) (rev (sort_key (msg_seq \<circ> snd) (filter (\<lambda>m. p (snd m)) (messages_of st i)))))"
  by (simp add: mbxdb_of_def Let_def)

lemma msgrow_of_fields [simp]:
  "row_id (msgrow_of st im) = fst im" "row_status (msgrow_of st im) = msg_status (snd im)"
  by (simp_all add: msgrow_of_def split: prod.split)

lemma distinct_chosen:
  assumes "store_wf st"
  shows "distinct (map row_id (map (msgrow_of st) (rev (sort_key f (filter p (messages_of st i))))))"
proof -
  have "distinct (map fst (messages_of st i))"
    using assms by (auto simp: store_wf_def ids_ok_def messages_of_def distinct_map_filter)
  then have "inj_on fst (set (messages_of st i))" "distinct (messages_of st i)"
    by (simp_all add: distinct_map)
  then show ?thesis
    by (auto simp: comp_def rev_map [symmetric] distinct_map inj_on_def)
qed

lemma find_key: "distinct (map f xs) \<Longrightarrow> x \<in> set xs \<Longrightarrow> find (\<lambda>y. f y = f x) xs = Some x"
  by (induction xs) auto

lemma refresh_sees:
  assumes "healthy st" "store_wf st" "mb_id M \<noteq> 0" "tree_sorted ucmpdata (mb_msginfo M)"
    and "\<not> (0 < k \<and> k - 1 \<le> sint (mb_differential_iterations M))"
    and "length (mb_msginfo M) + length (st_messages st) < 2 ^ 64 - 1"
    and "map_of (st_messages st) i = Some m" "msg_mailbox m = mb_id M" "row_live m"
    and "uint (mb_state_seq M) - 1 \<le> uint (msg_seq m)" "map_of (mb_msginfo M) i = None"
  shows "\<exists>M'. refresh_mailbox k st M = (Some M', M\<lparr>mb_msginfo := [], mb_seq := 0\<rparr>) \<and> maps_ok M' \<and> i \<in> set (map fst (mb_ids M'))"
proof -
  let ?p = "renewed (mb_state_seq M)"
  let ?chosen = "filter (\<lambda>m. ?p (snd m)) (messages_of st (mb_id M))"
  let ?rows = "map (msgrow_of st) (rev (sort_key (msg_seq \<circ> snd) ?chosen))"
  have "length ?rows \<le> length (st_messages st)"
    by (simp add: messages_of_def)
  then have len: "length (mb_msginfo M) + length ?rows < 2 ^ 64 - 1" using assms(6) by linarith
  have dist: "distinct (map row_id ?rows)" by (rule distinct_chosen [OF assms(2)])
  obtain M' where M': "refresh_mailbox k st M = (Some M', M\<lparr>mb_msginfo := [], mb_seq := 0\<rparr>)"
      "numbers_exactly (live_after False ?rows (mb_msginfo M)) M'"
    using update_answers [OF assms(3,5) healthy_answers [OF assms(1)] healthy_messages [OF assms(1)] dist _ assms(4) len,
        of 1 "st_names st" 64] assms(5)
    by (auto simp: refresh_mailbox_def)
  have "(i, m) \<in> set ?chosen"
    using assms(7-10) message_in_table [OF assms(2), of i m]
    by (auto simp: renewed_def messages_of_def row_live_def)
  then have "msgrow_of st (i, m) \<in> set ?rows" by simp
  from find_key [OF dist this] have "find (\<lambda>r. row_id r = i) ?rows = Some (msgrow_of st (i, m))" by simp
  then have "live_after False ?rows (mb_msginfo M) i"
    using assms(9,11) by (simp add: live_after_def stays_def row_live_def)
  then show ?thesis using M' unfolding numbers_exactly_def by blast
qed

section \<open>Quota accounting\<close>

text \<open>What \<open>dm_quota_rebuild_user\<close> would count for a user.\<close>

definition used :: "store \<Rightarrow> u64 \<Rightarrow> nat" where
  "used st u = total_size st (\<lambda>m. owner_of st (msg_mailbox m) = Some u \<and> row_live m)"

definition quota_exact :: "store \<Rightarrow> u64 \<Rightarrow> bool" where
  "quota_exact st u \<longleftrightarrow> st_curmail st u = Some (used st u)"

lemma row_size_phys: "st_phys st' = st_phys st \<Longrightarrow> row_size st' = row_size st"
  by (rule ext) (simp add: row_size_def)

lemma total_size_split:
  "total_size st P = total_size st (\<lambda>m. P m \<and> Q m) + total_size st (\<lambda>m. P m \<and> \<not> Q m)"
proof -
  have "sum_list (map f (filter P xs)) =
      sum_list (map f (filter (\<lambda>m. P m \<and> Q m) xs)) + sum_list (map f (filter (\<lambda>m. P m \<and> \<not> Q m) xs))"
    for f :: "message_row \<Rightarrow> nat" and xs
    by (induction xs) auto
  then show ?thesis unfolding total_size_def .
qed

lemma owner_of_bump: "st_mailboxes st' = update_row k bump (st_mailboxes st) \<Longrightarrow> owner_of st' = owner_of st"
  by (rule ext) (simp add: owner_of_def map_of_update_row bump_def option.map_comp comp_def)

lemma used_copied:
  assumes "msg_phys (copied_row st i mb) = msg_phys m" "row_live (copied_row st i mb)"
    and "st_phys st (msg_phys m) = Some p"
  shows "used (copied i mb v size' st) u = used st u + (if owner_of st mb = Some u then unat (ph_size p) else 0)"
proof -
  let ?st = "copied i mb v size' st"
  have st: "st_mailboxes ?st = update_row mb bump (st_mailboxes st)" "st_phys ?st = st_phys st"
    by (simp_all add: copied_def Let_def change_curmail_def)
  obtain s where msgs: "st_messages ?st = st_messages st @ [(st_next_message st, (copied_row st i mb)\<lparr>msg_seq := s\<rparr>)]"
    by (simp add: copied_def Let_def change_curmail_def)
  have live: "row_live ((copied_row st i mb)\<lparr>msg_seq := s\<rparr>)" using assms(2) by (simp add: row_live_def)
  have size: "row_size st ((copied_row st i mb)\<lparr>msg_seq := s\<rparr>) = unat (ph_size p)"
    using assms(1,3) by (simp add: row_size_def)
  show ?thesis
    unfolding used_def total_size_def owner_of_bump [OF st(1)] row_size_phys [OF st(2)] msgs
    by (simp add: live size)
qed

lemma copied_keywords:
  assumes "store_wf st"
  shows "[snd k. k \<leftarrow> st_keywords (copied i mb u s st), fst k = st_next_message st] = [snd k. k \<leftarrow> st_keywords st, fst k = i]"
proof -
  let ?new = "st_next_message st"
  have "fst ` set (st_keywords st) \<subseteq> set (map fst (st_messages st))" using assms unfolding store_wf_def by blast
  moreover have "?new \<notin> set (map fst (st_messages st))" using assms by (auto simp: store_wf_def ids_ok_def)
  ultimately have fresh: "?new \<notin> fst ` set (st_keywords st)" by blast
  have "concat (map (\<lambda>k. if fst k = ?new then [snd k] else []) ks) = []" if "?new \<notin> fst ` set ks" for ks
    using that by (induction ks) auto
  moreover have "concat (map (\<lambda>k. if fst k = ?new then [snd k] else []) (map (Pair ?new) xs)) = xs" for xs :: "string list"
    by (induction xs) auto
  moreover have "map snd (filter (\<lambda>k. fst k = i) ks) = concat (map (\<lambda>k. if fst k = i then [snd k] else []) ks)"
    for ks :: "(u64 \<times> string) list" by (induction ks) auto
  ultimately show ?thesis
    using fresh by (simp add: copied_def Let_def change_curmail_def del: map_map)
qed

lemma removed_messages:
  "map snd (st_messages (remove_messages (\<lambda>x. msg_mailbox (snd x) = k) st)) =
     filter (\<lambda>m. msg_mailbox m \<noteq> k) (map snd (st_messages st))"
  by (simp add: remove_messages_def Let_def filter_map comp_def)

lemma used_removed:
  assumes "map snd (st_messages st') = filter (\<lambda>m. msg_mailbox m \<noteq> k) (map snd (st_messages st))"
    and "st_phys st' = st_phys st" "\<And>m. m \<noteq> k \<Longrightarrow> owner_of st' m = owner_of st m"
  shows "used st' v = total_size st (\<lambda>m. (owner_of st (msg_mailbox m) = Some v \<and> row_live m) \<and> msg_mailbox m \<noteq> k)"
proof -
  have "filter (\<lambda>m. owner_of st' (msg_mailbox m) = Some v \<and> row_live m) (filter (\<lambda>m. msg_mailbox m \<noteq> k) xs) =
      filter (\<lambda>m. (owner_of st (msg_mailbox m) = Some v \<and> row_live m) \<and> msg_mailbox m \<noteq> k) xs" for xs
    using assms(3) by (induction xs) auto
  then show ?thesis
    unfolding used_def total_size_def assms(1) row_size_phys [OF assms(2)] by simp
qed

lemma used_split:
  assumes "owner_of st k = Some u"
  shows "used st v = (if v = u then total_size st (\<lambda>m. msg_mailbox m = k \<and> row_live m) else 0) +
     total_size st (\<lambda>m. (owner_of st (msg_mailbox m) = Some v \<and> row_live m) \<and> msg_mailbox m \<noteq> k)"
proof -
  have "total_size st (\<lambda>m. (owner_of st (msg_mailbox m) = Some v \<and> row_live m) \<and> msg_mailbox m = k) =
      (if v = u then total_size st (\<lambda>m. msg_mailbox m = k \<and> row_live m) else 0)"
  proof -
    have "filter (\<lambda>m. (owner_of st (msg_mailbox m) = Some v \<and> row_live m) \<and> msg_mailbox m = k) xs =
        (if v = u then filter (\<lambda>m. msg_mailbox m = k \<and> row_live m) xs else [])" for xs
      using assms by (induction xs) auto
    then show ?thesis by (simp add: total_size_def)
  qed
  then show ?thesis
    using total_size_split [of st "\<lambda>m. owner_of st (msg_mailbox m) = Some v \<and> row_live m" "\<lambda>m. msg_mailbox m = k"]
    by (simp add: used_def)
qed

lemma removed_tables:
  assumes "(if e then mailbox_empty k st else mailbox_delete k st) = (1, st')"
  shows "map snd (st_messages st') = filter (\<lambda>m. msg_mailbox m \<noteq> k) (map snd (st_messages st)) \<and>
     st_phys st' = st_phys st \<and> (\<forall>m. m \<noteq> k \<longrightarrow> owner_of st' m = owner_of st m) \<and>
     st_curmail st' = st_curmail st \<and> st_fails st' = st_fails st \<and> st_users st' = st_users st \<and>
     st_seq_strategy st' = st_seq_strategy st"
proof -
  have "map_of (filter (\<lambda>r. fst r \<noteq> k) rows) m = map_of rows m" if "m \<noteq> k" for m and rows :: "(u64 \<times> mailbox_row) list"
    using that by (induction rows) auto
  then show ?thesis
    using assms removed_messages [of k st]
    by (auto simp: mailbox_empty_def mailbox_delete_def db_update_def remove_mailbox_def remove_messages_def Let_def
        owner_of_def filter_map comp_def split: if_splits)
qed

lemma healthy_owner:
  "healthy st \<Longrightarrow> db_get_mailbox_owner k (acl_view st) = (case owner_of st k of
     None \<Rightarrow> (0, 0) | Some u \<Rightarrow> if u = 0 then (0, 0) else (1, u))"
  by (simp add: db_get_mailbox_owner_def acl_view_def ask_def)

lemma delete_mailbox_steps:
  assumes "healthy st" "db_delete_mailbox k e True st = Some (DM_SUCCESS, st')"
  obtains u st1 where "owner_of st k = Some u" "(if e then mailbox_empty k st else mailbox_delete k st) = (1, st1)"
    "st' = snd (dm_quota_user_dec u (of_nat (total_size st (\<lambda>m. msg_mailbox m = k \<and> row_live m))) st1)"
proof -
  have size: "snd (db_get_mailbox_size st k False) = of_nat (total_size st (\<lambda>m. msg_mailbox m = k \<and> row_live m))"
    using assms(1) by (simp add: db_get_mailbox_size_def)
  have one: "fst (if e then mailbox_empty k st else mailbox_delete k st) = 1"
    using assms(1) by (simp add: mailbox_empty_def mailbox_delete_def)
  show ?thesis
    using assms(2) one unfolding db_delete_mailbox_def healthy_owner [OF assms(1)] Let_def size
    by (auto simp: dm_codes split: option.splits if_splits prod.splits bind_splits intro!: that)
qed

section \<open>A small store\<close>

definition demo_phys :: "u64 \<Rightarrow> phys_row option" where
  "demo_phys i = (if i \<in> {7, 2147483648} then Some \<lparr>ph_size = 100, ph_rfcsize = 103, ph_date = None\<rparr> else None)"

definition demo_message :: "u64 \<Rightarrow> u64 \<Rightarrow> message_row" where
  "demo_message mb phys = \<lparr>msg_mailbox = mb, msg_phys = phys, msg_flags = replicate 6 False,
     msg_unique_id = ''x'', msg_status = 0, msg_seq = 3\<rparr>"

definition demo_store :: "u64 \<Rightarrow> store" where
  "demo_store phys =
     \<lparr>st_mailboxes = [(1, \<lparr>mbx_owner = 5, mbx_name = ''INBOX'', mbx_permission = 2, mbx_seq = 4,
                           mbx_no_inferiors = False, mbx_no_select = False\<rparr>)],
      st_messages = [(10, demo_message 1 phys)],
      st_phys = demo_phys, st_keywords = [(10, ''work'')], st_subscription = [(5, 1)], st_acl = (\<lambda>_. None),
      st_curmail = (\<lambda>u. if u = 5 then Some 100 else None), st_next_mailbox = 2, st_next_message = 11, st_next_phys = 8,
      st_users = (\<lambda>n. if n = DBMAIL_DELIVERY_USERNAME then Some 1 else if n = ''joe'' then Some 5 else None),
      st_names = (\<lambda>u. if u = 5 then Some ''joe'' else None),
      st_maxmail = (\<lambda>_. Some 1000), st_shadow = (\<lambda>_. 0), st_unique = (\<lambda>_. ''y''), st_seq_strategy = 1,
      st_fails = (\<lambda>_. False)\<rparr>"

lemma demo_ok:
  assumes "phys \<in> {7, 2147483648}"
  shows "healthy (demo_store phys)" "store_wf (demo_store phys)" "counted (demo_store phys) 5"
    "quota_exact (demo_store phys) 5" "message_get_size (demo_store phys) 10 = 100"
    "dm_quota_user_validate (demo_store phys) 5 100 = 1" "map_of (st_messages (demo_store phys)) 10 = Some (demo_message 1 phys)"
proof -
  note defs = demo_store_def demo_message_def demo_phys_def
  show "healthy (demo_store phys)" by (simp add: defs healthy_def)
  show "store_wf (demo_store phys)"
    using assms by (auto simp: defs store_wf_def ids_ok_def message_ok_def sequence_end_def IMAP_NFLAGS_def)
  show "counted (demo_store phys) 5" by (simp add: defs counted_def)
  show "quota_exact (demo_store phys) 5"
    using assms by (auto simp: defs quota_exact_def used_def total_size_def row_size_def owner_of_def row_live_def MESSAGE_STATUS_DELETE_def)
  show "message_get_size (demo_store phys) 10 = 100" "dm_quota_user_validate (demo_store phys) 5 100 = 1"
    using assms by (auto simp: defs message_get_size_def dm_quota_user_validate_def query_def)
  show "map_of (st_messages (demo_store phys)) 10 = Some (demo_message 1 phys)" by (simp add: defs)
qed

section \<open>Properties\<close>

text \<open>
  C35: a copy of a live message is seen by every open mailbox state. Whatever state \<open>M\<close> of the
  destination a session holds, if it was loaded before the copy (its sequence number is not
  above the one of the mailbox), the next incremental update returns a state that numbers the
  copy.
\<close>

theorem copied_message_is_seen:
  assumes "healthy st" "store_wf st" "counted st u" "message_get_size st i = size'" "size' \<noteq> 0"
    and "map_of (st_messages st) i = Some m" "msg_phys m < 2 ^ 31" "row_live m"
    and "map_of (st_mailboxes st) mb = Some r" "mbx_seq r < sequence_end" "st_next_message st < sequence_end"
    and "dm_quota_user_validate st u size' = 1"
    and "db_copymsg i mb u n st = (c, new, st')"
    and "mb_id M = mb" "mb_state_seq M \<le> mbx_seq r" "tree_sorted ucmpdata (mb_msginfo M)"
    and "map_of (mb_msginfo M) new = None" "\<not> (0 < k \<and> k - 1 \<le> sint (mb_differential_iterations M))"
    and "length (mb_msginfo M) + length (st_messages st) + 1 < 2 ^ 64 - 1"
  shows "\<exists>M'. fst (refresh_mailbox k st' M) = Some M' \<and> maps_ok M' \<and> new \<in> set (map fst (mb_ids M'))"
proof -
  have res: "c = DM_EGENERAL" "new = st_next_message st" "st' = copied i mb u size' st"
    using copymsg_healthy [OF assms(1-7,9-12)] assms(13) by simp_all
  have wf: "store_wf st'" using wf_copymsg [OF assms(2), of i mb u n] assms(13) by simp
  have ok: "healthy st'" using assms(1) res(3) by (simp add: healthy_def copied_def Let_def change_curmail_def)
  let ?m = "(copied_row st i mb)\<lparr>msg_seq := mbx_seq r + 1\<rparr>"
  have msgs: "st_messages st' = st_messages st @ [(new, ?m)]"
    using res assms(9) by (simp add: copied_def Let_def change_curmail_def)
  have "map_of (st_messages st') new = Some ?m"
    using message_in_table [OF wf, of new ?m] msgs by simp
  moreover have "row_live ?m" using assms(6,8) by (simp add: row_live_def copied_row_def)
  moreover have "uint (mb_state_seq M) - 1 \<le> uint (msg_seq ?m)"
    using assms(15) word_succ_bound(1) [OF assms(10)] by (simp add: word_le_def word_less_def)
  moreover have "mb_id M \<noteq> 0"
    using assms(2,9,14) by (auto simp: store_wf_def ids_ok_def dest!: map_of_SomeD)
  ultimately show ?thesis
    using refresh_sees [OF ok wf _ assms(16,18) _ _ _ _ _ assms(17)] assms(14,19) msgs by fastforce
qed

theorem copied_message_is_seen_witness:
  "\<exists>new st' M'. db_copymsg 10 1 5 0 (demo_store 7) = (DM_EGENERAL, new, st') \<and>
     fst (refresh_mailbox 300 st' (mailbox_zero\<lparr>mb_id := 1, mb_state_seq := 4\<rparr>)) = Some M' \<and>
     new \<in> set (map fst (mb_ids M'))"
proof -
  note ok = demo_ok [of 7, simplified]
  obtain c new st' where eq: "db_copymsg 10 1 5 0 (demo_store 7) = (c, new, st')" by (cases rule: prod_cases3)
  let ?M = "mailbox_zero\<lparr>mb_id := 1, mb_state_seq := 4\<rparr>"
  let ?r = "\<lparr>mbx_owner = 5, mbx_name = ''INBOX'', mbx_permission = 2, mbx_seq = 4, mbx_no_inferiors = False, mbx_no_select = False\<rparr>"
  have box: "map_of (st_mailboxes (demo_store 7)) 1 = Some ?r" by (simp add: demo_store_def)
  have c: "c = DM_EGENERAL"
    using copymsg_healthy [OF ok(1,2,3,5) _ ok(7) _ box _ _ ok(6), of 0] eq
    by (simp add: demo_store_def demo_message_def sequence_end_def)
  have "\<exists>M'. fst (refresh_mailbox 300 st' ?M) = Some M' \<and> maps_ok M' \<and> new \<in> set (map fst (mb_ids M'))"
    using copied_message_is_seen [OF ok(1,2,3,5) _ ok(7) _ _ box _ _ ok(6) eq, of ?M 300]
    by (simp add: demo_store_def demo_message_def row_live_def MESSAGE_STATUS_DELETE_def sequence_end_def
        mailbox_zero_def tree_sorted_def)
  then show ?thesis using eq c by blast
qed

text \<open>
  C37: the accounting of quotas survives the deletion of a mailbox. When a user is charged exactly
  the size of the live messages in the mailboxes it owns, emptying or deleting any mailbox keeps
  that so, for the owner of the mailbox and for everybody else, and leaves no message behind.
\<close>

theorem delete_keeps_quota_exact:
  assumes "healthy st" "quota_exact st v" "counted st v" "used st v < 2 ^ 64"
    and "db_delete_mailbox k e True st = Some (DM_SUCCESS, st')"
  shows "quota_exact st' v \<and> messages_of st' k = []"
proof -
  obtain u st1 where u: "owner_of st k = Some u" "(if e then mailbox_empty k st else mailbox_delete k st) = (1, st1)"
    and st': "st' = snd (dm_quota_user_dec u (of_nat (total_size st (\<lambda>m. msg_mailbox m = k \<and> row_live m))) st1)"
    by (rule delete_mailbox_steps [OF assms(1,5)])
  let ?n = "total_size st (\<lambda>m. msg_mailbox m = k \<and> row_live m)"
  note tab = removed_tables [OF u(2)]
  have "healthy st1" "counted st1 v" using tab assms(1,3) by (simp_all add: healthy_def counted_def)
  have kept: "st_messages st' = st_messages st1" "st_phys st' = st_phys st1" "st_mailboxes st' = st_mailboxes st1"
    by (simp_all add: st' dm_quota_user_dec_def not_delivery_user_def db_update_def change_curmail_def Let_def)
  then have "used st' v = used st1 v" by (simp add: used_def total_size_def owner_of_def row_size_def [abs_def])
  also have "\<dots> = total_size st (\<lambda>m. (owner_of st (msg_mailbox m) = Some v \<and> row_live m) \<and> msg_mailbox m \<noteq> k)"
    using tab by (intro used_removed) auto
  finally have used': "used st v = (if v = u then ?n else 0) + used st' v"
    using used_split [OF u(1), of v] by simp
  have "st_curmail st' v = Some (used st' v)"
  proof (cases "v = u")
    case True
    then have n: "used st v = ?n + used st' v" using used' by simp
    then have "unat (of_nat ?n :: u64) = ?n" using assms(4) by (simp add: unat_of_nat)
    moreover have "st_curmail st1 v = Some (?n + used st' v)"
      using tab assms(2) unfolding quota_exact_def n by simp
    ultimately have "st_curmail (change_curmail v (\<lambda>x. if unat (of_nat ?n :: u64) \<le> x then x - unat (of_nat ?n :: u64) else 0) st1) v =
        Some (used st' v)"
      unfolding change_curmail_def by simp
    then show ?thesis
      using True counted_change [OF \<open>healthy st1\<close> \<open>counted st1 v\<close>]
      unfolding st' dm_quota_user_dec_def by simp
  next
    case False
    then have "st_curmail st' v = st_curmail st1 v"
      unfolding st' dm_quota_user_dec_def not_delivery_user_def Let_def
      by (simp add: db_update_def change_curmail_def)
    then show ?thesis using False tab assms(2) used' by (simp add: quota_exact_def)
  qed
  moreover have "msg_mailbox (snd x) \<noteq> k" if "x \<in> set (st_messages st1)" for x
  proof -
    have "snd x \<in> set (map snd (st_messages st1))" using that by simp
    then show ?thesis unfolding conjunct1 [OF tab] by simp
  qed
  then have "messages_of st' k = []" by (simp add: messages_of_def kept)
  ultimately show ?thesis by (simp add: quota_exact_def)
qed

theorem delete_keeps_quota_exact_witness:
  "\<exists>st'. db_delete_mailbox 1 True True (demo_store 7) = Some (DM_SUCCESS, st') \<and> quota_exact st' 5"
proof -
  note ok = demo_ok [of 7, simplified]
  have "map_option fst (db_delete_mailbox 1 True True (demo_store 7)) = Some DM_SUCCESS" by code_simp
  then obtain st' where eq: "db_delete_mailbox 1 True True (demo_store 7) = Some (DM_SUCCESS, st')" by auto
  have "used (demo_store 7) 5 < 2 ^ 64"
    by (simp add: demo_store_def demo_message_def demo_phys_def used_def total_size_def row_size_def owner_of_def
        row_live_def MESSAGE_STATUS_DELETE_def)
  then show ?thesis
    using delete_keeps_quota_exact [OF ok(1,4,3) _ eq] eq by simp
qed

text \<open>
  C36: copying a live message into a mailbox of the user. If the size of the message still fits the
  quota (or there is none), the copy is a new row at the end of the table that shares the stored
  message, the flags and the keywords of the original, all other rows stay, and the charge of
  the user stays exact and within the quota. Otherwise the copy is refused and nothing changes.
\<close>

theorem copy_copies_and_charges:
  assumes "healthy st" "store_wf st" "counted st u" "quota_exact st u" "owner_of st mb = Some u"
    and "map_of (st_messages st) i = Some m" "msg_phys m < 2 ^ 31" "row_live m"
    and "st_phys st (msg_phys m) = Some p" "ph_size p \<noteq> 0" "st_maxmail st u = Some mx"
    and "map_of (st_mailboxes st) mb = Some r" "mbx_seq r < sequence_end" "st_next_message st < sequence_end"
    and "db_copymsg i mb u n st = (c, new, st')"
  shows "if mx = 0 \<or> used st u + unat (ph_size p) \<le> unat mx
     then c = DM_EGENERAL \<and> quota_exact st' u \<and> (mx = 0 \<or> used st' u \<le> unat mx) \<and>
        st_messages st' = st_messages st @ [(new, m\<lparr>msg_mailbox := mb, msg_unique_id := st_unique st i, msg_seq := mbx_seq r + 1\<rparr>)] \<and>
        [snd k. k \<leftarrow> st_keywords st', fst k = new] = [snd k. k \<leftarrow> st_keywords st, fst k = i]
     else c = DM_OVERQUOTA \<and> st' = st"
proof -
  let ?s = "ph_size p"
  have size: "message_get_size st i = ?s" using assms(1,6,9) by (simp add: message_get_size_def)
  have valid: "dm_quota_user_validate st u ?s = (if mx = 0 \<or> used st u + unat ?s \<le> unat mx then 1 else 0)"
    using assms(1,4,11) by (simp add: dm_quota_user_validate_def quota_exact_def not_less)
  show ?thesis
  proof (cases "mx = 0 \<or> used st u + unat ?s \<le> unat mx")
    case True
    then have res: "c = DM_EGENERAL" "new = st_next_message st" "st' = copied i mb u ?s st"
      using copymsg_healthy [OF assms(1-3) size assms(10,6,7,12-14)] valid assms(15) by simp_all
    have row: "copied_row st i mb = m\<lparr>msg_mailbox := mb, msg_unique_id := st_unique st i, msg_seq := 0\<rparr>"
      using assms(6,7) by (cases m) (simp add: copied_row_def physmessage_kept)
    have used': "used st' u = used st u + unat ?s"
      using used_copied [of st i mb m p u ?s u] assms(5,8,9) unfolding res(3) row by (simp add: row_live_def)
    moreover have "st_curmail st' u = Some (used st u + unat ?s)"
      using assms(4) by (simp add: res(3) copied_def Let_def change_curmail_def quota_exact_def used_def)
    moreover have "[snd k. k \<leftarrow> st_keywords st', fst k = new] = [snd k. k \<leftarrow> st_keywords st, fst k = i]"
      unfolding res(2,3) by (rule copied_keywords [OF assms(2)])
    ultimately show ?thesis
      using True res assms(12) row
      by (auto simp: copied_def Let_def change_curmail_def quota_exact_def)
  next
    case False
    then show ?thesis
      using assms(10,15) valid size by (auto simp: db_copymsg_def Let_def dm_codes)
  qed
qed

theorem copy_copies_and_charges_witness:
  "\<exists>new st'. db_copymsg 10 1 5 0 (demo_store 7) = (DM_EGENERAL, new, st') \<and> length (st_messages st') = 2 \<and>
     quota_exact st' 5"
proof -
  note ok = demo_ok [of 7, simplified]
  obtain c new st' where eq: "db_copymsg 10 1 5 0 (demo_store 7) = (c, new, st')" by (cases rule: prod_cases3)
  show ?thesis
    using copy_copies_and_charges [OF ok(1-4) _ ok(7) _ _ _ _ _ _ _ _ eq] eq
    by (simp add: demo_store_def demo_message_def demo_phys_def owner_of_def row_live_def MESSAGE_STATUS_DELETE_def
        sequence_end_def used_def total_size_def row_size_def)
qed

text \<open>
  C38: a copy can be lost without notice. When the INSERT raises an exception, be it an error of
  the database or the foreign key that a physmessage id cut to 32 bits violates, \<open>db_copymsg\<close>
  still returns what it returns on success and charges the user, but no message is added.
\<close>

theorem lost_copy_succeeds:
  assumes "store_wf st" "counted st u" "\<not> st_fails st (U_quota u)" "st_curmail st u = Some cur"
    and "map_of (st_messages st) i = Some m" "message_get_size st i \<noteq> 0"
    and "dm_quota_user_validate st u (message_get_size st i) = 1"
    and "st_fails st (X_copy i mb) \<or> st_phys st (scast (ucast (msg_phys m) :: 32 word)) = None"
    and "st_seq_strategy st = 1"
  shows "\<exists>st'. db_copymsg i mb u 0 st = (DM_EGENERAL, 0, st') \<and> st_messages st' = st_messages st \<and>
     st_curmail st' u = Some (cur + unat (message_get_size st i))"
proof -
  let ?s = "message_get_size st i"
  have ins: "insert_message (X_copy i mb) (copied_row st i mb) st = None"
    using assms(5,8) by (auto simp: insert_message_def copied_row_def)
  have "map_of (st_messages st) 0 = None"
    using assms(1) by (auto simp: store_wf_def ids_ok_def map_of_eq_None_iff)
  then have kw: "copy_keywords 0 i st = st" by (simp add: copy_keywords_def Let_def)
  have seq: "snd (db_mailbox_seq_update mb 0 st) = st \<or>
      snd (db_mailbox_seq_update mb 0 st) = st\<lparr>st_mailboxes := update_row mb bump (st_mailboxes st)\<rparr>"
    using assms(9) by (auto simp: db_mailbox_seq_update_def seq_update_1_def bump_seq_def read_seq_def query_def)
  have quota: "dm_quota_user_inc u ?s st' = (1, change_curmail u (\<lambda>n. n + unat ?s) st')"
    if "st_fails st' = st_fails st" "st_users st' = st_users st" for st'
    using that assms(2,3)
    by (auto simp: dm_quota_user_inc_def not_delivery_user_def user_idnr_is_delivery_user_idnr_def counted_def
        dm_codes db_update_def)
  show ?thesis
    using assms(4,6,7) seq unfolding db_copymsg_def Let_def ins option.case prod.case kw
    by (auto simp: dm_codes quota change_curmail_def)
qed

theorem lost_copy_succeeds_witness:
  "\<exists>st'. db_copymsg 10 1 5 0 (demo_store 2147483648) = (DM_EGENERAL, 0, st') \<and>
     st_messages st' = st_messages (demo_store 2147483648) \<and> st_curmail st' 5 = Some 200"
  using lost_copy_succeeds [of "demo_store 2147483648" 5 100 10 "demo_message 1 2147483648" 1]
    demo_ok [of 2147483648]
  by (simp add: demo_store_def demo_message_def demo_phys_def)

end
