(* ===== verification/Mailboxes.thy ===== *)
theory Mailboxes
  imports Copying Dsn
begin

text \<open>
  Finding and creating mailboxes by name (\<open>db_findmailbox\<close>, \<open>db_imap_split_mailbox\<close>,
  \<open>db_mailbox_create_with_parents\<close>, \<open>db_find_create_mailbox\<close> of \<open>dm_db.c\<close> and
  \<open>quota_get_quotaroot\<close> of \<open>dm_quota.c\<close>), on the store.

  \<open>None\<close> stands for undefined behaviour: reading in front of a buffer, the abort of
  \<open>mailbox_remove_namespace\<close>, and the dangling state that \<open>MailboxState_new\<close> returns after an
  exception.
\<close>

section \<open>Finding\<close>

text \<open>A query without ORDER BY; the first row of the table that matches is taken.\<close>

definition db_findmailbox_owner :: "store \<Rightarrow> string \<Rightarrow> u64 \<Rightarrow> u64 option" where
  "db_findmailbox_owner st name owner_idnr =
     (let mailbox_like = mailbox_match_new name
      in case query st (Q_find owner_idnr name)
                (find (\<lambda>r. mbx_owner (snd r) = owner_idnr \<and> name_matches mailbox_like (mbx_name (snd r))) (st_mailboxes st)) of
           Some (Some r) \<Rightarrow> if fst r = 0 then None else Some (fst r)
         | _ \<Rightarrow> None)"

text \<open>
  The two loops over \<open>mbox\<close>. The first one decrements a \<open>size_t\<close> before it looks at it, and leaves
  the first character alone; the \<open>memmove\<close> of the second leaves out the terminating NUL.
\<close>

definition trim_mbox :: "string \<Rightarrow> string option" where
  "trim_mbox fq_name =
     (case fq_name of
        [] \<Rightarrow> None
      | c # cs \<Rightarrow>
          let mbox = c # rev (dropWhile (\<lambda>d. d = CHR ''/'') (rev cs));
              i = length (takeWhile (\<lambda>d. d = CHR ''/'') mbox)
          in Some (drop i mbox @ drop (length mbox - i) mbox))"

text \<open>The result is the id of the mailbox, or \<open>Some None\<close> for FALSE.\<close>

definition db_findmailbox :: "store \<Rightarrow> string \<Rightarrow> u64 \<Rightarrow> u64 option option" where
  "db_findmailbox st fq_name owner_idnr = do {
     mbox \<leftarrow> trim_mbox fq_name;
     p \<leftarrow> mailbox_remove_namespace mbox;
     case ns_name p of
       None \<Rightarrow> Some None
     | Some simple_name \<Rightarrow>
         (case ns_username p of
            None \<Rightarrow> Some (db_findmailbox_owner st simple_name owner_idnr)
          | Some username \<Rightarrow>
              (case st_users st username of
                 None \<Rightarrow> Some None
               | Some owner \<Rightarrow> Some (db_findmailbox_owner st simple_name owner)))
   }"

definition quota_get_quotaroot :: "store \<Rightarrow> u64 \<Rightarrow> string \<Rightarrow> (string + string) option" where
  "quota_get_quotaroot st useridnr mailbox =
     map_option (\<lambda>r. if r = None then Inl ''mailbox not found'' else Inr []) (db_findmailbox st mailbox useridnr)"

section \<open>Splitting\<close>

text \<open>
  The loop over the parts of the name; \<open>cpy\<close> is the path up to here, \<open>first\<close> says that \<open>i\<close> is 0.
  A failure carries the message.
\<close>

record split_env =
  sp_store :: store
  sp_owner :: u64
  sp_is_users :: bool
  sp_is_public :: bool

definition split_find :: "split_env \<Rightarrow> bool \<Rightarrow> string \<Rightarrow> (string + u64) option" where
  "split_find env first cpy =
     (if first \<and> sp_is_public env
      then (case st_users (sp_store env) PUBLIC_FOLDER_USER of
              None \<Rightarrow> Some (Inl ''Public user required for #Public folder access.'')
            | Some public \<Rightarrow>
                map_option (\<lambda>r. case r of None \<Rightarrow> Inl ''Public folder not found.'' | Some i \<Rightarrow> Inr i)
                  (db_findmailbox (sp_store env) cpy public))
      else map_option (\<lambda>r. case r of None \<Rightarrow> Inr 0 | Some i \<Rightarrow> Inr i)
             (db_findmailbox (sp_store env) cpy (sp_owner env)))"

definition split_state :: "split_env \<Rightarrow> string \<Rightarrow> u64 \<Rightarrow> mailboxstate option" where
  "split_state env cpy mboxid = do {
     M \<leftarrow> load_mailbox (sp_store env) mboxid;
     let M = MailboxState_setIsPublic (MailboxState_setIsUsers (MailboxState_setName M cpy) (sp_is_users env)) (sp_is_public env);
     owner \<leftarrow> (if sp_is_public env then st_users (sp_store env) PUBLIC_FOLDER_USER else Some (sp_owner env));
     Some (MailboxState_setOwner M owner)
   }"

fun split_loop :: "split_env \<Rightarrow> bool \<Rightarrow> string \<Rightarrow> string list \<Rightarrow> (string + mailboxstate list) option" where
  "split_loop env first cpy [] = Some (Inr [])"
| "split_loop env first cpy (part # parts) =
     (if part = [] \<and> parts \<noteq> [] then Some (Inl ''Invalid mailbox name specified'')
      else if part = [] then Some (Inr [])
      else let cpy = (if first then (if strcaseeq part ''inbox'' then ''INBOX'' else part)
                      else cpy @ MAILBOX_SEPARATOR @ part)
           in do {
             found \<leftarrow> split_find env first cpy;
             case found of
               Inl errmsg \<Rightarrow> Some (Inl errmsg)
             | Inr mboxid \<Rightarrow> do {
                 M \<leftarrow> split_state env cpy mboxid;
                 rest \<leftarrow> split_loop env False cpy parts;
                 Some (case rest of Inl errmsg \<Rightarrow> Inl errmsg | Inr Ms \<Rightarrow> Inr (M # Ms))
               }
           })"

text \<open>The message is \<open>None\<close> where the source leaves \<open>*errmsg\<close> unset.\<close>

definition db_imap_split_mailbox ::
  "store \<Rightarrow> string \<Rightarrow> u64 \<Rightarrow> (string option + mailboxstate list) option" where
  "db_imap_split_mailbox st mailbox owner_idnr = do {
     p \<leftarrow> mailbox_remove_namespace mailbox;
     let is_users = (case ns_namespace p of None \<Rightarrow> False | Some n \<Rightarrow> strcaseeq n NAMESPACE_USER);
     let is_public = (case ns_namespace p of None \<Rightarrow> False
                      | Some n \<Rightarrow> \<not> strcaseeq n NAMESPACE_USER \<and> strcaseeq n NAMESPACE_PUBLIC);
     case (case ns_username p of None \<Rightarrow> Some owner_idnr | Some username \<Rightarrow> st_users st username) of
       None \<Rightarrow> Some (Inl None)
     | Some owner \<Rightarrow>
         (case ns_name p of
            None \<Rightarrow> Some (Inl (Some ''Server ran out of memory''))
          | Some simple_name \<Rightarrow>
              let parts = g_strsplit CHR ''/'' simple_name
              in if parts = [] then Some (Inl (Some ''Invalid mailbox name specified''))
                 else map_option (\<lambda>r. case r of Inl e \<Rightarrow> Inl (Some e) | Inr Ms \<Rightarrow> Inr Ms)
                        (split_loop \<lparr>sp_store = st, sp_owner = owner, sp_is_users = is_users, sp_is_public = is_public\<rparr>
                           True [] parts))
   }"

section \<open>Creating\<close>

record create_state =
  cr_result :: int
  cr_id :: u64
  cr_message :: "string option"
  cr_store :: store

definition fail_with :: "int \<Rightarrow> string \<Rightarrow> create_state \<Rightarrow> create_state" where
  "fail_with result msg c = c\<lparr>cr_result := result, cr_message := Some msg\<rparr>"

text \<open>
  A mailbox that does not exist yet. \<open>db_subscribe\<close> returns 1 or \<open>DM_EQUERY\<close>, so that its failure
  is never seen; the permission of the state is set in any case where the mailbox was created.
\<close>

definition create_one :: "mailbox_source \<Rightarrow> u64 \<Rightarrow> mailboxstate \<Rightarrow> create_state \<Rightarrow> (mailboxstate \<times> create_state) option" where
  "create_one source owner_idnr M c =
     (if MailboxState_isUsers M \<and> MailboxState_getOwner M \<noteq> owner_idnr
      then Some (M, fail_with DM_EGENERAL ''Top-level mailboxes may not be created for others under #Users'' c)
      else do {
        let this_owner_idnr = (if MailboxState_isPublic M then MailboxState_getOwner M else owner_idnr);
        name \<leftarrow> mb_name M;
        (result, created, st) \<leftarrow> db_createmailbox name this_owner_idnr (cr_store c);
        let c = c\<lparr>cr_id := created, cr_store := st\<rparr>;
        let (M, c) =
          (if result = DM_EGENERAL then (M, fail_with DM_EGENERAL ''General error while creating'' c)
           else if result = DM_EQUERY then (M, fail_with DM_EQUERY ''Database error while creating'' c)
           else let (subscribed, st) = (if source \<noteq> BOX_IMAP then db_subscribe created owner_idnr st else (1, st));
                    c = c\<lparr>cr_store := st\<rparr>
                in (MailboxState_setPermission M IMAPPERM_READWRITE,
                    if subscribed = 0 then fail_with DM_EGENERAL ''General error while subscribing'' c else c));
        let c =
          (if MailboxState_isPublic M
           then case store_set_rights owner_idnr created ''lrswipkxteacd'' (cr_store c) of (result, st) \<Rightarrow>
                  let c = c\<lparr>cr_store := st\<rparr>
                  in if result = DM_EQUERY then fail_with DM_EQUERY ''Database error while setting rights'' c else c
           else c);
        Some (if cr_result c = DM_SUCCESS
              then (MailboxState_setId M created, c\<lparr>cr_message := Some ''Folder created''\<rparr>)
              else (M, c))
      })"

definition check_one :: "u64 \<Rightarrow> mailboxstate \<Rightarrow> create_state \<Rightarrow> create_state" where
  "check_one owner_idnr M c =
     (let inferiors = db_noinferiors (cr_store c) (MailboxState_getId M);
          c = (if inferiors = DM_EGENERAL then fail_with DM_EGENERAL ''Mailbox cannot have inferior names'' c
               else if inferiors = DM_EQUERY
               then fail_with DM_EQUERY ''Internal database error while checking inferiors'' c else c);
          right = acl_has_right (acl_view (cr_store c)) M owner_idnr ACL_RIGHT_CREATE
      in if right = 0 then fail_with DM_EGENERAL ''Permission to create mailbox denied'' c
         else if right < 0 then fail_with DM_EQUERY ''Internal database error while checking ACL'' c
         else c)"

fun create_loop :: "mailbox_source \<Rightarrow> u64 \<Rightarrow> mailboxstate list \<Rightarrow> create_state \<Rightarrow> create_state option" where
  "create_loop source owner_idnr [] c = Some c"
| "create_loop source owner_idnr (M # Ms) c = do {
     (M, c) \<leftarrow> (if MailboxState_getId M = 0 then create_one source owner_idnr M c else Some (M, c));
     if cr_result c \<noteq> DM_SUCCESS then Some c
     else let c = (if source \<noteq> BOX_BRUTEFORCE then check_one owner_idnr M c else c)
          in if cr_result c \<noteq> DM_SUCCESS then Some c else create_loop source owner_idnr Ms c
   }"

definition db_mailbox_create_with_parents ::
  "string \<Rightarrow> mailbox_source \<Rightarrow> u64 \<Rightarrow> store \<Rightarrow> create_state option" where
  "db_mailbox_create_with_parents mailbox source owner_idnr st =
     (let c = \<lparr>cr_result = DM_SUCCESS, cr_id = 0, cr_message = None, cr_store = st\<rparr>
      in if \<not> checkmailboxname mailbox
         then Some (fail_with DM_EGENERAL ''New mailbox name contains invalid characters'' c)
         else do {
           found \<leftarrow> db_findmailbox st mailbox owner_idnr;
           case found of
             Some i \<Rightarrow> Some (fail_with DM_EGENERAL ''Mailbox already exists'' (c\<lparr>cr_id := i\<rparr>))
           | None \<Rightarrow> do {
               parts \<leftarrow> db_imap_split_mailbox st mailbox owner_idnr;
               case parts of
                 Inl message \<Rightarrow> Some (c\<lparr>cr_result := DM_EGENERAL, cr_message := message\<rparr>)
               | Inr [] \<Rightarrow> Some (c\<lparr>cr_result := DM_EGENERAL, cr_message := Some ''Everything is peachy keen''\<rparr>)
               | Inr Ms \<Rightarrow> create_loop source owner_idnr Ms (c\<lparr>cr_message := Some ''Everything is peachy keen''\<rparr>)
             }
         })"

text \<open>The result code, the mailbox and the store.\<close>

definition find_or_create :: "string \<Rightarrow> mailbox_source \<Rightarrow> u64 \<Rightarrow> store \<Rightarrow> (int \<times> u64 \<times> store) option" where
  "find_or_create name source owner_idnr st = do {
     found \<leftarrow> db_findmailbox st name owner_idnr;
     case found of
       Some mboxidnr \<Rightarrow> Some (DM_SUCCESS, mboxidnr, st)
     | None \<Rightarrow> do {
         c \<leftarrow> db_mailbox_create_with_parents name source owner_idnr st;
         Some (if cr_result c \<noteq> DM_SUCCESS then (DM_EQUERY, 0, cr_store c) else (DM_SUCCESS, cr_id c, cr_store c))
       }
   }"

definition db_find_create_mailbox ::
  "string \<Rightarrow> mailbox_source \<Rightarrow> u64 \<Rightarrow> store \<Rightarrow> (int \<times> u64 \<times> store) option" where
  "db_find_create_mailbox name source owner_idnr st =
     (if source \<in> {BOX_COMMANDLINE, BOX_BRUTEFORCE, BOX_SORTING, BOX_DEFAULT}
      then find_or_create name source owner_idnr st
      else do {
        found \<leftarrow> db_findmailbox st name owner_idnr;
        case found of
          Some mboxidnr \<Rightarrow> Some (DM_SUCCESS, mboxidnr, st)
        | None \<Rightarrow> find_or_create ''INBOX'' BOX_DEFAULT owner_idnr st
      })"

section \<open>What the operations keep\<close>

lemma find_in: "find P xs = Some x \<Longrightarrow> P x \<and> x \<in> set xs"
  by (induction xs) (auto split: if_splits)

lemma findmailbox_owner_row:
  assumes "db_findmailbox_owner st name owner = Some i"
  shows "\<exists>r. (i, r) \<in> set (st_mailboxes st) \<and> mbx_owner r = owner \<and> name_matches (mailbox_match_new name) (mbx_name r)"
proof -
  obtain r where "find (\<lambda>r. mbx_owner (snd r) = owner \<and> name_matches (mailbox_match_new name) (mbx_name (snd r)))
      (st_mailboxes st) = Some r" "i = fst r"
    using assms by (auto simp: db_findmailbox_owner_def Let_def query_def split: option.splits if_splits)
  with find_in [OF this(1)] show ?thesis by (cases r) auto
qed

lemma wf_createmailbox: "store_wf st \<Longrightarrow> db_createmailbox n u st = Some (r, i, st') \<Longrightarrow> store_wf st'"
  by (auto simp: db_createmailbox_def split: if_splits option.splits dest: wf_insert_mailbox)

text \<open>
  \<open>later st st'\<close>: the tables stay well formed, and a key of the table of messages that \<open>st'\<close> has
  and \<open>st\<close> had not is one that the sequence had not given out.
\<close>

definition later :: "store \<Rightarrow> store \<Rightarrow> bool" where
  "later st st' \<longleftrightarrow> (store_wf st \<longrightarrow> store_wf st') \<and> st_next_message st \<le> st_next_message st' \<and>
     (\<forall>i \<in> set (map fst (st_messages st')). i \<in> set (map fst (st_messages st)) \<or> st_next_message st \<le> i)"

lemma later_refl [simp]: "later st st"
  by (simp add: later_def)

lemma later_trans: "later st st' \<Longrightarrow> later st' st'' \<Longrightarrow> later st st''"
  unfolding later_def by (meson order_trans)

lemma later_same:
  assumes "store_wf st \<Longrightarrow> store_wf st'" "set (map fst (st_messages st')) \<subseteq> set (map fst (st_messages st))"
    and "st_next_message st' = st_next_message st"
  shows "later st st'"
  using assms unfolding later_def by auto

lemma later_not_delivery_user: "later st (snd (not_delivery_user u f st))"
  by (rule later_same [OF wf_not_delivery_user])
    (simp_all add: not_delivery_user_def db_update_def change_curmail_def Let_def)

lemma later_quota:
  "later st (snd (dm_quota_user_inc u n st))" "later st (snd (dm_quota_user_dec u n st))"
  "later st (snd (dm_quota_user_set u n st))"
  by (simp_all add: dm_quota_user_inc_def dm_quota_user_dec_def dm_quota_user_set_def later_not_delivery_user)

lemma seq_update_keys:
  "map fst (st_messages (snd (db_mailbox_seq_update m i st))) = map fst (st_messages st) \<and>
   st_next_message (snd (db_mailbox_seq_update m i st)) = st_next_message st"
  by (auto simp: db_mailbox_seq_update_def seq_update_1_def seq_update_2_def bump_seq_def split: option.splits)

lemma later_seq_update: "later st (snd (db_mailbox_seq_update m i st))"
  using seq_update_keys [of m i st] by (intro later_same [OF wf_seq_update]) (simp_all del: set_map)

lemma later_copy_keywords: "later st (copy_keywords i j st)"
  by (rule later_same [OF wf_copy_keywords]) (simp_all add: copy_keywords_def Let_def)

lemma later_insert_message:
  assumes "insert_message stmt m st = Some (i, st')" "store_wf st \<Longrightarrow> length (msg_flags m) = IMAP_NFLAGS"
  shows "later st st'"
proof -
  have st': "i = st_next_message st" "i < sequence_end"
      "st' = st\<lparr>st_messages := st_messages st @ [(i, m)], st_next_message := i + 1\<rparr>"
    using assms(1) by (auto simp: insert_message_def split: if_splits)
  then show ?thesis
    using wf_insert_message(1) [OF _ assms(1)] assms(2) word_succ_bound(1) [OF st'(2)] by (auto simp: later_def)
qed

lemma later_copymsg: "later st (snd (snd (db_copymsg i m u n st)))"
proof -
  obtain n1 st1 where ins: "(case insert_message (X_copy i m) (copied_row st i m) st of None \<Rightarrow> (n, st) | Some r \<Rightarrow> r) = (n1, st1)"
    by force
  then have "later st st1"
    using later_insert_message [of "X_copy i m" "copied_row st i m" st] copied_row_flags [of st i m]
    by (auto split: option.splits)
  then have "later st (snd (dm_quota_user_inc u (message_get_size st i) (snd (db_mailbox_seq_update m n1 (copy_keywords n1 i st1)))))"
    by (rule later_trans [OF later_trans [OF later_trans [OF _ later_copy_keywords] later_seq_update] later_quota(1)])
  then show ?thesis
    using ins by (auto simp: db_copymsg_def Let_def split: prod.splits)
qed

lemma later_update:
  assumes "\<And>st. store_wf st \<Longrightarrow> store_wf (f st)"
    and "\<And>st. set (map fst (st_messages (f st))) \<subseteq> set (map fst (st_messages st)) \<and> st_next_message (f st) = st_next_message st"
  shows "later st (snd (db_update stmt f st))"
  using assms by (intro later_same) (simp_all add: db_update_def)

lemma later_remove:
  "later st (snd (db_update stmt (remove_messages P) st))" "later st (snd (db_update stmt (remove_mailbox k) st))"
proof -
  show "later st (snd (db_update stmt (remove_messages P) st))"
    by (rule later_update [OF wf_remove_messages]) (auto simp: remove_messages_def Let_def)
  show "later st (snd (db_update stmt (remove_mailbox k) st))"
    by (rule later_update [OF wf_remove_mailbox]) (auto simp: remove_mailbox_def remove_messages_def Let_def)
qed

lemma later_messages:
  "later st (snd (db_set_message_status i s st))" "later st (snd (db_delete_message i st))"
  "later st (db_message_set_seq i q st)" "later st (snd (db_move_message i m st))" "later st (snd (db_movemsg a b st))"
proof -
  show "later st (snd (db_set_message_status i s st))" unfolding db_set_message_status_def
    by (rule later_update) (auto simp: message_ok_def simp del: set_map intro!: wf_update_message)
  show "later st (snd (db_delete_message i st))" unfolding db_delete_message_def by (rule later_remove)
  show "later st (db_message_set_seq i q st)"
    by (rule later_same) (auto simp: db_message_set_seq_def raise_seq_def simp del: set_map intro!: wf_update_message)
  show "later st (snd (db_move_message i m st))"
    by (rule later_same [OF wf_move_message]) (auto simp: db_move_message_def db_update_def simp del: set_map)
  have keys: "map fst (map (\<lambda>(i, m). (i, f i m)) xs) = map fst xs" for f and xs :: "(u64 \<times> message_row) list"
    by (simp add: comp_def case_prod_beta)
  show "later st (snd (db_movemsg a b st))"
    by (rule later_same [OF wf_movemsg]) (simp_all add: db_movemsg_def Let_def seq_update_keys keys del: set_map map_map)
qed

lemma later_delete_mailbox:
  assumes "db_delete_mailbox m e c st = Some (r, st')"
  shows "later st st'"
proof -
  have base: "later st (snd (if e then mailbox_empty m st else mailbox_delete m st))"
    by (simp add: mailbox_empty_def mailbox_delete_def later_remove)
  have "later st st2" "later st (snd (dm_quota_user_dec u s st2))"
    if "(if e then mailbox_empty m st else mailbox_delete m st) = (x, st2)" for x st2 u s
    using base later_trans [OF _ later_quota(2)] that by simp_all
  then show ?thesis
    using assms unfolding db_delete_mailbox_def Let_def
    by (auto split: prod.splits if_splits bind_splits) (metis snd_conv)+
qed

lemma later_empty_mailbox:
  assumes "db_empty_mailbox u e st = Some (r, st')"
  shows "later st st'"
proof -
  have "later st st'" if "empty_loop ids e st = Some (r, st')" for ids st
    using that
  proof (induction ids arbitrary: st)
    case (Cons i ids)
    then obtain x st1 where del: "db_delete_mailbox i e True st = Some (x, st1)" by (auto split: bind_splits)
    with Cons.prems have "st' = st1 \<or> empty_loop ids e st1 = Some (r, st')" by (auto split: if_splits)
    then show ?case
      using later_delete_mailbox [OF del] Cons.IH [of st1] later_trans [of st st1 st'] by blast
  qed simp
  then show ?thesis using assms by (auto simp: db_empty_mailbox_def split: option.splits if_splits)
qed

lemma later_mailboxes:
  "later st (snd (db_mailbox_set_permission m p st))" "later st (snd (db_setmailboxname m n st))"
  "later st (snd (db_subscribe m u st))" "later st (snd (db_unsubscribe m u st))"
  "later st (snd (store_set_rights u m s st))" "later st (snd (dm_quota_rebuild_user u st))"
proof -
  show "later st (snd (db_mailbox_set_permission m p st))" unfolding db_mailbox_set_permission_def
    by (rule later_update) (auto intro!: wf_update_mailbox)
  show "later st (snd (db_setmailboxname m n st))"
    by (rule later_same [OF wf_setmailboxname]) (auto simp: db_setmailboxname_def)
  show "later st (snd (db_subscribe m u st))"
    by (rule later_same [OF wf_subscribe]) (auto simp: db_subscribe_def)
  show "later st (snd (db_unsubscribe m u st))" unfolding db_unsubscribe_def
    by (rule later_update) (auto simp: store_wf_def message_ok_def)
  show "later st (snd (store_set_rights u m s st))"
    by (rule later_same [OF wf_set_rights]) (auto simp: store_set_rights_def split: prod.splits)
  show "later st (snd (dm_quota_rebuild_user u st))"
    using later_quota(3) by (auto simp: dm_quota_rebuild_user_def split: option.splits prod.splits) (metis snd_conv)
qed

lemma later_createmailbox: "db_createmailbox n u st = Some (r, i, st') \<Longrightarrow> later st st'"
  by (rule later_same, erule (1) wf_createmailbox)
    (auto simp: db_createmailbox_def insert_mailbox_def split: if_splits option.splits)

lemma fail_with_simps [simp]:
  "cr_store (fail_with r s c) = cr_store c" "cr_result (fail_with r s c) = r" "cr_id (fail_with r s c) = cr_id c"
  by (simp_all add: fail_with_def)

lemma check_one_store [simp]: "cr_store (check_one u M c) = cr_store c" "cr_id (check_one u M c) = cr_id c"
  by (simp_all add: check_one_def Let_def)

lemma later_create_one:
  assumes "create_one source u M c = Some (M', c')"
  shows "later (cr_store c) (cr_store c')"
proof (cases "MailboxState_isUsers M \<and> MailboxState_getOwner M \<noteq> u")
  case True
  then show ?thesis using assms by (auto simp: create_one_def)
next
  case False
  let ?owner = "if MailboxState_isPublic M then MailboxState_getOwner M else u"
  obtain name r i st where st: "mb_name M = Some name" "db_createmailbox name ?owner (cr_store c) = Some (r, i, st)"
    using assms False by (auto simp: create_one_def split: bind_splits)
  let ?sub = "if source \<noteq> BOX_IMAP then db_subscribe i u st else (1, st)"
  have l1: "later (cr_store c) st" by (rule later_createmailbox [OF st(2)])
  then have l2: "later (cr_store c) (snd ?sub)" using later_trans [OF l1 later_mailboxes(3)] by simp
  have l3: "later (cr_store c) (snd (store_set_rights u i s st'))" if "later (cr_store c) st'" for s st'
    using later_trans [OF that later_mailboxes(5)] .
  have "cr_store c' \<in> {st, snd ?sub, snd (store_set_rights u i ''lrswipkxteacd'' st),
      snd (store_set_rights u i ''lrswipkxteacd'' (snd ?sub))}"
    using assms False st
    by (auto simp: create_one_def Let_def MailboxState_isPublic_def MailboxState_setPermission_def
        split: prod.splits if_splits)
  then show ?thesis using l1 l2 l3 by auto
qed

lemma later_create_loop: "create_loop source u Ms c = Some c' \<Longrightarrow> later (cr_store c) (cr_store c')"
proof (induction Ms arbitrary: c)
  case (Cons M Ms)
  let ?one = "if MailboxState_getId M = 0 then create_one source u M c else Some (M, c)"
  obtain M1 c1 where one: "?one = Some (M1, c1)"
    using Cons.prems by (auto split: bind_splits)
  then have l1: "later (cr_store c) (cr_store c1)"
    using later_create_one by (auto split: if_splits)
  let ?c = "if source \<noteq> BOX_BRUTEFORCE then check_one u M1 c1 else c1"
  have "cr_store c' = cr_store c1 \<or> create_loop source u Ms ?c = Some c'"
    using Cons.prems one by (auto simp: Let_def split: if_splits)
  moreover have "cr_store ?c = cr_store c1" by simp
  ultimately show ?case using l1 Cons.IH [of ?c] later_trans by metis
qed simp

lemma later_create_with_parents:
  assumes "db_mailbox_create_with_parents name source u st = Some c"
  shows "later st (cr_store c)"
proof -
  have "cr_store c = st \<or> (\<exists>Ms c0. cr_store c0 = st \<and> create_loop source u Ms c0 = Some c)"
    using assms
    by (auto simp: db_mailbox_create_with_parents_def Let_def simp del: create_loop.simps
        split: if_splits bind_splits option.splits sum.splits list.splits)
  then show ?thesis using later_create_loop by auto
qed

lemma later_find_create:
  assumes "db_find_create_mailbox name source u st = Some (r, i, st')"
  shows "later st st'"
proof -
  have "later st st'" if "find_or_create n s u st = Some (r, i, st')" for n s
    using that later_create_with_parents
    by (auto simp: find_or_create_def split: bind_splits option.splits if_splits)
  then show ?thesis
    using assms by (auto simp: db_find_create_mailbox_def split: if_splits bind_splits option.splits)
qed

section \<open>The operations as a transition system\<close>

inductive store_step :: "store \<Rightarrow> store \<Rightarrow> bool" where
  copy: "db_copymsg i m u n st = (r, k, st') \<Longrightarrow> store_step st st'"
| status: "db_set_message_status i s st = (r, st') \<Longrightarrow> store_step st st'"
| delete: "db_delete_message i st = (r, st') \<Longrightarrow> store_step st st'"
| move: "db_move_message i m st = (r, st') \<Longrightarrow> store_step st st'"
| move_all: "db_movemsg a b st = (r, st') \<Longrightarrow> store_step st st'"
| seq: "db_mailbox_seq_update m i st = (q, st') \<Longrightarrow> store_step st st'"
| message_seq: "store_step st (db_message_set_seq i q st)"
| remove: "db_delete_mailbox m e c st = Some (r, st') \<Longrightarrow> store_step st st'"
| remove_all: "db_empty_mailbox u e st = Some (r, st') \<Longrightarrow> store_step st st'"
| permission: "db_mailbox_set_permission m p st = (r, st') \<Longrightarrow> store_step st st'"
| rename: "db_setmailboxname m name st = (r, st') \<Longrightarrow> store_step st st'"
| subscribe: "db_subscribe m u st = (r, st') \<Longrightarrow> store_step st st'"
| unsubscribe: "db_unsubscribe m u st = (r, st') \<Longrightarrow> store_step st st'"
| rights: "store_set_rights u m s st = (r, st') \<Longrightarrow> store_step st st'"
| quota: "dm_quota_user_set u s st = (r, st') \<Longrightarrow> store_step st st'"
| rebuild: "dm_quota_rebuild_user u st = (r, st') \<Longrightarrow> store_step st st'"
| create: "db_mailbox_create_with_parents name src u st = Some c \<Longrightarrow> store_step st (cr_store c)"
| find_create: "db_find_create_mailbox name src u st = Some (r, i, st') \<Longrightarrow> store_step st st'"

lemma step_later: "store_step st st' \<Longrightarrow> later st st'"
  by (induction rule: store_step.induct)
    (metis later_copymsg later_messages later_seq_update later_mailboxes later_quota snd_conv
      later_delete_mailbox later_empty_mailbox later_create_with_parents later_find_create)+

lemma steps_later: "store_step\<^sup>*\<^sup>* st st' \<Longrightarrow> later st st'"
  by (induction rule: rtranclp_induct) (auto intro: later_trans step_later)

lemma delete_step: "store_step\<^sup>*\<^sup>* st (snd (db_delete_message i st))"
  by (rule r_into_rtranclp, rule store_step.delete, rule surjective_pairing)

section \<open>Properties\<close>





text \<open>
  C40: \<open>db_findmailbox\<close> means to drop the slashes in front of a name, but the \<open>memmove\<close> leaves the
  end of the buffer as it was: the last characters are searched for twice. The mailbox \<open>foo\<close> is
  not found as \<open>/foo\<close>, while the mailbox \<open>fooo\<close> is; and an empty name reads in front of the
  buffer.
\<close>

theorem findmailbox_leading_slash:
  assumes "name \<noteq> []" "hd name \<noteq> CHR ''/''" "last name \<noteq> CHR ''/''"
  shows "db_findmailbox st (CHR ''/'' # name) u = db_findmailbox st (name @ [last name]) u \<and>
     db_findmailbox st [] u = None"
proof -
  have no: "dropWhile (\<lambda>d. d = CHR ''/'') (rev xs) = rev xs" if "xs = [] \<or> last xs \<noteq> CHR ''/''" for xs
    using that by (cases xs rule: rev_cases) auto
  have take0: "takeWhile (\<lambda>d. d = CHR ''/'') name = []" using assms(1,2) by (cases name) auto
  obtain c cs where name: "name = c # cs" using assms(1) by (cases name) auto
  have "trim_mbox (CHR ''/'' # name) = Some (name @ drop (length name) (CHR ''/'' # name))"
    using no [of name] assms(3) take0 by (simp add: trim_mbox_def)
  also have "drop (length name) (CHR ''/'' # name) = [last name]"
    using assms(1) by (cases name rule: rev_cases) auto
  finally have 1: "trim_mbox (CHR ''/'' # name) = Some (name @ [last name])" .
  have 2: "trim_mbox (name @ [last name]) = Some (name @ [last name])"
    using no [of "cs @ [last name]"] assms(2,3) by (simp add: trim_mbox_def name)
  show ?thesis unfolding db_findmailbox_def 1 2 by (simp add: trim_mbox_def)
qed

theorem findmailbox_leading_slash_witness:
  "db_findmailbox (demo_store 7) ''/INBOX'' 5 = Some None \<and> db_findmailbox (demo_store 7) ''INBOX'' 5 = Some (Some 1)"
proof -
  have "db_findmailbox (demo_store 7) ''INBOXX'' 5 = Some None" "db_findmailbox (demo_store 7) ''INBOX'' 5 = Some (Some 1)"
    by code_simp+
  then show ?thesis using findmailbox_leading_slash [of "''INBOX''" "demo_store 7" 5] by simp
qed

end
