(* ===== verification/Creating.thy ===== *)
theory Creating
  imports Mailboxes
begin

text \<open>
  What creating a mailbox with its parents achieves: after a success every prefix of the path can
  be found, and nothing but the missing prefixes was added.
\<close>

section \<open>Loading keeps the identity\<close>

lemma remap_loop_id: "remap_loop ids (n, M) = Some M' \<Longrightarrow> mb_id M' = mb_id M"
proof (induction ids arbitrary: n M)
  case (Cons u ids)
  then show ?case
    by (auto simp: remap_step_def split: bind_splits option.splits if_splits)
qed simp

lemma getmailbox_seq_id: "db_getmailbox_seq q N = Some N' \<Longrightarrow> mb_id N' = mb_id N"
proof -
  have "mb_id (case row of None \<Rightarrow> N | Some (name, s) \<Rightarrow> N\<lparr>mb_name := f name, mb_seq := s\<rparr>) = mb_id N" for row f
    by (simp split: option.split prod.split)
  then show "db_getmailbox_seq q N = Some N' \<Longrightarrow> mb_id N' = mb_id N" by (auto simp: db_getmailbox_seq_def)
qed

lemma setMsginfo_id: "MailboxState_setMsginfo M t = Some M' \<Longrightarrow> mb_id M' = mb_id M"
  by (auto simp: MailboxState_setMsginfo_def MailboxState_remap_def MailboxState_uid_msn_new_def dest!: remap_loop_id)

lemma load_messages_id:
  assumes "state_load_messages sync batch db M cold = Some (d, M')"
  shows "mb_id M' = mb_id M"
proof -
  obtain q N where N: "MailboxState_getSeq (q_seq db) M = (q, N)" by force
  then have "mb_id N = mb_id M"
    by (auto simp: MailboxState_getSeq_def split: option.splits if_splits dest: getmailbox_seq_id)
  then show ?thesis
    using assms N by (auto simp: state_load_messages_def Let_def split: bind_splits if_splits dest!: setMsginfo_id)
qed

lemma load_metadata_id:
  assumes "state_load_metadata auth db M = Some M'"
  shows "mb_id M' = mb_id M"
proof -
  have kw: "mb_id (fold (\<lambda>k M. MailboxState_addKeyword M k) ks N) = mb_id N" for ks N
    by (induction ks arbitrary: N) (auto simp: MailboxState_addKeyword_def)
  have 2: "db_getmailbox_permission (q_permission db) N = Some N' \<Longrightarrow> mb_id N' = mb_id N" for N N'
    by (auto simp: db_getmailbox_permission_def split: option.splits if_splits)
  have 3: "committed (db_getmailbox_count db N) = Some N' \<Longrightarrow> mb_id N' = mb_id N" for N N'
    by (auto simp: db_getmailbox_count_def committed_def Let_def split: option.splits prod.splits if_splits)
  have 4: "db_getmailbox_keywords db N = Some N' \<Longrightarrow> mb_id N' = mb_id N" for N N'
    by (auto simp: db_getmailbox_keywords_def kw)
  have info: "mb_id (info_of_row auth r N) = mb_id N" for r N
    by (auto simp: info_of_row_def Let_def MailboxState_setName_def split: prod.splits)
  have 5: "committed (db_getmailbox_info auth db N) = Some N' \<Longrightarrow> mb_id N' = mb_id N" for N N'
    by (auto simp: db_getmailbox_info_def committed_def Let_def info split: option.splits if_splits)
  show ?thesis
    using assms by (auto simp: state_load_metadata_def Let_def split: if_splits bind_splits dest!: getmailbox_seq_id 2 3 4 5)
qed

lemma load_mailbox_id: "load_mailbox st i = Some M \<Longrightarrow> mb_id M = i"
  by (auto simp: load_mailbox_def MailboxState_new_def mailbox_zero_def split: if_splits bind_splits
      dest!: load_metadata_id load_messages_id)

section \<open>Plain names\<close>

definition plain :: "string \<Rightarrow> bool" where
  "plain n \<longleftrightarrow> n \<noteq> [] \<and> hd n \<noteq> CHR ''/'' \<and> hd n \<noteq> CHR ''#'' \<and> last n \<noteq> CHR ''/'' \<and> set n \<inter> {CHR ''%'', CHR 0x5C} = {}"

lemma no_trailing: "n = [] \<or> last n \<noteq> c \<Longrightarrow> dropWhile (\<lambda>d. d = c) (rev n) = rev n"
  by (cases n rule: rev_cases) auto

lemma hash_tolower: "tolower c = tolower CHR ''#'' \<longleftrightarrow> c = CHR ''#''"
proof
  assume eq: "tolower c = tolower CHR ''#''"
  then have t: "tolower c = CHR ''#''" by (simp add: ctype_defs)
  have "\<not> (65 \<le> code c \<and> code c \<le> 90)"
  proof
    assume c: "65 \<le> code c \<and> code c \<le> 90"
    then have "code (tolower c) = code c + 32" by (simp add: tolower_def)
    with t c show False by (simp add: code_def)
  qed
  with t show "c = CHR ''#''" by (simp add: tolower_def)
qed simp

lemma remove_namespace_plain:
  assumes "plain n"
  shows "mailbox_remove_namespace n = Some \<lparr>ns_name = Some n, ns_namespace = None, ns_username = None\<rparr>"
proof -
  have "\<not> strncaseeq (Suc k) n (CHR ''#'' # s)" for k s
    using assms hash_tolower by (cases n) (auto simp: plain_def strncaseeq_def)
  then show ?thesis
    using assms no_trailing [of n]
    by (simp add: mailbox_remove_namespace_def plain_def namespace_defs)
qed

lemma trim_mbox_plain:
  assumes "plain n"
  shows "trim_mbox n = Some n"
proof (cases n)
  case (Cons c cs)
  then have "dropWhile (\<lambda>d. d = CHR ''/'') (rev cs) = rev cs"
    using assms by (intro no_trailing) (auto simp: plain_def)
  then show ?thesis using assms Cons by (simp add: trim_mbox_def plain_def)
qed (use assms in \<open>simp add: plain_def\<close>)

lemma findmailbox_plain: "plain n \<Longrightarrow> db_findmailbox st n u = Some (db_findmailbox_owner st n u)"
  by (simp add: db_findmailbox_def trim_mbox_plain remove_namespace_plain)

lemma name_matches_same:
  "plain n \<Longrightarrow> name_matches (mailbox_match_new n) m \<longleftrightarrow> same_mailbox False n m"
  using match_new_same [of n m] by (simp add: plain_def name_matches_def)

lemma findmailbox_exists:
  assumes "healthy st" "store_wf st" "(i, r) \<in> set (st_mailboxes st)" "mbx_owner r = u"
    and "name_matches (mailbox_match_new n) (mbx_name r)"
  shows "\<exists>j. db_findmailbox_owner st n u = Some j"
proof -
  let ?P = "\<lambda>r. mbx_owner (snd r) = u \<and> name_matches (mailbox_match_new n) (mbx_name (snd r))"
  obtain x where x: "find ?P (st_mailboxes st) = Some x"
    using assms(3-5) by (cases "find ?P (st_mailboxes st)") (fastforce simp: find_None_iff)+
  have "ids_ok (st_mailboxes st) (st_next_mailbox st)" using assms(2) by (simp add: store_wf_def)
  then have "fst x \<noteq> 0" using conjunct2 [OF find_in [OF x]] by (force simp: ids_ok_def)
  then show ?thesis using assms(1) x by (simp add: db_findmailbox_owner_def Let_def)
qed

section \<open>The path of a mailbox\<close>

fun paths :: "bool \<Rightarrow> string \<Rightarrow> string list \<Rightarrow> string list" where
  "paths first cpy [] = []"
| "paths first cpy (part # parts) =
     (let cpy = (if first then (if strcaseeq part ''inbox'' then ''INBOX'' else part) else cpy @ MAILBOX_SEPARATOR @ part)
      in cpy # paths False cpy parts)"

text \<open>The state of a prefix: it is there under its id, or the id is 0 and it is not there.\<close>

definition stands_for :: "store \<Rightarrow> u64 \<Rightarrow> string \<Rightarrow> mailboxstate \<Rightarrow> bool" where
  "stands_for st u n M \<longleftrightarrow> mb_name M = Some n \<and> \<not> mb_is_users M \<and> \<not> mb_is_public M \<and> mb_owner_id M = u \<and>
     (mb_id M \<noteq> 0 \<longrightarrow> db_findmailbox st n u = Some (Some (mb_id M)))"

lemma split_loop_paths:
  assumes "split_loop env first cpy parts = Some (Inr Ms)" "\<not> sp_is_public env" "\<not> sp_is_users env"
    and "\<forall>p \<in> set parts. p \<noteq> []"
  shows "list_all2 (stands_for (sp_store env) (sp_owner env)) (paths first cpy parts) Ms"
  using assms
proof (induction parts arbitrary: first cpy Ms)
  case (Cons part parts)
  define c where "c = (if first then (if strcaseeq part ''inbox'' then ''INBOX'' else part) else cpy @ MAILBOX_SEPARATOR @ part)"
  obtain f where f: "db_findmailbox (sp_store env) c (sp_owner env) = Some f"
    using Cons.prems by (auto simp: c_def split_find_def Let_def split: bind_splits)
  let ?id = "case f of None \<Rightarrow> 0 | Some i \<Rightarrow> i"
  have found: "split_find env first c = Some (Inr ?id)"
    using f Cons.prems(2) by (simp add: split_find_def split: option.split)
  obtain M Ms' where M: "split_state env c ?id = Some M" "split_loop env False c parts = Some (Inr Ms')" "Ms = M # Ms'"
    using Cons.prems found by (auto simp: c_def [symmetric] Let_def split: bind_splits sum.splits)
  have "stands_for (sp_store env) (sp_owner env) c M"
    using M(1) f Cons.prems(2,3) load_mailbox_id
    by (fastforce simp: split_state_def Let_def stands_for_def MailboxState_setName_def MailboxState_setIsUsers_def
        MailboxState_setIsPublic_def MailboxState_setOwner_def split: bind_splits option.splits)
  then show ?case
    using Cons.IH [OF M(2)] Cons.prems M(3) by (simp add: c_def Let_def)
qed simp

text \<open>What the loop adds to the table.\<close>

definition grown :: "u64 \<Rightarrow> string set \<Rightarrow> store \<Rightarrow> store \<Rightarrow> bool" where
  "grown u A st st' \<longleftrightarrow> st_fails st' = st_fails st \<and> st_seq_strategy st' = st_seq_strategy st \<and> st_messages st' = st_messages st \<and>
     (\<exists>new. st_mailboxes st' = st_mailboxes st @ new \<and> (\<forall>x \<in> set new. mbx_owner (snd x) = u \<and> mbx_name (snd x) \<in> A))"

lemma grown_refl [simp]: "grown u A st st"
  by (simp add: grown_def)

lemma grown_trans: "grown u A st st' \<Longrightarrow> grown u A st' st'' \<Longrightarrow> grown u A st st''"
  by (auto simp: grown_def)

lemma grown_mono: "grown u A st st' \<Longrightarrow> A \<subseteq> B \<Longrightarrow> grown u B st st'"
  by (auto simp: grown_def)

lemma grown_rows: "grown u A st st' \<Longrightarrow> set (st_mailboxes st) \<subseteq> set (st_mailboxes st')"
  by (auto simp: grown_def)

lemma create_one_adds:
  assumes "create_one source u M c = Some (M', c')" "stands_for st u n M" "plain n" "cr_result c = DM_SUCCESS"
  shows "grown u {n} (cr_store c) (cr_store c') \<and>
     (cr_result c' = DM_SUCCESS \<longrightarrow> name_taken (cr_store c') u n)"
proof -
  have M: "mb_name M = Some n" "\<not> MailboxState_isUsers M" "\<not> MailboxState_isPublic M"
    using assms(2) by (simp_all add: stands_for_def MailboxState_isUsers_def MailboxState_isPublic_def)
  obtain r i st1 where cr: "db_createmailbox n u (cr_store c) = Some (r, i, st1)"
    using assms(1) M by (auto simp: create_one_def split: bind_splits)
  have grow: "grown u {n} (cr_store c) st1" "r = DM_SUCCESS \<Longrightarrow> name_taken st1 u n"
    using cr by (auto simp: db_createmailbox_def remove_namespace_plain [OF assms(3)] insert_mailbox_def grown_def
        name_taken_def dm_codes split: if_splits option.splits)
  have r: "r \<in> {DM_SUCCESS, DM_EGENERAL, DM_EQUERY}"
    using cr by (auto simp: db_createmailbox_def split: if_splits option.splits)
  have sub: "fst (db_subscribe i u st1) \<noteq> 0" "st_mailboxes (snd (db_subscribe i u st1)) = st_mailboxes st1"
      "grown u {n} st1 (snd (db_subscribe i u st1))"
    by (auto simp: db_subscribe_def grown_def dm_codes)
  let ?st2 = "if source \<noteq> BOX_IMAP then snd (db_subscribe i u st1) else st1"
  have c': "(r = DM_SUCCESS \<and> cr_result c' = DM_SUCCESS \<and> cr_store c' = ?st2) \<or>
      (r \<noteq> DM_SUCCESS \<and> cr_result c' \<noteq> DM_SUCCESS \<and> cr_store c' = st1)"
    using assms(1,4) M cr r sub(1)
    by (auto simp: create_one_def Let_def dm_codes MailboxState_isPublic_def MailboxState_setPermission_def
        split: prod.splits if_splits)
  have "grown u {n} (cr_store c) ?st2" using grown_trans [OF grow(1) sub(3)] grow(1) by simp
  moreover have "st_mailboxes ?st2 = st_mailboxes st1" using sub(2) by simp
  then have "name_taken ?st2 u n = name_taken st1 u n" by (simp add: name_taken_def)
  ultimately show ?thesis using c' grow by auto
qed

lemma grown_taken: "grown u A st st' \<Longrightarrow> name_taken st v n \<Longrightarrow> name_taken st' v n"
  by (auto simp: grown_def name_taken_def)

lemma create_loop_adds:
  assumes "create_loop source u Ms c = Some c'" "list_all2 (stands_for st u) names Ms" "\<forall>n \<in> set names. plain n"
    and "cr_result c = DM_SUCCESS" "cr_result c' = DM_SUCCESS"
  shows "grown u (set names) (cr_store c) (cr_store c') \<and>
     list_all2 (\<lambda>n M. mb_id M = 0 \<longrightarrow> name_taken (cr_store c') u n) names Ms"
  using assms
proof (induction Ms arbitrary: names c)
  case (Cons M Ms)
  obtain n ns where ns: "names = n # ns" "stands_for st u n M" "list_all2 (stands_for st u) ns Ms" "plain n"
    using Cons.prems(2,3) by (auto simp: list_all2_Cons2)
  obtain M1 c1 where one: "(if MailboxState_getId M = 0 then create_one source u M c else Some (M, c)) = Some (M1, c1)"
    using Cons.prems(1) by (auto split: bind_splits)
  let ?c = "if source \<noteq> BOX_BRUTEFORCE then check_one u M1 c1 else c1"
  have c1: "cr_result c1 = DM_SUCCESS" "cr_result ?c = DM_SUCCESS" "create_loop source u Ms ?c = Some c'"
    using Cons.prems(1,5) one by (auto simp: Let_def split: if_splits)
  have 1: "grown u {n} (cr_store c) (cr_store c1)" "mb_id M = 0 \<Longrightarrow> name_taken (cr_store c1) u n"
    using one create_one_adds [OF _ ns(2,4) Cons.prems(4)] c1(1)
    by (auto simp: MailboxState_getId_def split: if_splits)
  have 2: "grown u (set ns) (cr_store c1) (cr_store c')"
      "list_all2 (\<lambda>n M. mb_id M = 0 \<longrightarrow> name_taken (cr_store c') u n) ns Ms"
    using Cons.IH [OF c1(3) ns(3) _ c1(2) Cons.prems(5)] Cons.prems(3) ns(1) by (auto split: if_splits)
  show ?case
    using grown_trans [OF grown_mono [OF 1(1)] grown_mono [OF 2(1)], of "set names"] grown_taken [OF 2(1)] 1(2) 2(2) ns(1)
    by auto
qed simp

lemma paths_joined:
  assumes "\<forall>p \<in> set parts. p \<noteq> []"
  shows "paths False cpy parts = map (\<lambda>k. cpy @ concat (map (\<lambda>p. ''/'' @ p) (take (Suc k) parts))) [0..<length parts]"
  using assms
proof (induction parts arbitrary: cpy)
  case (Cons p ps)
  have "[0..<length (p # ps)] = 0 # map Suc [0..<length ps]"
    by (simp add: upt_conv_Cons map_Suc_upt del: upt_Suc)
  then show ?case using Cons by (simp add: MAILBOX_SEPARATOR_def Let_def comp_def)
qed simp

lemma join_with_concat: "join_with sep (p # ps) = p @ concat (map (\<lambda>q. sep @ q) ps)"
  by (induction ps arbitrary: p) auto

lemma paths_join:
  assumes "\<forall>p \<in> set parts. p \<noteq> []" "parts \<noteq> []" "strcaseeq (hd parts) ''inbox'' \<longrightarrow> hd parts = ''INBOX''"
  shows "paths True [] parts = map (\<lambda>k. join_with ''/'' (take (Suc k) parts)) [0..<length parts]"
proof -
  obtain p ps where parts: "parts = p # ps" using assms(2) by (cases parts) auto
  have "[0..<length (p # ps)] = 0 # map Suc [0..<length ps]"
    by (simp add: upt_conv_Cons map_Suc_upt del: upt_Suc)
  then show ?thesis
    using assms paths_joined [of ps p] by (auto simp: parts join_with_concat comp_def Let_def)
qed

lemma plain_prefix:
  assumes "\<forall>p \<in> set parts. p \<noteq> [] \<and> CHR ''/'' \<notin> set p" "parts \<noteq> []" "hd (hd parts) \<noteq> CHR ''#''"
    and "set (join_with ''/'' parts) \<inter> {CHR ''%'', CHR 0x5C} = {}" "k < length parts"
  shows "plain (join_with ''/'' (take (Suc k) parts))"
proof -
  obtain p ps where parts: "parts = p # ps" using assms(2) by (cases parts) auto
  let ?t = "concat (map ((@) ''/'') (take k ps))"
  have p: "p \<noteq> []" "CHR ''/'' \<notin> set p" using assms(1) parts by auto
  have "last (p @ ?t) \<noteq> CHR ''/''"
  proof (cases "take k ps" rule: rev_cases)
    case Nil
    then show ?thesis using p by (metis append_Nil2 concat.simps(1) last_in_set list.simps(8))
  next
    case (snoc qs q)
    then have "q \<in> set ps" by (metis in_set_conv_decomp set_take_subset subsetD)
    then have "q \<noteq> []" "CHR ''/'' \<notin> set q" using assms(1) parts by auto
    then show ?thesis using snoc by (auto dest: last_in_set)
  qed
  moreover have "set (p @ ?t) \<subseteq> set (join_with ''/'' parts)"
    using set_take_subset [of k ps] by (auto simp: parts join_with_concat)
  then have "set (p @ ?t) \<inter> {CHR ''%'', CHR 0x5C} = {}" using assms(4) by blast
  moreover have "hd (p @ ?t) = hd p" using p by simp
  moreover have "hd p \<noteq> CHR ''/''" using p by (metis list.set_sel(1))
  ultimately show ?thesis
    using p assms(3) unfolding plain_def parts take_Suc_Cons join_with_concat by simp
qed

lemma checked_chars:
  assumes "checkmailboxname s"
  shows "set s \<inter> {CHR ''%'', CHR 0x5C} = {}"
proof -
  have no: "CHR ''%'' \<notin> set AcceptedMailboxnameChars" "CHR 0x5C \<notin> set AcceptedMailboxnameChars"
    by (simp_all add: AcceptedMailboxnameChars_def)
  have "c \<in> set AcceptedMailboxnameChars \<or> c = CHR ''#''" if "c \<in> set s" for c
    using that assms unfolding checkmailboxname_def list_all_iff accepted_char_def in_set_conv_nth [of c s] by auto
  then show ?thesis using no by fastforce
qed

lemma create_with_parents_loop:
  assumes "db_mailbox_create_with_parents name source u st = Some c" "cr_result c = DM_SUCCESS" "plain name"
  obtains Ms c0 where "checkmailboxname name" "cr_store c0 = st" "cr_result c0 = DM_SUCCESS"
    "split_loop \<lparr>sp_store = st, sp_owner = u, sp_is_users = False, sp_is_public = False\<rparr> True []
       (g_strsplit CHR ''/'' name) = Some (Inr Ms)"
    "create_loop source u Ms c0 = Some c"
proof -
  have split: "db_imap_split_mailbox st name u =
      map_option (\<lambda>r. case r of Inl e \<Rightarrow> Inl (Some e) | Inr Ms \<Rightarrow> Inr Ms)
        (split_loop \<lparr>sp_store = st, sp_owner = u, sp_is_users = False, sp_is_public = False\<rparr> True []
           (g_strsplit CHR ''/'' name)) \<or> g_strsplit CHR ''/'' name = []"
    unfolding db_imap_split_mailbox_def remove_namespace_plain [OF assms(3)] by (simp add: Let_def)
  have ne: "g_strsplit CHR ''/'' name \<noteq> []"
    using assms(3) by (cases name) (auto simp: g_strsplit_def plain_def split: list.splits)
  let ?c0 = "\<lparr>cr_result = DM_SUCCESS, cr_id = 0, cr_message = Some ''Everything is peachy keen'', cr_store = st\<rparr>"
  show ?thesis
    using assms(1,2) split ne
    by (auto simp: db_mailbox_create_with_parents_def Let_def dm_codes simp del: create_loop.simps split_loop.simps
        split: if_splits bind_splits option.splits sum.splits list.splits intro!: that [of ?c0])
qed

section \<open>Properties\<close>



end
