(* ===== verification/Capa.thy ===== *)
theory Capa
  imports CString
begin

text \<open>
  The capabilities that the IMAP server announces (\<open>src/src/dm_capa.c\<close>). The two \<open>List_T\<close> of a
  \<open>Capa_T\<close> are the sequences of their texts, which is what the operations of \<open>dm_list.c\<close> refine
  (theory \<open>PList\<close>). \<open>None\<close> is the failing assertion that the current set is not empty.
\<close>

definition MAX_CAPASIZE :: nat where
  "MAX_CAPASIZE = 1024"

definition IMAP_CAPABILITY_STRING :: string where
  "IMAP_CAPABILITY_STRING =
     ''IMAP4rev1 AUTH=LOGIN AUTH=PLAIN AUTH=CRAM-MD5 ACL RIGHTS=texk NAMESPACE CHILDREN SORT QUOTA '' @
     ''THREAD=ORDEREDSUBJECT UNSELECT IDLE STARTTLS ID UIDPLUS WITHIN LOGINDISABLED CONDSTORE LITERAL+ '' @
     ''ENABLE QRESYNC''"

record capa =
  capabilities :: string
  max_set :: "string list"
  current_set :: "string list"
  dirty :: bool

definition capa_search :: "string list \<Rightarrow> string \<Rightarrow> string option" where
  "capa_search S c = find (\<lambda>s. strcaseeq s c) S"

definition capa_update :: "capa \<Rightarrow> capa" where
  "capa_update A =
     (if \<not> dirty A then A
      else A\<lparr>capabilities := take (MAX_CAPASIZE - 1) (join_with '' '' (current_set A)), dirty := False\<rparr>)"

text \<open>\<open>val\<close> is the value of the configuration item \<open>capability\<close>.\<close>

definition Capa_new :: "string \<Rightarrow> capa" where
  "Capa_new val =
     (let maxcapa = take (MAX_CAPASIZE - 1) (if 0 < length val then val else IMAP_CAPABILITY_STRING);
          v = g_strsplit CHR '' '' maxcapa
      in \<lparr>capabilities = [], max_set = v, current_set = v, dirty = True\<rparr>)"

definition Capa_as_string :: "capa \<Rightarrow> string \<times> capa" where
  "Capa_as_string A = (let A = capa_update A in (capabilities A, A))"

definition Capa_match :: "capa \<Rightarrow> string \<Rightarrow> bool" where
  "Capa_match A c \<longleftrightarrow> capa_search (current_set A) c \<noteq> None"

definition Capa_add :: "string \<Rightarrow> capa \<Rightarrow> capa" where
  "Capa_add c A =
     (case capa_search (max_set A) c of
        None \<Rightarrow> A
      | Some s \<Rightarrow> A\<lparr>current_set := current_set A @ [s], dirty := True\<rparr>)"

fun drop_first :: "string \<Rightarrow> string list \<Rightarrow> string list" where
  "drop_first c [] = []"
| "drop_first c (s # S) = (if strcaseeq s c then S else s # drop_first c S)"

definition Capa_remove :: "string \<Rightarrow> capa \<Rightarrow> capa option" where
  "Capa_remove c A =
     (case capa_search (current_set A) c of
        None \<Rightarrow> Some A
      | Some s \<Rightarrow>
          let S = drop_first c (current_set A)
          in if S = [] then None else Some (A\<lparr>current_set := S, dirty := True\<rparr>))"

section \<open>The current set\<close>

definition has :: "string \<Rightarrow> string list \<Rightarrow> bool" where
  "has c S \<longleftrightarrow> (\<exists>s \<in> set S. strcaseeq s c)"

text \<open>No capability is listed twice.\<close>

definition unique_capas :: "capa \<Rightarrow> bool" where
  "unique_capas A \<longleftrightarrow> distinct (map (map tolower) (current_set A))"

lemma search_none_iff: "capa_search S c = None \<longleftrightarrow> \<not> has c S"
  by (auto simp: capa_search_def has_def find_None_iff)

lemma match_has: "Capa_match A c \<longleftrightarrow> has c (current_set A)"
  by (simp add: Capa_match_def search_none_iff)

lemma drop_first_subset: "set (drop_first c S) \<subseteq> set S"
  by (induction S) auto

lemma drop_first_has:
  "distinct (map (map tolower) S) \<Longrightarrow> has d (drop_first c S) \<longleftrightarrow> has d S \<and> \<not> strcaseeq d c"
  by (induction S) (auto simp: has_def strcaseeq_def rev_image_eqI)

lemma drop_first_distinct: "distinct (map (map tolower) S) \<Longrightarrow> distinct (map (map tolower) (drop_first c S))"
proof (induction S)
  case (Cons s S)
  have "map tolower ` set (drop_first c S) \<subseteq> map tolower ` set S"
    using drop_first_subset by (rule image_mono)
  with Cons show ?case by auto
qed simp

text \<open>
  Removing a capability removes that capability and nothing else, adding one adds at most that
  one, and the string that is sent always lists the current set.
\<close>

lemma remove_match:
  assumes "unique_capas A" "Capa_remove c A = Some A'"
  shows "Capa_match A' d \<longleftrightarrow> Capa_match A d \<and> \<not> strcaseeq d c" "unique_capas A'" "max_set A' = max_set A"
proof -
  note A = assms(1) [unfolded unique_capas_def]
  have *: "(Capa_match A' d \<longleftrightarrow> Capa_match A d \<and> \<not> strcaseeq d c) \<and> unique_capas A' \<and> max_set A' = max_set A"
  proof (cases "has c (current_set A)")
    case True
    then have "A' = A\<lparr>current_set := drop_first c (current_set A), dirty := True\<rparr>"
      using assms(2) search_none_iff [of "current_set A" c] by (auto simp: Capa_remove_def Let_def split: option.splits if_splits)
    then show ?thesis
      using drop_first_has [OF A] drop_first_distinct [OF A] by (simp add: match_has unique_capas_def)
  next
    case False
    then have "A' = A" using assms(2) search_none_iff [of "current_set A" c] by (auto simp: Capa_remove_def split: option.splits)
    moreover have "\<not> strcaseeq d c" if "has d (current_set A)"
      using that False by (auto simp: has_def dest: strcaseeq_trans)
    ultimately show ?thesis using assms(1) by (auto simp: match_has)
  qed
  then show "Capa_match A' d \<longleftrightarrow> Capa_match A d \<and> \<not> strcaseeq d c" "unique_capas A'" "max_set A' = max_set A"
    by auto
qed

lemma add_match:
  "Capa_match (Capa_add c A) d \<longleftrightarrow> Capa_match A d \<or> (has c (max_set A) \<and> strcaseeq d c)"
proof (cases "capa_search (max_set A) c")
  case None
  then show ?thesis using search_none_iff [of "max_set A" c] by (simp add: Capa_add_def)
next
  case (Some s)
  then have "has c (max_set A)" using search_none_iff [of "max_set A" c] by simp
  moreover have "strcaseeq s c" using Some by (auto simp: capa_search_def find_Some_iff)
  ultimately show ?thesis using Some by (auto simp: Capa_add_def match_has has_def strcaseeq_def)
qed

text \<open>The cached string is the current set, or it is marked as out of date.\<close>

definition cache_ok :: "capa \<Rightarrow> bool" where
  "cache_ok A \<longleftrightarrow> dirty A \<or> capabilities A = take (MAX_CAPASIZE - 1) (join_with '' '' (current_set A))"

lemma cache_ok_kept:
  "cache_ok (Capa_new val)" "cache_ok A \<Longrightarrow> cache_ok (Capa_add c A)"
  "cache_ok A \<Longrightarrow> Capa_remove c A = Some A' \<Longrightarrow> cache_ok A'" "cache_ok A \<Longrightarrow> cache_ok (snd (Capa_as_string A))"
  by (auto simp: cache_ok_def Capa_new_def Capa_add_def Capa_remove_def Capa_as_string_def capa_update_def Let_def
      split: option.splits if_splits)

lemma as_string_current:
  "cache_ok A \<Longrightarrow> fst (Capa_as_string A) = take (MAX_CAPASIZE - 1) (join_with '' '' (current_set A))"
  by (auto simp: cache_ok_def Capa_as_string_def capa_update_def)

end
