(* ===== verification/ImapSession.thy ===== *)
theory ImapSession
  imports Creating MailboxSets TextUtil ClientSession Capa
begin

text \<open>
  The session of an IMAP client (\<open>src/src/dm_imapsession.c\<close>, and the helpers in front of the
  commands of \<open>src/src/imapcommands.c\<close>): its capabilities, the output buffer, state changes, the
  cache of mailbox states, opening and closing of a mailbox, the untagged responses for changes
  made by other sessions, and EXPUNGE.

  A session holds the store of the database in the field \<open>is_db\<close>. The state of the selected
  mailbox and its entry in the cache \<open>mbxinfo\<close> are the same object in the source; here it is kept
  in the cache only. A command that the source hands to a worker thread runs at once; \<open>is_status\<close>
  is the status that it leaves in its thread data. \<open>None\<close> is undefined behaviour or an abort.
\<close>

section \<open>The session\<close>

datatype imap_comm = IMAP_COMM_NONE | IMAP_COMM_CAPABILITY | IMAP_COMM_NOOP | IMAP_COMM_LOGOUT
  | IMAP_COMM_AUTH | IMAP_COMM_LOGIN | IMAP_COMM_SELECT | IMAP_COMM_EXAMINE | IMAP_COMM_ENABLE
  | IMAP_COMM_CREATE | IMAP_COMM_DELETE | IMAP_COMM_RENAME | IMAP_COMM_SUBSCRIBE
  | IMAP_COMM_UNSUBSCRIBE | IMAP_COMM_LIST | IMAP_COMM_LSUB | IMAP_COMM_STATUS | IMAP_COMM_APPEND
  | IMAP_COMM_CHECK | IMAP_COMM_CLOSE | IMAP_COMM_EXPUNGE | IMAP_COMM_SEARCH | IMAP_COMM_FETCH
  | IMAP_COMM_STORE | IMAP_COMM_COPY | IMAP_COMM_UID | IMAP_COMM_SORT | IMAP_COMM_GETQUOTAROOT
  | IMAP_COMM_GETQUOTA | IMAP_COMM_SETACL | IMAP_COMM_DELETEACL | IMAP_COMM_GETACL
  | IMAP_COMM_LISTRIGHTS | IMAP_COMM_MYRIGHTS | IMAP_COMM_NAMESPACE | IMAP_COMM_THREAD
  | IMAP_COMM_UNSELECT | IMAP_COMM_IDLE | IMAP_COMM_STARTTLS | IMAP_COMM_ID

datatype command_progress = Command_FALSE | Command_TRUE | Command_IDLE

record qresync_args =
  qr_uidvalidity :: u64
  qr_modseq :: u64
  qr_known_uids :: "string option"
  qr_known_seqset :: "string option"
  qr_known_uidset :: "string option"

text \<open>The fields of \<open>DbmailMailbox\<close> that the commands below use.\<close>

record imap_mailbox =
  sm_id :: u64
  sm_uid :: bool
  sm_modseq :: u64
  sm_condstore :: bool
  sm_qresync :: bool

text \<open>The settings that the session reads; \<open>c_ssl\<close> says that the server is configured for TLS.\<close>

record imap_conf =
  c_capability :: string
  c_login_disabled :: string
  c_enable_cram_md5 :: string
  c_authdriver :: string
  c_ssl :: bool
  c_update_strategy :: int
  c_select_unseen :: int
  c_store_silent :: int
  c_max_message_size :: string
  c_timeout :: int
  c_login_timeout :: int
  c_differential :: int

text \<open>\<open>is_sent\<close> is what has been handed to the queue of the main thread.\<close>

record imap_session =
  is_conf :: imap_conf
  is_db :: store
  is_ci :: client_base
  is_preauth_capa :: capa
  is_capa :: capa
  is_tag :: string
  is_command :: string
  is_command_type :: imap_comm
  is_command_state :: command_progress
  is_use_uid :: bool
  is_buff :: string
  is_sent :: string
  is_parser_state :: int
  is_args :: "string list"
  is_args_idx :: nat
  is_qresync :: qresync_args
  is_mailbox :: "imap_mailbox option"
  is_userid :: u64
  is_ids :: "(u64, u64) gtree option"
  is_new_ids :: "u64 list"
  is_ids_list :: "u64 list"
  is_mbxinfo :: "(u64, mailboxstate) gtree"
  is_error_count :: int
  is_state :: client_state_t
  is_timeout :: int
  is_condstore :: bool
  is_qresync_on :: bool
  is_status :: int

definition IMAPPERM_READ :: int where
  "IMAPPERM_READ = 1"

definition MATCH :: "string \<Rightarrow> string \<Rightarrow> bool" where
  "MATCH x y \<longleftrightarrow> strcaseeq x y"

text \<open>
  \<open>tag\<close> and \<open>command\<close> are adjacent arrays of 16 bytes. A tag that fills its array has no
  terminator and runs into the command; a command that fills its array is unknown, and the
  zero bytes of \<open>command_type\<close> follow.
\<close>

definition TAG_SIZE :: nat where
  "TAG_SIZE = 16"

definition tag_str :: "imap_session \<Rightarrow> string" where
  "tag_str self = (if length (is_tag self) < TAG_SIZE then is_tag self else is_tag self @ is_command self)"

fun client_state_no :: "client_state_t \<Rightarrow> int" where
  "client_state_no CLIENTSTATE_ANY = - 1"
| "client_state_no CLIENTSTATE_INITIAL_CONNECT = 0"
| "client_state_no CLIENTSTATE_NON_AUTHENTICATED = 1"
| "client_state_no CLIENTSTATE_AUTHENTICATED = 2"
| "client_state_no CLIENTSTATE_SELECTED = 3"
| "client_state_no CLIENTSTATE_LOGOUT = 4"
| "client_state_no CLIENTSTATE_QUIT = 5"
| "client_state_no CLIENTSTATE_ERROR = 6"
| "client_state_no CLIENTSTATE_QUIT_QUEUED = 7"

section \<open>Capabilities\<close>

fun remove_capas :: "string list \<Rightarrow> capa \<Rightarrow> capa option" where
  "remove_capas [] A = Some A"
| "remove_capas (c # cs) A = do { A \<leftarrow> Capa_remove c A; remove_capas cs A }"

definition authenticated_only :: "string list" where
  "authenticated_only = [''ACL'', ''RIGHTS=texk'', ''NAMESPACE'', ''CHILDREN'', ''SORT'', ''QUOTA'',
     ''THREAD=ORDEREDSUBJECT'', ''UNSELECT'', ''IDLE'', ''UIDPLUS'', ''WITHIN'', ''CONDSTORE'', ''ENABLE'', ''QRESYNC'']"

definition preauth_only :: "string list" where
  "preauth_only = [''STARTTLS'', ''LOGINDISABLED'', ''AUTH=LOGIN'', ''AUTH=PLAIN'', ''AUTH=CRAM-MD5'']"

text \<open>The capabilities before and after the login that \<open>dbmail_imap_session_new\<close> computes.\<close>

definition session_capas :: "imap_conf \<Rightarrow> (capa \<times> capa) option" where
  "session_capas conf = do {
     let cram = \<not> MATCH (c_enable_cram_md5 conf) ''no'';
     let login_disabled = (\<not> MATCH (c_login_disabled conf) ''no'' \<and> c_ssl conf);
     pre \<leftarrow> remove_capas authenticated_only (Capa_new (c_capability conf));
     post \<leftarrow> remove_capas preauth_only (Capa_new (c_capability conf));
     pre \<leftarrow> (if \<not> c_ssl conf then Capa_remove ''STARTTLS'' pre else Some pre);
     pre \<leftarrow> (if \<not> cram \<or> MATCH (c_authdriver conf) ''LDAP'' then Capa_remove ''AUTH=CRAM-MD5'' pre else Some pre);
     pre \<leftarrow> (if login_disabled then remove_capas [''AUTH=LOGIN'', ''AUTH=PLAIN'', ''AUTH=CRAM-MD5''] pre
            else Capa_remove ''LOGINDISABLED'' pre);
     Some (pre, post)
   }"

definition add_missing :: "string \<Rightarrow> capa \<Rightarrow> capa" where
  "add_missing c A = (if Capa_match A c then A else Capa_add c A)"

definition dbmail_imap_session_encrypted :: "imap_session \<Rightarrow> imap_session option" where
  "dbmail_imap_session_encrypted self = do {
     let conf = is_conf self;
     A \<leftarrow> Capa_remove ''STARTTLS'' (is_preauth_capa self);
     A \<leftarrow> Capa_remove ''LOGINDISABLED'' A;
     let A = add_missing ''AUTH=PLAIN'' (add_missing ''AUTH=LOGIN'' A);
     let A = (if \<not> MATCH (c_enable_cram_md5 conf) ''no'' \<and> \<not> MATCH (c_authdriver conf) ''LDAP''
              then add_missing ''AUTH=CRAM-MD5'' A else A);
     Some (self\<lparr>is_preauth_capa := A\<rparr>)
   }"

definition no_qresync :: qresync_args where
  "no_qresync = \<lparr>qr_uidvalidity = 0, qr_modseq = 0, qr_known_uids = None, qr_known_seqset = None, qr_known_uidset = None\<rparr>"

definition dbmail_imap_session_new :: "imap_conf \<Rightarrow> store \<Rightarrow> client_base \<Rightarrow> imap_session option" where
  "dbmail_imap_session_new conf db ci = do {
     (pre, post) \<leftarrow> session_capas conf;
     Some \<lparr>is_conf = conf, is_db = db, is_ci = ci, is_preauth_capa = pre, is_capa = post, is_tag = [],
           is_command = [], is_command_type = IMAP_COMM_NONE, is_command_state = Command_FALSE, is_use_uid = False,
           is_buff = [], is_sent = [], is_parser_state = 0, is_args = [], is_args_idx = 0, is_qresync = no_qresync,
           is_mailbox = None, is_userid = 0, is_ids = None, is_new_ids = [], is_ids_list = [], is_mbxinfo = [],
           is_error_count = 0, is_state = CLIENTSTATE_NON_AUTHENTICATED, is_timeout = 0, is_condstore = False,
           is_qresync_on = False, is_status = 0\<rparr>
   }"

section \<open>Output\<close>

definition IMAP_BUF_SIZE :: nat where
  "IMAP_BUF_SIZE = 4096"

definition dbmail_imap_session_buff_clear :: "imap_session \<Rightarrow> imap_session" where
  "dbmail_imap_session_buff_clear self = self\<lparr>is_buff := []\<rparr>"

definition dbmail_imap_session_buff_flush :: "imap_session \<Rightarrow> imap_session" where
  "dbmail_imap_session_buff_flush self =
     (if client_state_no CLIENTSTATE_LOGOUT \<le> client_state_no (is_state self) \<or> length (is_buff self) < 1 then self
      else self\<lparr>is_sent := is_sent self @ is_buff self, is_buff := []\<rparr>)"

text \<open>The text is the formatted message.\<close>

definition dbmail_imap_session_buff_printf :: "string \<Rightarrow> imap_session \<Rightarrow> imap_session" where
  "dbmail_imap_session_buff_printf msg self =
     (let self = self\<lparr>is_buff := is_buff self @ msg\<rparr>
      in if IMAP_BUF_SIZE \<le> length (is_buff self) then dbmail_imap_session_buff_flush self else self)"

abbreviation printf :: "string \<Rightarrow> imap_session \<Rightarrow> imap_session" where
  "printf \<equiv> dbmail_imap_session_buff_printf"

text \<open>A tagged response, an untagged one, and the macros for a command that is done.\<close>

definition tagged :: "string \<Rightarrow> imap_session \<Rightarrow> imap_session" where
  "tagged msg self = printf (tag_str self @ '' '' @ msg @ crlf) self"

definition untagged :: "string \<Rightarrow> imap_session \<Rightarrow> imap_session" where
  "untagged msg self = printf (''* '' @ msg @ crlf) self"

definition session_ok_with :: "string \<Rightarrow> imap_session \<Rightarrow> imap_session" where
  "session_ok_with resp self =
     (if is_state self = CLIENTSTATE_ERROR then self
      else tagged (''OK '' @ resp @ (if is_use_uid self then ''UID '' else []) @ is_command self @ '' completed'') self)"

definition SESSION_OK :: "imap_session \<Rightarrow> imap_session" where
  "SESSION_OK self = session_ok_with [] self"

definition SESSION_OK_WITH_RESP_CODE :: "string \<Rightarrow> imap_session \<Rightarrow> imap_session" where
  "SESSION_OK_WITH_RESP_CODE value self = session_ok_with (''['' @ value @ ''] '') self"

definition SESSION_RETURN :: "int \<Rightarrow> imap_session \<Rightarrow> imap_session" where
  "SESSION_RETURN status self = self\<lparr>is_status := status, is_command_state := Command_TRUE\<rparr>"

section \<open>Checks in front of a command\<close>

definition check_state_and_args ::
  "nat \<Rightarrow> nat \<Rightarrow> client_state_t \<Rightarrow> imap_session \<Rightarrow> bool \<times> imap_session" where
  "check_state_and_args minargs maxargs state self =
     (let n = length (is_args self) - is_args_idx self
      in if is_state self = CLIENTSTATE_ERROR then (False, self)
         else if state \<noteq> CLIENTSTATE_ANY \<and> is_state self \<noteq> state \<and>
                 \<not> (state = CLIENTSTATE_AUTHENTICATED \<and> is_state self = CLIENTSTATE_SELECTED)
         then (False, tagged (''BAD '' @ is_command self @ '' command received in invalid state ['' @
                 show_nat (nat (client_state_no (is_state self))) @ ''] != ['' @
                 show_nat (nat (client_state_no state)) @ '']'') self)
         else if n < minargs
         then (False, tagged (''BAD missing argument'' @ (if minargs = 1 then [] else ''(s)'') @ '' to '' @
                 is_command self) self)
         else if maxargs \<noteq> 0 \<and> maxargs < n
         then (False, tagged (''BAD too many arguments to '' @ is_command self) self)
         else (True, self))"

text \<open>
  A command: the checks, and the function that the worker thread runs. The status of the thread
  data starts as 0, and the command is in progress until it returns.
\<close>

definition ic_command ::
  "nat \<Rightarrow> nat \<Rightarrow> client_state_t \<Rightarrow> (imap_session \<Rightarrow> imap_session option) \<Rightarrow> imap_session \<Rightarrow> (int \<times> imap_session) option" where
  "ic_command minargs maxargs state enter self =
     (case check_state_and_args minargs maxargs state self of
        (ok, self) \<Rightarrow>
          if \<not> ok then Some (1, self)
          else map_option (Pair 0) (enter (self\<lparr>is_status := 0, is_command_state := Command_FALSE\<rparr>)))"

text \<open>The text of an argument; there is none behind the end of the array.\<close>

definition arg :: "imap_session \<Rightarrow> nat \<Rightarrow> string option" where
  "arg self i = (if i < length (is_args self) then Some (is_args self ! i) else None)"

definition dbmail_imap_session_set_state :: "client_state_t \<Rightarrow> imap_session \<Rightarrow> int \<times> imap_session" where
  "dbmail_imap_session_set_state state self =
     (if is_state self = state \<or> is_state self = CLIENTSTATE_QUIT_QUEUED then (1, self)
      else let self = (if state = CLIENTSTATE_AUTHENTICATED then self\<lparr>is_timeout := c_timeout (is_conf self)\<rparr> else self)
           in (0, self\<lparr>is_state := state\<rparr>))"

abbreviation to_state :: "client_state_t \<Rightarrow> imap_session \<Rightarrow> imap_session" where
  "to_state s self \<equiv> snd (dbmail_imap_session_set_state s self)"

definition dbmail_imap_session_set_command :: "string \<Rightarrow> imap_session \<Rightarrow> imap_session" where
  "dbmail_imap_session_set_command command self = self\<lparr>is_command := take (TAG_SIZE - 1) command\<rparr>"

section \<open>Mailbox states\<close>

abbreviation queries :: "imap_session \<Rightarrow> u64 \<Rightarrow> mbxdb" where
  "queries self i \<equiv> mbxdb_of row_live (is_db self) i"

definition put_state :: "mailboxstate \<Rightarrow> imap_session \<Rightarrow> imap_session" where
  "put_state M self = self\<lparr>is_mbxinfo := g_tree_insert ucmpdata (is_mbxinfo self) (mb_id M) M\<rparr>"

text \<open>\<open>self->mailbox->mbstate\<close>.\<close>

definition mbstate :: "imap_session \<Rightarrow> mailboxstate option" where
  "mbstate self = do { m \<leftarrow> is_mailbox self; g_tree_lookup ucmpdata (is_mbxinfo self) (sm_id m) }"

text \<open>The sequence number of a mailbox in the database, read through an empty state.\<close>

definition current_seq :: "imap_session \<Rightarrow> u64 \<Rightarrow> u64" where
  "current_seq self i = fst (MailboxState_getSeq (q_seq (queries self i)) (MailboxState_setId mailbox_zero i))"

text \<open>The sequence numbers are compared as \<open>unsigned\<close>, a type of 32 bits.\<close>

definition dbmail_imap_session_mbxinfo_lookup ::
  "u64 \<Rightarrow> imap_session \<Rightarrow> (mailboxstate \<times> imap_session) option" where
  "dbmail_imap_session_mbxinfo_lookup mailbox_id self =
     (case g_tree_lookup ucmpdata (is_mbxinfo self) mailbox_id of
        None \<Rightarrow> do {
          M \<leftarrow> load_mailbox (is_db self) mailbox_id;
          Some (M, self\<lparr>is_mbxinfo := g_tree_insert ucmpdata (is_mbxinfo self) mailbox_id M\<rparr>)
        }
      | Some M \<Rightarrow>
          if map_option sm_id (is_mailbox self) = Some mailbox_id then Some (M, self)
          else (case MailboxState_getSeq (q_seq (queries self mailbox_id)) M of (oldseq, M) \<Rightarrow>
                (case MailboxState_getExists M of (oldexists, M) \<Rightarrow>
                   if (ucast oldseq :: u32) < ucast (current_seq self mailbox_id)
                   then do {
                     M \<leftarrow> load_mailbox (is_db self) mailbox_id;
                     let (newexists, M) = MailboxState_getExists M;
                     let M = MailboxState_setExists M (max oldexists newexists);
                     Some (M, self\<lparr>is_mbxinfo := g_tree_insert ucmpdata (is_mbxinfo self) mailbox_id M\<rparr>)
                   }
                   else Some (M, self\<lparr>is_mbxinfo := g_tree_insert ucmpdata (is_mbxinfo self) mailbox_id M\<rparr>))))"

text \<open>The state is the one the right is checked on; it may come back with its owner filled in.\<close>

definition mailbox_check_acl ::
  "mailboxstate \<Rightarrow> ACLRight \<Rightarrow> imap_session \<Rightarrow> int \<times> mailboxstate \<times> imap_session" where
  "mailbox_check_acl S acl self =
     (case acl_has_right_in (acl_view (is_db self)) S (is_userid self) acl of (access, S) \<Rightarrow>
        if access < 0 then (- 1, S, untagged ''BYE internal database error'' self)
        else if access = 0 then (1, S, tagged ''NO permission denied'' self)
        else (0, S, self))"

definition check_cached_acl :: "mailboxstate \<Rightarrow> ACLRight \<Rightarrow> imap_session \<Rightarrow> int \<times> imap_session" where
  "check_cached_acl S acl self =
     (case mailbox_check_acl S acl self of (r, S, self) \<Rightarrow> (r, put_state S self))"

definition imap_session_mailbox_check_acl :: "u64 \<Rightarrow> ACLRight \<Rightarrow> imap_session \<Rightarrow> (int \<times> imap_session) option" where
  "imap_session_mailbox_check_acl idnr acl self = do {
     (S, self) \<leftarrow> dbmail_imap_session_mbxinfo_lookup idnr self;
     let (result, self) = check_cached_acl S acl self;
     Some (result, if result = 1 then to_state CLIENTSTATE_AUTHENTICATED self else self)
   }"

text \<open>
  \<open>MailboxState_flush_recent\<close> with its statements run on the store: the rows of the queued
  messages that are still recent and older than the next sequence number are changed.
\<close>

definition flush_row :: "u64 list \<Rightarrow> u64 \<Rightarrow> u64 \<times> message_row \<Rightarrow> bool" where
  "flush_row ids seq im \<longleftrightarrow>
     fst im \<in> set ids \<and> msg_flags (snd im) ! IMAP_FLAG_RECENT \<and> msg_seq (snd im) < seq"

definition flush_recent :: "mailboxstate \<Rightarrow> store \<Rightarrow> mailboxstate \<times> store" where
  "flush_recent M st =
     (case MailboxState_getPermission (q_permission (mbxdb_of row_live st (mb_id M))) M of (perm, M) \<Rightarrow>
        if perm \<noteq> IMAPPERM_READWRITE \<or> g_tree_nnodes (mb_recent_queue M) = 0 then (M, st)
        else (case MailboxState_getSeq (q_seq (mbxdb_of row_live st (mb_id M))) M of (seq, M) \<Rightarrow>
                let hit = flush_row (g_tree_keys (mb_recent_queue M)) (seq + 1);
                    failed = st_fails st (U_recent (mb_id M));
                    changed = failed \<or> (\<exists>im \<in> set (st_messages st). hit im);
                    st = (if failed then st
                          else st\<lparr>st_messages := map (\<lambda>(i, m). (i, if hit (i, m)
                                   then m\<lparr>msg_flags := (msg_flags m)[IMAP_FLAG_RECENT := False], msg_seq := seq + 1\<rparr>
                                   else m)) (st_messages st)\<rparr>)
                in (M\<lparr>mb_recent_queue := []\<rparr>,
                    if changed then snd (db_mailbox_seq_update (mb_id M) 0 st) else st)))"

definition session_flush_recent :: "mailboxstate \<Rightarrow> imap_session \<Rightarrow> imap_session" where
  "session_flush_recent M self =
     (case flush_recent M (is_db self) of (M, st) \<Rightarrow> put_state M (self\<lparr>is_db := st\<rparr>))"

section \<open>Opening and closing\<close>

definition imap_session_mailbox_close :: "imap_session \<Rightarrow> imap_session option" where
  "imap_session_mailbox_close self =
     (let self = to_state CLIENTSTATE_AUTHENTICATED self
      in case is_mailbox self of
           None \<Rightarrow> Some self
         | Some m \<Rightarrow> do {
             M \<leftarrow> mbstate self;
             let self = put_state (snd (MailboxState_clear_recent (q_permission (queries self (mb_id M))) M)) self;
             let self = self\<lparr>is_mailbox := None\<rparr>;
             Some (if is_qresync_on self \<and> is_command_type self \<in> {IMAP_COMM_SELECT, IMAP_COMM_EXAMINE}
                   then untagged ''OK [CLOSED]'' self else self)
           })"

text \<open>The mailbox of a name, with an INBOX made on the way.\<close>

definition find_or_make_inbox :: "string \<Rightarrow> imap_session \<Rightarrow> (u64 option \<times> imap_session) option" where
  "find_or_make_inbox mailbox self = do {
     found \<leftarrow> db_findmailbox (is_db self) mailbox (is_userid self);
     if found = None \<and> strcaseeq mailbox ''INBOX''
     then do {
       (err, i, st) \<leftarrow> db_createmailbox ''INBOX'' (is_userid self) (is_db self);
       Some (if i = 0 then None else Some i, self\<lparr>is_db := st\<rparr>)
     }
     else Some (found, self)
   }"

definition imap_session_mailbox_open :: "string \<Rightarrow> imap_session \<Rightarrow> (int \<times> imap_session) option" where
  "imap_session_mailbox_open mailbox self = do {
     (found, self) \<leftarrow> find_or_make_inbox mailbox self;
     case found of
       None \<Rightarrow> Some (1, tagged ''NO specified mailbox does not exist'' self)
     | Some i \<Rightarrow> do {
         (M, self) \<leftarrow> dbmail_imap_session_mbxinfo_lookup i (self\<lparr>is_mailbox := None\<rparr>);
         let self = self\<lparr>is_mailbox := Some \<lparr>sm_id = i, sm_uid = False, sm_modseq = 0, sm_condstore = False,
                                          sm_qresync = False\<rparr>\<rparr>;
         let (access, M, self) = mailbox_check_acl M ACL_RIGHT_READ self;
         if access = 1 then Some (DM_EGENERAL, to_state CLIENTSTATE_AUTHENTICATED (put_state M self))
         else do {
           let M = MailboxState_setPermission M
                     (if is_command_type self = IMAP_COMM_SELECT then IMAPPERM_READWRITE else IMAPPERM_READ);
           if MailboxState_noSelect M then Some (DM_EGENERAL, put_state M self)
           else Some (0, put_state (MailboxState_build_recent (q_permission (queries self i)) M)
                  (self\<lparr>is_mailbox := Some \<lparr>sm_id = i, sm_uid = False, sm_modseq = 0,
                     sm_condstore = is_condstore self, sm_qresync = is_qresync_on self\<rparr>\<rparr>))
         }
       }
   }"

end
