(* ===== verification/ImapUpdates.thy ===== *)
theory ImapUpdates
  imports ImapSession
begin

text \<open>
  What a session tells its client about the selected mailbox (\<open>notify_*\<close>,
  \<open>dbmail_imap_session_mailbox_status\<close>), the expunging of messages
  (\<open>dbmail_imap_session_mailbox_expunge\<close>), and message sets against the selected mailbox
  (\<open>dbmail_mailbox_get_set\<close> of \<open>src/src/dm_mailbox.c\<close>, \<open>_dm_imapsession_get_ids\<close> of
  \<open>src/src/imapcommands.c\<close>).
\<close>

section \<open>Message sets\<close>

definition checkset :: "string \<Rightarrow> bool" where
  "checkset s \<longleftrightarrow> set s \<subseteq> set ''0123456789:,*''"

text \<open>The keys to remove; a message without info ends the traversal.\<close>

definition filter_modseq ::
  "(u64, messageinfo) gtree \<Rightarrow> u64 \<Rightarrow> u64 \<Rightarrow> u64 \<Rightarrow> u64 list \<Rightarrow> bool \<times> u64 list" where
  "filter_modseq msginfo modseq key value remove =
     (case g_tree_lookup ucmpdata msginfo key of
        None \<Rightarrow> (True, remove)
      | Some info \<Rightarrow> (False, if mi_seq info \<le> modseq then key # remove else remove))"

definition find_modseq :: "mailboxstate \<Rightarrow> imap_mailbox \<Rightarrow> (u64, u64) gtree \<Rightarrow> (u64, u64) gtree" where
  "find_modseq M m t =
     (if sm_modseq m = 0 then t
      else fold (\<lambda>key t. g_tree_remove ucmpdata t key)
             (g_tree_foreach t (filter_modseq (mb_msginfo M) (sm_modseq m)) []) t)"

definition dbmail_mailbox_get_set ::
  "mailboxstate \<Rightarrow> imap_mailbox \<Rightarrow> string \<Rightarrow> bool \<Rightarrow> (u64, u64) gtree option \<times> mailboxstate" where
  "dbmail_mailbox_get_set M m mset uid =
     (if \<not> uid \<and> g_tree_nnodes (MailboxState_getIds M) = 0 then (None, M)
      else if \<not> checkset mset then (None, M)
      else case MailboxState_get_set M mset uid of (b, M) \<Rightarrow> (map_option (find_modseq M m) b, M))"

definition dm_imapsession_get_ids :: "string \<Rightarrow> imap_session \<Rightarrow> (int \<times> imap_session) option" where
  "dm_imapsession_get_ids mset self = do {
     m \<leftarrow> is_mailbox self;
     M \<leftarrow> mbstate self;
     let m = m\<lparr>sm_uid := is_use_uid self\<rparr>;
     let (ids, M) = dbmail_mailbox_get_set M m mset (is_use_uid self);
     let self = put_state M (self\<lparr>is_mailbox := Some m, is_ids := ids\<rparr>);
     let found = (case ids of None \<Rightarrow> False | Some t \<Rightarrow> 0 < g_tree_nnodes t);
     Some (if \<not> is_use_uid self \<and> \<not> found
           then (DM_EGENERAL, tagged (''BAD invalid sequence in msn set ['' @ mset @ '']'') self)
           else if is_use_uid self \<and> ids = None
           then (DM_EGENERAL, tagged (''BAD invalid sequence in uid set ['' @ mset @ '']'') self)
           else (DM_SUCCESS, self))
   }"

section \<open>Changes of flags\<close>

definition notify_fetch :: "u64 \<Rightarrow> mailboxstate \<Rightarrow> imap_session \<Rightarrow> (mailboxstate \<times> imap_session) option" where
  "notify_fetch uid N self = do {
     m \<leftarrow> is_mailbox self;
     M \<leftarrow> mbstate self;
     case (if uid = 0 then None else g_tree_lookup ucmpdata (mb_msginfo N) uid) of
       None \<Rightarrow> Some (N, self)
     | Some new \<Rightarrow>
         (case g_tree_lookup ucmpdata (mb_ids M) uid of
            None \<Rightarrow> Some (N, self)
          | Some msn \<Rightarrow>
              (case MailboxState_merge_recent N M of (_, N, M) \<Rightarrow>
                 let self = put_state M self;
                     old = g_tree_lookup ucmpdata (mb_msginfo M) uid;
                     oldflags = dbmail_imap_plist_as_string
                       (case old of None \<Rightarrow> [] | Some old \<Rightarrow> MailboxState_message_flags M old);
                     newflags = dbmail_imap_plist_as_string (MailboxState_message_flags N new);
                     modseqchanged = (case old of None \<Rightarrow> True | Some old \<Rightarrow> mi_seq old < mi_seq new);
                     flagschanged = (\<not> MATCH oldflags newflags);
                     plist = (if is_use_uid self then [''UID '' @ show_u64 uid] else []) @
                       (if modseqchanged \<and> sm_condstore m then [''MODSEQ ('' @ show_u64 (mi_seq new) @ '')''] else []) @
                       (if flagschanged then [''FLAGS '' @ newflags] else [])
                 in Some (N, if modseqchanged \<or> flagschanged
                             then untagged (show_u64 msn @ '' FETCH '' @ dbmail_imap_plist_as_string plist) self
                             else self)))
   }"

fun notify_fetch_loop :: "u64 list \<Rightarrow> mailboxstate \<Rightarrow> imap_session \<Rightarrow> (mailboxstate \<times> imap_session) option" where
  "notify_fetch_loop [] N self = Some (N, self)"
| "notify_fetch_loop (uid # uids) N self = do {
     (N, self) \<leftarrow> notify_fetch uid N self;
     notify_fetch_loop uids N self
   }"

text \<open>The new state becomes the state of the selected mailbox.\<close>

definition mailbox_notify_fetch :: "mailboxstate \<Rightarrow> imap_session \<Rightarrow> imap_session option" where
  "mailbox_notify_fetch N self = do {
     M \<leftarrow> mbstate self;
     (N, self) \<leftarrow> notify_fetch_loop (g_tree_keys (mb_ids M)) N self;
     Some (session_flush_recent N self)
   }"

section \<open>Expunged messages\<close>

text \<open>The result is TRUE when nothing was removed; the callers do not look at it.\<close>

definition notify_expunge :: "u64 \<Rightarrow> imap_session \<Rightarrow> (bool \<times> imap_session) option" where
  "notify_expunge uid self = do {
     M \<leftarrow> mbstate self;
     case g_tree_lookup ucmpdata (mb_ids M) uid of
       None \<Rightarrow> Some (True, self)
     | Some msn \<Rightarrow>
         if is_command_type self \<in> {IMAP_COMM_FETCH, IMAP_COMM_STORE, IMAP_COMM_SEARCH} then Some (False, self)
         else do {
           (r, M) \<leftarrow> MailboxState_removeUid M uid;
           let self = put_state M self;
           Some (if r = DM_SUCCESS then (False, untagged (show_u64 msn @ '' EXPUNGE'') self) else (True, self))
         }
   }"

fun notify_expunge_loop :: "u64 list \<Rightarrow> mailboxstate \<Rightarrow> imap_session \<Rightarrow> (mailboxstate \<times> imap_session) option" where
  "notify_expunge_loop [] N self = Some (N, self)"
| "notify_expunge_loop (uid # uids) N self =
     (case g_tree_lookup ucmpdata (mb_msginfo N) uid of
        Some info \<Rightarrow>
          if g_tree_lookup ucmpdata (mb_ids N) uid = None
          then do {
            (_, self) \<leftarrow> notify_expunge uid self;
            notify_expunge_loop uids
              (N\<lparr>mb_msginfo := g_tree_insert ucmpdata (mb_msginfo N) uid (info\<lparr>mi_expunged := 1\<rparr>)\<rparr>) self
          }
          else notify_expunge_loop uids N self
      | None \<Rightarrow> notify_expunge_loop uids N self)"

definition show_d32 :: "u32 \<Rightarrow> string" where
  "show_d32 w = (if sint w < 0 then ''-'' @ show_nat (nat (- sint w)) else show_nat (nat (sint w)))"

definition show_u32 :: "u32 \<Rightarrow> string" where
  "show_u32 w = show_nat (unat w)"

definition mailbox_notify_expunge :: "mailboxstate \<Rightarrow> imap_session \<Rightarrow> (mailboxstate \<times> imap_session) option" where
  "mailbox_notify_expunge N self = do {
     M \<leftarrow> mbstate self;
     let ids = rev (g_tree_keys (mb_ids M));
     let self = (case ids of
         [] \<Rightarrow> self
       | uid # _ \<Rightarrow>
           (case g_tree_lookup ucmpdata (mb_ids M) uid of
              None \<Rightarrow> self
            | Some msn \<Rightarrow>
                (case MailboxState_getExists M of (n, M) \<Rightarrow>
                   let self = put_state M self
                   in if ucast n < msn then untagged (show_d32 n @ '' EXISTS'') self else self)));
     notify_expunge_loop ids N self
   }"

section \<open>The status of the selected mailbox\<close>

text \<open>\<open>g_ascii_isspace\<close>.\<close>

definition g_isspace :: "char \<Rightarrow> bool" where
  "g_isspace c \<longleftrightarrow> code c \<in> {9, 10, 12, 13, 32}"

definition print_flags :: "mailboxstate \<Rightarrow> imap_session \<Rightarrow> imap_session" where
  "print_flags N self =
     (let flags = MailboxState_flags g_isspace N
      in untagged (''OK [PERMANENTFLAGS ('' @ flags @ '' '' @ [bslash] @ ''*)] Flags allowed.'')
           (untagged (''FLAGS ('' @ flags @ '')'') self))"

text \<open>
  The new state, if there is one, by the strategy of the configuration. A differential update
  takes the message infos of the old state.
\<close>

definition reload_state :: "mailboxstate \<Rightarrow> imap_session \<Rightarrow> (mailboxstate \<times> imap_session) option" where
  "reload_state M self =
     (if c_update_strategy (is_conf self) = 2
      then (case refresh_mailbox (c_differential (is_conf self)) (is_db self) M of
              (N, M) \<Rightarrow> map_option (\<lambda>N. (N, put_state M self)) N)
      else map_option (\<lambda>N. (N, put_state M self)) (load_mailbox (is_db self) (mb_id M)))"

definition announce ::
  "bool \<Rightarrow> bool \<Rightarrow> bool \<Rightarrow> mailboxstate \<Rightarrow> imap_session \<Rightarrow> imap_session option" where
  "announce showexists showrecent showflags N self = do {
     let (n, N) = MailboxState_getExists N;
     let self = (if showexists \<and> n \<noteq> 0 then untagged (show_u32 n @ '' EXISTS'') self else self);
     let self = (if showrecent \<and> MailboxState_getRecent N \<noteq> 0
                 then untagged (show_u32 (MailboxState_getRecent N) @ '' RECENT'') self else self);
     (N, self) \<leftarrow> mailbox_notify_expunge N self;
     mailbox_notify_fetch N (if showflags then print_flags N self else self)
   }"

definition dbmail_imap_session_mailbox_status :: "bool \<Rightarrow> imap_session \<Rightarrow> imap_session option" where
  "dbmail_imap_session_mailbox_status update self =
     (if is_state self \<noteq> CLIENTSTATE_SELECTED \<or> \<not> update then Some self
      else do {
        M \<leftarrow> mbstate self;
        let (oldseq, M) = MailboxState_getSeq (q_seq (queries self (mb_id M))) M;
        let oldflags = MailboxState_flags g_isspace M;
        let (oldexists, M) = MailboxState_getExists M;
        let olduidnext = MailboxState_getUidnext M;
        if (ucast oldseq :: u32) = ucast (current_seq self (mb_id M)) then Some (put_state M self)
        else do {
          (N, self) \<leftarrow> reload_state M self;
          let (newexists, N) = MailboxState_getExists N;
          let N = MailboxState_setExists N (max oldexists newexists);
          let always = is_command_type self \<in> {IMAP_COMM_EXAMINE, IMAP_COMM_SELECT, IMAP_COMM_SEARCH, IMAP_COMM_SORT};
          announce (olduidnext < MailboxState_getUidnext N \<or> always) (MailboxState_getRecent N \<noteq> 0 \<or> always)
            (\<not> MATCH (MailboxState_flags g_isspace N) oldflags) N self
        }
      })"

section \<open>Expunging\<close>

text \<open>
  The result of \<open>_do_expunge\<close> is ignored by \<open>g_list_foreach\<close>, and \<open>db_exec\<close> returns FALSE, not
  \<open>DM_EQUERY\<close>, when the statement fails: the message is reported as expunged all the same.
\<close>

definition do_expunge :: "u64 \<Rightarrow> imap_session \<Rightarrow> imap_session option" where
  "do_expunge i self = do {
     M \<leftarrow> mbstate self;
     case g_tree_lookup ucmpdata (mb_msginfo M) i of
       None \<Rightarrow> Some self
     | Some info \<Rightarrow>
         if mi_flags info ! IMAP_FLAG_DELETED = 0 then Some self
         else let st = is_db self;
                  st = (if st_fails st (U_expunge i) then st
                        else st\<lparr>st_messages := update_row i (\<lambda>m. m\<lparr>msg_status := MESSAGE_STATUS_DELETE\<rparr>) (st_messages st)\<rparr>)
              in map_option snd (notify_expunge i (self\<lparr>is_db := st\<rparr>))
   }"

fun expunge_loop :: "u64 list \<Rightarrow> imap_session \<Rightarrow> imap_session option" where
  "expunge_loop [] self = Some self"
| "expunge_loop (i # ids) self = do { self \<leftarrow> do_expunge i self; expunge_loop ids self }"

text \<open>
  The result is the code and the sequence number. A set that cannot be parsed leaves a null
  pointer, which \<open>g_tree_keys\<close> rejects with an empty list.
\<close>

definition dbmail_imap_session_mailbox_expunge ::
  "string option \<Rightarrow> imap_session \<Rightarrow> (int \<times> u64 \<times> imap_session) option" where
  "dbmail_imap_session_mailbox_expunge mset self = do {
     m \<leftarrow> is_mailbox self;
     M \<leftarrow> mbstate self;
     let i = g_tree_nnodes (MailboxState_getIds M);
     if i = 0 then Some (DM_SUCCESS, 0, self)
     else do {
       let (result, mailbox_size) = db_get_mailbox_size (is_db self) (sm_id m) True;
       if result = DM_EQUERY then Some (DM_EQUERY, 0, self)
       else do {
         let (ids, M) = (case mset of
             None \<Rightarrow> (g_tree_keys (MailboxState_getIds M), M)
           | Some s \<Rightarrow> (case dbmail_mailbox_get_set M m s (is_use_uid self) of
                          (t, M) \<Rightarrow> (case t of None \<Rightarrow> [] | Some t \<Rightarrow> g_tree_keys t, M)));
         self \<leftarrow> expunge_loop (rev ids) (put_state M self);
         M \<leftarrow> mbstate self;
         if g_tree_nnodes (MailboxState_getIds M) < i
         then let (modseq, st) = db_mailbox_seq_update (sm_id m) 0 (is_db self);
                  (r, st) = dm_quota_user_dec (is_userid self) mailbox_size st;
                  self = self\<lparr>is_db := st\<rparr>
              in Some (if r = 0 then DM_EQUERY else 0, modseq, self)
         else Some (0, 0, self)
       }
     }
   }"

end
