(* ===== verification/Spec2Isabelle.thy ===== *)
theory Spec2Isabelle
  imports PString PList GLists Sset Names Match MailboxLoad Pop3 Acl Creating ImapUpdates
begin

text \<open>
  A verification development for DBMail, a mail server that keeps its messages in an SQL database
  and serves them over POP3, IMAP and LMTP. File names below are relative to \<open>src/src/\<close>.

  \<^bold>\<open>The program and its model.\<close> Data structures of its own (growable strings, lists, sorted sets,
  trees from GLib) carry a layer of text utilities; on these stand the in-memory state of a
  mailbox, the rights, the resolution of addresses, the buffered connections to clients, and the
  operations on the database; the servers use all of them. A C function is a HOL function of the
  same name. A \<open>struct\<close> is a record, an enumeration a datatype, \<open>uint64_t\<close> and \<open>uint32_t\<close> are
  words; a string is a list of characters without its NUL, except where the memory block itself
  matters (\<open>Prelude\<close>, \<open>PString\<close>, \<open>ClientBase\<close>). State is passed explicitly. \<open>None\<close> stands for
  undefined behaviour, an abort or the use of a null pointer; for a query, of type \<open>'r sql\<close>, it
  stands for an SQL exception, so that the TRY/CATCH blocks are case distinctions.

  \<^item> \<open>Prelude\<close>, \<open>CString\<close>: result codes, memory blocks, the functions of the C library on strings
    and numbers, splitting and joining.
  \<^item> \<open>PString\<close> (\<open>dm_string.c\<close>), \<open>PList\<close> and \<open>GLists\<close> (\<open>dm_list.c\<close> and the list helpers of
    \<open>dm_misc.c\<close>), \<open>GTree\<close> (GLib trees and \<open>g_tree_merge\<close>), \<open>Sset\<close> (\<open>dm_sset.c\<close>): the containers.
    Each is shown to refine lists, finite maps or sets; the locales \<open>string_buffer\<close>,
    \<open>key_order\<close> and \<open>element_set\<close> state the interfaces and are interpreted on the model.
  \<^item> \<open>Names\<close>, \<open>Match\<close>, \<open>TextUtil\<close> (\<open>dm_misc.c\<close>, \<open>dm_match.c\<close>): namespaces, bounded substrings,
    syntax checks, the LIKE patterns of mailbox names, globs, CRLF and dot encoding, astrings.
    Round trips, exactness of the patterns, and the inputs on which the functions go wrong.
  \<^item> \<open>MailboxState\<close>, \<open>MailboxOps\<close>, \<open>MailboxSets\<close>, \<open>MailboxLoad\<close> (\<open>dm_mailboxstate.c\<close>): the state of
    an open mailbox. Numbering of messages, the two inverse maps, message sets, keywords, flags
    and permissions, loading and incremental update from the rows that the queries return.
  \<^item> \<open>Acl\<close> (\<open>dm_acl.c\<close> and the acl statements of \<open>dm_db.c\<close>): setting, testing and listing rights.
  \<^item> \<open>Store\<close>, \<open>Copying\<close>, \<open>Mailboxes\<close>, \<open>Creating\<close> (\<open>dm_db.c\<close>, \<open>dm_quota.c\<close>): the tables of
    mailboxes, messages, keywords, subscriptions, rights and quotas with the constraints of the
    schema, the operations on them as functions and as the transition system \<open>store_step\<close>,
    lookup and creation of mailboxes by name. Queries of the mailbox state and of the rights are
    answered from the same tables. Shown are the invariant of the tables, that message numbers
    are not reused, what copying and deleting do to quotas, that an open mailbox sees a copy, and
    that creating a mailbox creates its path.
  \<^item> \<open>Dsn\<close> (\<open>dm_dsn.c\<close>, \<open>auth_check_user_ext\<close> of \<open>modules/authsql.c\<close>): delivery status codes and
    the resolution of addresses to users and forwards; the locale \<open>alias_resolver\<close>.
  \<^item> \<open>ClientBase\<close>, \<open>ClientSession\<close> (\<open>clientbase.c\<close>, \<open>clientsession.c\<close>): write buffer, line reader,
    callbacks and the end of a session. The results of coming reads and writes of the socket are
    listed in the connection, and what was sent is recorded.
  \<^item> \<open>Pop3\<close> (\<open>pop3.c\<close> and its part of \<open>dm_db.c\<close>): every command, and sessions as the transition
    system \<open>pop3_step\<close>.

  \<^bold>\<open>Bounds and fuel.\<close> Loops of the source are structural recursions or have a measure; the alias
  lookup is bounded by the 20 levels of the source. The number of retries on a blocked socket is
  an argument, as it is outside the control of the program. Counters wrap where the types do:
  theorems on sequence numbers ask for fewer than \<open>2 ^ 64 - 1\<close> messages, those on database keys
  for keys below the end of an INT8 sequence.

  \<^bold>\<open>Not modelled.\<close> SQL text, the libzdb driver, GMime, OpenSSL, LDAP, libSieve, libevent and GLib
  beyond lists, trees and strings are code outside \<open>src/\<close>: their results are arguments. Processes,
  threads, signals, configuration files and logging are left out, as are memory pools and
  releases of memory. Rows of a query without ORDER BY come in the order of insertion. The
  manifest lists for each part what is missing.
\<close>

end
